(* ===== verification/Drv_Prelude.thy ===== *)
theory Drv_Prelude
  imports Main "HOL-Library.Word"
begin

text \<open>
  The vocabulary the component theories share.

  \<^item> Machine integers: \<open>u8\<close> to \<open>u64\<close> are words of that width and wrap; a Rust \<open>usize\<close> is a
    natural number, with the 64-bit bound written out wherever the source checks it
    (\<open>checked_add\<close>, \<open>checked_mul\<close>, \<open>checked_sub\<close>).
  \<^item> Results: \<open>('e, 'a) res\<close> is Rust's \<open>Result\<close> with one more constructor, \<open>Panic\<close>, for an
    index or slice that is out of range. A theorem that a function never panics is a theorem
    that it is not \<open>Panic\<close>.
  \<^item> Effects: an operation on a state \<open>'s\<close> is a function \<open>'s \<Rightarrow> ('e, 'a) res \<times> 's\<close>; the state
    after an error is returned too, because the source keeps it.
  \<^item> Bytes: little- and big-endian encodings with their round trips, UTF-8, and the interface
    \<open>wire_codec\<close> of a packet format that decodes exactly what it encodes.
\<close>

unbundle bit_operations_syntax

named_theorems byte_simps \<open>unfolding of byte-level accesses\<close>
named_theorems safe_intros \<open>rules that show an evaluation does not panic\<close>

type_synonym u8 = "8 word"
type_synonym u16 = "16 word"
type_synonym u32 = "32 word"
type_synonym u64 = "64 word"
type_synonym bytes = "8 word list"

section \<open>Results\<close>

datatype ('e, 'a) res = Ok 'a | Err 'e | Panic

text \<open>The question mark operator: go on with the value, or return what was not one.\<close>

primrec and_then :: "('e, 'a) res \<Rightarrow> ('a \<Rightarrow> ('e, 'b) res) \<Rightarrow> ('e, 'b) res" where
  "and_then (Ok x) f = f x"
| "and_then (Err e) f = Err e"
| "and_then Panic f = Panic"

primrec ok_or :: "'a option \<Rightarrow> 'e \<Rightarrow> ('e, 'a) res" where
  "ok_or None e = Err e"
| "ok_or (Some x) e = Ok x"

lemma and_then_eq_Ok [simp]:
  "and_then m f = Ok y \<longleftrightarrow> (\<exists>x. m = Ok x \<and> f x = Ok y)"
  by (cases m) auto

lemma and_then_eq_Err:
  "and_then m f = Err e \<longleftrightarrow> m = Err e \<or> (\<exists>x. m = Ok x \<and> f x = Err e)"
  by (cases m) auto

lemma and_then_eq_Panic:
  "and_then m f = Panic \<longleftrightarrow> m = Panic \<or> (\<exists>x. m = Ok x \<and> f x = Panic)"
  by (cases m) auto

lemma and_then_assoc: "and_then (and_then m f) g = and_then m (\<lambda>x. and_then (f x) g)"
  by (cases m) auto

lemma ok_or_eq_Ok [simp]: "ok_or z e = Ok x \<longleftrightarrow> z = Some x"
  by (cases z) auto

definition safe :: "('e, 'a) res \<Rightarrow> bool" where
  "safe r \<longleftrightarrow> r \<noteq> Panic"

lemma safe_Ok [simp, safe_intros]: "safe (Ok x)"
  by (simp add: safe_def)

lemma safe_Err [simp, safe_intros]: "safe (Err e)"
  by (simp add: safe_def)

lemma safe_Panic [simp]: "\<not> safe Panic"
  by (simp add: safe_def)

lemma safe_ok_or [simp, safe_intros]: "safe (ok_or z e)"
  by (cases z) auto

lemma safe_and_then [safe_intros]:
  "safe m \<Longrightarrow> (\<And>x. m = Ok x \<Longrightarrow> safe (f x)) \<Longrightarrow> safe (and_then m f)"
  by (cases m) auto

lemma safe_if [safe_intros]:
  "(b \<Longrightarrow> safe x) \<Longrightarrow> (\<not> b \<Longrightarrow> safe y) \<Longrightarrow> safe (if b then x else y)"
  by simp

section \<open>Operations on a state\<close>

type_synonym ('s, 'e, 'a) op = "'s \<Rightarrow> ('e, 'a) res \<times> 's"

definition st_return :: "('e, 'a) res \<Rightarrow> ('s, 'e, 'a) op" where
  "st_return r s = (r, s)"

definition st_then :: "('s, 'e, 'a) op \<Rightarrow> ('a \<Rightarrow> ('s, 'e, 'b) op) \<Rightarrow> ('s, 'e, 'b) op" where
  "st_then m k s =
     (case m s of (Ok x, s') \<Rightarrow> k x s' | (Err e, s') \<Rightarrow> (Err e, s') | (Panic, s') \<Rightarrow> (Panic, s'))"

definition st_reads :: "('s \<Rightarrow> ('e, 'a) res) \<Rightarrow> ('s, 'e, 'a) op" where
  "st_reads f s = (f s, s)"

lemma st_reads_apply [simp]: "st_reads f s = (f s, s)"
  by (simp add: st_reads_def)

lemma st_return_apply [simp]: "st_return r s = (r, s)"
  by (simp add: st_return_def)

lemma st_then_Ok [simp]: "m s = (Ok x, s') \<Longrightarrow> st_then m k s = k x s'"
  by (simp add: st_then_def)

lemma st_then_Err [simp]: "m s = (Err e, s') \<Longrightarrow> st_then m k s = (Err e, s')"
  by (simp add: st_then_def)

lemma st_then_Panic [simp]: "m s = (Panic, s') \<Longrightarrow> st_then m k s = (Panic, s')"
  by (simp add: st_then_def)

lemma st_then_return_Ok [simp]: "st_then (st_return (Ok x)) k = k x"
  by (rule ext) simp

lemma st_then_return_Err [simp]: "st_then (st_return (Err e)) k = st_return (Err e)"
  by (rule ext) simp

lemma st_then_return_Panic [simp]: "st_then (st_return Panic) k = st_return Panic"
  by (rule ext) simp

lemma st_then_eq_Ok:
  "st_then m k s = (Ok y, t) \<longleftrightarrow> (\<exists>x u. m s = (Ok x, u) \<and> k x u = (Ok y, t))"
  by (auto simp: st_then_def split: prod.splits res.splits)

lemma st_then_eq_Err:
  "st_then m k s = (Err e, t) \<longleftrightarrow>
     m s = (Err e, t) \<or> (\<exists>x u. m s = (Ok x, u) \<and> k x u = (Err e, t))"
  by (auto simp: st_then_def split: prod.splits res.splits)

lemma st_then_reads [simp]:
  "st_then (st_reads f) k s =
     (case f s of Ok x \<Rightarrow> k x s | Err e \<Rightarrow> (Err e, s) | Panic \<Rightarrow> (Panic, s))"
  by (simp add: st_then_def split: res.splits)

section \<open>Sizes and checked arithmetic\<close>

text \<open>The source targets 64-bit hosts: \<open>usize::MAX\<close> is \<open>2 ^ 64 - 1\<close>.\<close>

definition USIZE_MAX :: nat where
  "USIZE_MAX = 18446744073709551615"

definition checked_add :: "nat \<Rightarrow> nat \<Rightarrow> nat option" where
  "checked_add a b = (if a + b \<le> USIZE_MAX then Some (a + b) else None)"

definition checked_mul :: "nat \<Rightarrow> nat \<Rightarrow> nat option" where
  "checked_mul a b = (if a * b \<le> USIZE_MAX then Some (a * b) else None)"

definition checked_sub :: "nat \<Rightarrow> nat \<Rightarrow> nat option" where
  "checked_sub a b = (if b \<le> a then Some (a - b) else None)"

definition checked_add_word :: "'w::len word \<Rightarrow> 'w word \<Rightarrow> 'w word option" where
  "checked_add_word a b = (if unat a + unat b < 2 ^ LENGTH('w) then Some (a + b) else None)"

definition saturating_sub_word :: "'w::len word \<Rightarrow> 'w word \<Rightarrow> 'w word" where
  "saturating_sub_word a b = (if b \<le> a then a - b else 0)"

lemma checked_add_eq_Some [simp]:
  "checked_add a b = Some c \<longleftrightarrow> c = a + b \<and> a + b \<le> USIZE_MAX"
  by (auto simp: checked_add_def)

lemma checked_sub_eq_Some [simp]: "checked_sub a b = Some c \<longleftrightarrow> b \<le> a \<and> c = a - b"
  by (auto simp: checked_sub_def)

lemma checked_mul_eq_Some [simp]:
  "checked_mul a b = Some c \<longleftrightarrow> c = a * b \<and> a * b \<le> USIZE_MAX"
  by (auto simp: checked_mul_def)

lemma checked_add_word_eq_Some:
  "checked_add_word a b = Some c \<longleftrightarrow> unat a + unat b < 2 ^ LENGTH('w) \<and> c = a + b"
  for a b c :: "'w::len word"
  by (auto simp: checked_add_word_def)

lemma checked_add_word_unat:
  "checked_add_word a b = Some c \<Longrightarrow> unat c = unat a + unat b"
  for a b c :: "'w::len word"
  by (auto simp: checked_add_word_eq_Some unat_word_ariths)

lemma unat_saturating_sub [simp]:
  "unat (saturating_sub_word a b) = unat a - unat b"
  by (auto simp: saturating_sub_word_def unat_sub word_le_nat_alt)

section \<open>Slices\<close>

definition slice_get :: "nat \<Rightarrow> nat \<Rightarrow> 'a list \<Rightarrow> 'a list option" where
  "slice_get lo hi xs =
     (if lo \<le> hi \<and> hi \<le> length xs then Some (take (hi - lo) (drop lo xs)) else None)"

definition slice :: "nat \<Rightarrow> nat \<Rightarrow> 'a list \<Rightarrow> ('e, 'a list) res" where
  "slice lo hi xs =
     (if lo \<le> hi \<and> hi \<le> length xs then Ok (take (hi - lo) (drop lo xs)) else Panic)"

definition index :: "'a list \<Rightarrow> nat \<Rightarrow> ('e, 'a) res" where
  "index xs i = (if i < length xs then Ok (xs ! i) else Panic)"

text \<open>\<open>copy_from_slice\<close> into a sub-range: it panics when the lengths differ.\<close>

definition overwrite :: "nat \<Rightarrow> 'a list \<Rightarrow> 'a list \<Rightarrow> 'a list" where
  "overwrite lo ys xs = take lo xs @ ys @ drop (lo + length ys) xs"

lemma slice_eq_Ok [simp]:
  "slice lo hi xs = Ok ys \<longleftrightarrow>
     lo \<le> hi \<and> hi \<le> length xs \<and> ys = take (hi - lo) (drop lo xs)"
  by (auto simp: slice_def)

lemma slice_get_eq_Some [simp]:
  "slice_get lo hi xs = Some ys \<longleftrightarrow>
     lo \<le> hi \<and> hi \<le> length xs \<and> ys = take (hi - lo) (drop lo xs)"
  by (auto simp: slice_get_def)

lemma index_eq_Ok [simp]: "index xs i = Ok x \<longleftrightarrow> i < length xs \<and> x = xs ! i"
  by (auto simp: index_def)

lemma safe_slice [safe_intros]: "lo \<le> hi \<Longrightarrow> hi \<le> length xs \<Longrightarrow> safe (slice lo hi xs)"
  by (simp add: slice_def)

lemma safe_index [safe_intros]: "i < length xs \<Longrightarrow> safe (index xs i)"
  by (simp add: index_def)

lemma length_overwrite [simp]:
  "lo + length ys \<le> length xs \<Longrightarrow> length (overwrite lo ys xs) = length xs"
  by (simp add: overwrite_def)

lemma overwrite_same: "lo + length ys \<le> length xs \<Longrightarrow>
    take (length ys) (drop lo (overwrite lo ys xs)) = ys"
  by (simp add: overwrite_def)

lemma nth_overwrite:
  "lo + length ys \<le> length xs \<Longrightarrow> i < length xs \<Longrightarrow>
     overwrite lo ys xs ! i = (if lo \<le> i \<and> i < lo + length ys then ys ! (i - lo) else xs ! i)"
  by (auto simp: overwrite_def nth_append)

lemma overwrite_disjoint:
  assumes "lo + length ys \<le> length xs"
    and "a + n \<le> lo \<or> lo + length ys \<le> a" and "a + n \<le> length xs"
  shows "take n (drop a (overwrite lo ys xs)) = take n (drop a xs)"
  by (rule nth_equalityI) (use assms in \<open>auto simp: nth_overwrite\<close>)

lemma overwrite_inside:
  "a + lo + length ys \<le> length xs \<Longrightarrow> a + n \<le> length xs \<Longrightarrow> lo + length ys \<le> n \<Longrightarrow>
     take n (drop a (overwrite (a + lo) ys xs)) = overwrite lo ys (take n (drop a xs))"
  by (rule nth_equalityI) (auto simp: nth_overwrite)

section \<open>Little and big endian\<close>

fun le_bytes :: "nat \<Rightarrow> 'w::len word \<Rightarrow> bytes" where
  "le_bytes 0 w = []"
| "le_bytes (Suc n) w = ucast w # le_bytes n (drop_bit 8 w)"

fun from_le :: "bytes \<Rightarrow> 'w::len word" where
  "from_le [] = 0"
| "from_le (b # bs) = ucast b OR push_bit 8 (from_le bs)"

definition from_be :: "bytes \<Rightarrow> 'w::len word" where
  "from_be bs = from_le (rev bs)"

lemma length_le_bytes [simp]: "length (le_bytes n w) = n"
  by (induction n arbitrary: w) auto

lemma bit_from_le:
  "bit (from_le bs :: 'w::len word) i \<longleftrightarrow>
     i < LENGTH('w) \<and> i div 8 < length bs \<and> bit (bs ! (i div 8)) (i mod 8)"
proof (induction bs arbitrary: i)
  case Nil
  then show ?case by simp
next
  case (Cons b bs)
  show ?case
  proof (cases "i < 8")
    case True
    then show ?thesis
      by (auto simp: bit_simps bit_imp_le_length)
  next
    case False
    then obtain j where j: "i = 8 + j"
      by (metis le_Suc_ex not_less)
    have "\<not> bit b (8 + j)"
      using bit_imp_le_length [of b "8 + j"] by auto
    moreover have "(8 + j) div 8 = Suc (j div 8)" "(8 + j) mod 8 = j mod 8"
      by auto
    ultimately show ?thesis
      using Cons.IH [of j] by (auto simp: j bit_simps dest: bit_imp_le_length)
  qed
qed

lemma nth_le_bytes: "i < n \<Longrightarrow> le_bytes n w ! i = ucast (drop_bit (8 * i) w)"
proof (induction n arbitrary: w i)
  case 0
  then show ?case by simp
next
  case (Suc n)
  then show ?case
    by (cases i) (auto simp: ac_simps)
qed

lemma from_le_le_bytes:
  assumes "LENGTH('w) \<le> 8 * n"
  shows "from_le (le_bytes n w) = (w :: 'w::len word)"
proof (rule bit_word_eqI)
  fix i assume i: "i < LENGTH('w)"
  then have "i div 8 < n"
    using assms by auto
  then show "bit (from_le (le_bytes n w) :: 'w word) i = bit w i"
    using i by (simp add: bit_from_le nth_le_bytes bit_simps)
qed

lemma le_bytes_from_le:
  assumes "8 * length bs \<le> LENGTH('w)"
  shows "le_bytes (length bs) (from_le bs :: 'w::len word) = bs"
proof (rule nth_equalityI)
  fix i assume "i < length (le_bytes (length bs) (from_le bs :: 'w word))"
  then have i: "i < length bs" by simp
  have "bit (ucast (drop_bit (8 * i) (from_le bs :: 'w word)) :: u8) j = bit (bs ! i) j"
    if "j < 8" for j
  proof -
    have "8 * i + j < LENGTH('w)"
      using i that assms by linarith
    moreover have "(8 * i + j) div 8 = i" "(8 * i + j) mod 8 = j"
      using that by auto
    ultimately show ?thesis
      using i that by (simp add: bit_simps bit_from_le)
  qed
  then show "le_bytes (length bs) (from_le bs :: 'w word) ! i = bs ! i"
    using i by (auto simp: nth_le_bytes intro: bit_word_eqI)
qed simp

section \<open>UTF-8\<close>

definition cont_byte :: "u8 \<Rightarrow> bool" where
  "cont_byte b \<longleftrightarrow> 0x80 \<le> b \<and> b \<le> 0xbf"

text \<open>The byte sequences that \<open>from_utf8\<close> accepts: the shortest form of every scalar value, no
  surrogates, nothing above U+10FFFF.\<close>

fun utf8_valid :: "bytes \<Rightarrow> bool" where
  "utf8_valid [] = True"
| "utf8_valid (a # bs) =
     (if a < 0x80 then utf8_valid bs
      else case bs of
        [] \<Rightarrow> False
      | b # bs' \<Rightarrow>
          if 0xc2 \<le> a \<and> a \<le> 0xdf then cont_byte b \<and> utf8_valid bs'
          else case bs' of
            [] \<Rightarrow> False
          | c # bs'' \<Rightarrow>
              if 0xe0 \<le> a \<and> a \<le> 0xef then
                (if a = 0xe0 then 0xa0 \<le> b \<and> b \<le> 0xbf else if a = 0xed then 0x80 \<le> b \<and> b \<le> 0x9f
                 else cont_byte b) \<and> cont_byte c \<and> utf8_valid bs''
              else case bs'' of
                [] \<Rightarrow> False
              | d # bs3 \<Rightarrow>
                  if 0xf0 \<le> a \<and> a \<le> 0xf4 then
                    (if a = 0xf0 then 0x90 \<le> b \<and> b \<le> 0xbf else if a = 0xf4 then 0x80 \<le> b \<and> b \<le> 0x8f
                     else cont_byte b) \<and> cont_byte c \<and> cont_byte d \<and> utf8_valid bs3
                  else False)"

section \<open>Packet formats\<close>

text \<open>
  A packet format: an encoder, which may refuse a value, and a decoder for arbitrary bytes, with
  the values \<open>wf\<close> that the decoder can produce. The two laws make the encoding canonical, so
  that equal packets are equal values and the other way round.
\<close>

locale wire_codec =
  fixes enc :: "'m \<Rightarrow> ('e, bytes) res"
    and dec :: "bytes \<Rightarrow> ('e, 'm) res"
    and wf :: "'m \<Rightarrow> bool"
  assumes dec_enc: "wf m \<Longrightarrow> enc m = Ok bs \<Longrightarrow> dec bs = Ok m"
    and enc_dec: "dec bs = Ok m \<Longrightarrow> wf m \<and> enc m = Ok bs"
begin

lemma dec_iff: "dec bs = Ok m \<longleftrightarrow> wf m \<and> enc m = Ok bs"
  using dec_enc enc_dec by blast

lemma enc_inj: "wf m \<Longrightarrow> wf m' \<Longrightarrow> enc m = Ok bs \<Longrightarrow> enc m' = Ok bs \<Longrightarrow> m = m'"
  using dec_enc [of m bs] dec_enc [of m' bs] by simp

lemma dec_inj: "dec bs = Ok m \<Longrightarrow> dec bs' = Ok m \<Longrightarrow> bs = bs'"
  using enc_dec [of bs m] enc_dec [of bs' m] by simp

end

end
