(* ===== verification/Hardware_Api.thy ===== *)
theory Hardware_Api
  imports Drv_Prelude
begin

text \<open>
  The capability-shaped hardware interface of \<open>crates/platform/hardware-api/src/lib.rs\<close>.

  A \<open>Backend\<close> implementation is a record of its operations over a state \<open>'s\<close>, and the generic
  code takes that record as an argument, the way a trait's methods are passed. The handles a
  driver holds (\<open>MmioRegion\<close>, \<open>DmaBuffer\<close>, \<open>Interrupt\<close>) are records; the reference-counted
  backend they share is named by a number, so that \<open>Rc::ptr_eq\<close> is equality. An operation of a
  DMA handle changes the handle (its CPU shadow) and the backend, so its state is the pair.

  The locale \<open>hw_backend\<close> states what the generic code relies on. The lemmas inside it are the
  guarantees of the interface for every backend that keeps the contract.
\<close>

section \<open>Data\<close>

datatype hw_error =
  Invalid | OutOfBounds | StaleHandle | Limit | DeviceFault | Timeout | Unsupported

datatype dma_direction = ToDevice | FromDevice | Bidirectional

type_synonym range = "nat \<times> nat"

record dma_constraints =
  dc_alignment :: nat
  dc_max_device_address :: u64
  dc_max_segment_size :: nat
  dc_max_segments :: nat

definition dma_constraints_new :: "nat \<Rightarrow> dma_constraints" where
  "dma_constraints_new alignment =
     \<lparr>dc_alignment = alignment, dc_max_device_address = 0xffffffffffffffff,
      dc_max_segment_size = USIZE_MAX, dc_max_segments = USIZE_MAX\<rparr>"

record irq_event =
  irq_vector :: u32
  irq_count :: u64
  irq_at_ns :: u64

section \<open>The backend trait\<close>

record ('s, 'r, 'd, 'i) backend =
  be_generation :: "'s \<Rightarrow> u64"
  be_is_cache_coherent :: "'s \<Rightarrow> bool"
  be_open_region :: "u8 \<Rightarrow> ('s, hw_error, 'r) op"
  be_region_len :: "'s \<Rightarrow> 'r \<Rightarrow> nat"
  be_read_u32 :: "'r \<Rightarrow> nat \<Rightarrow> ('s, hw_error, u32) op"
  be_write_u32 :: "'r \<Rightarrow> nat \<Rightarrow> u32 \<Rightarrow> ('s, hw_error, unit) op"
  be_write_dma_address :: "'r \<Rightarrow> nat \<Rightarrow> nat option \<Rightarrow> 'd \<Rightarrow> nat \<Rightarrow> ('s, hw_error, unit) op"
  be_dma_device_address :: "'s \<Rightarrow> 'd \<Rightarrow> nat \<Rightarrow> (hw_error, u64) res"
  be_alloc_dma :: "nat \<Rightarrow> nat \<Rightarrow> dma_direction \<Rightarrow> bool \<Rightarrow> ('s, hw_error, 'd) op"
  be_alloc_dma_constrained ::
    "nat \<Rightarrow> dma_constraints \<Rightarrow> dma_direction \<Rightarrow> bool \<Rightarrow> ('s, hw_error, 'd) op"
  be_dma_read :: "'d \<Rightarrow> range \<Rightarrow> ('s, hw_error, bytes) op"
  be_dma_write :: "'d \<Rightarrow> range \<Rightarrow> bytes \<Rightarrow> ('s, hw_error, unit) op"
  be_streaming_cpu_dirty :: "'d \<Rightarrow> range \<Rightarrow> ('s, hw_error, unit) op"
  be_streaming_cpu_read :: "'d \<Rightarrow> range \<Rightarrow> ('s, hw_error, unit) op"
  be_dma_read_once_u32 :: "'d \<Rightarrow> nat \<Rightarrow> ('s, hw_error, u32) op"
  be_dma_write_once_u32 :: "'d \<Rightarrow> nat \<Rightarrow> u32 \<Rightarrow> ('s, hw_error, unit) op"
  be_sync_for_cpu :: "'d \<Rightarrow> range \<Rightarrow> ('s, hw_error, unit) op"
  be_sync_for_device :: "'d \<Rightarrow> range \<Rightarrow> ('s, hw_error, unit) op"
  be_open_interrupt :: "u32 \<Rightarrow> ('s, hw_error, 'i) op"
  be_wait_interrupt :: "'i \<Rightarrow> u64 \<Rightarrow> ('s, hw_error, irq_event option) op"
  be_wait_any :: "'i list \<Rightarrow> u64 \<Rightarrow> ('s, hw_error, irq_event list) op"
  be_disable_interrupt :: "'i \<Rightarrow> ('s, hw_error, unit) op"
  be_disable_interrupt_vector :: "u32 \<Rightarrow> ('s, hw_error, unit) op"
  be_reset :: "('s, hw_error, u64) op"
  be_release_region :: "'r \<Rightarrow> 's \<Rightarrow> 's"
  be_release_dma :: "'d \<Rightarrow> 's \<Rightarrow> 's"
  be_release_interrupt :: "'i \<Rightarrow> 's \<Rightarrow> 's"

text \<open>The trait's provided method \<open>alloc_dma_constrained\<close>, over the required \<open>alloc_dma\<close>.\<close>

definition default_alloc_dma_constrained ::
  "(nat \<Rightarrow> nat \<Rightarrow> dma_direction \<Rightarrow> bool \<Rightarrow> ('s, hw_error, 'd) op) \<Rightarrow>
     nat \<Rightarrow> dma_constraints \<Rightarrow> dma_direction \<Rightarrow> bool \<Rightarrow> ('s, hw_error, 'd) op" where
  "default_alloc_dma_constrained alloc sz constraints direction coherent s =
     (if dc_max_device_address constraints \<noteq> 0xffffffffffffffff
         \<or> dc_max_segments constraints = 0
         \<or> dc_max_segment_size constraints < sz
      then (Err Limit, s)
      else alloc sz (dc_alignment constraints) direction coherent s)"

section \<open>Bounds and generations\<close>

definition checked_range :: "nat \<Rightarrow> nat \<Rightarrow> nat \<Rightarrow> (hw_error, range) res" where
  "checked_range offset len extent =
     (case checked_add offset len of
        Some e \<Rightarrow> if e \<le> extent then Ok (offset, e) else Err OutOfBounds
      | None \<Rightarrow> Err OutOfBounds)"

definition current :: "('s, 'r, 'd, 'i) backend \<Rightarrow> 's \<Rightarrow> u64 \<Rightarrow> (hw_error, unit) res" where
  "current B s generation = (if be_generation B s = generation then Ok () else Err StaleHandle)"

lemma checked_range_eq_Ok [simp]:
  "checked_range off n extent = Ok r \<longleftrightarrow>
     off + n \<le> extent \<and> off + n \<le> USIZE_MAX \<and> r = (off, off + n)"
  by (auto simp: checked_range_def checked_add_def split: option.splits if_splits)

lemma checked_range_cases:
  "checked_range off n extent = Err OutOfBounds \<or> checked_range off n extent = Ok (off, off + n)"
  by (auto simp: checked_range_def checked_add_def split: option.splits)

lemma current_eq_Ok [simp]: "current B s g = Ok u \<longleftrightarrow> be_generation B s = g"
  by (auto simp: current_def)

lemma safe_checks [simp, safe_intros]: "safe (checked_range off n extent)" "safe (current B s g)"
  by (auto simp: checked_range_def current_def split: option.splits)

section \<open>Register windows\<close>

record 'r mmio_region =
  mr_shared :: nat
  mr_token :: 'r
  mr_generation :: u64
  mr_offset :: nat
  mr_len :: nat
  mr_mapper :: "(nat \<Rightarrow> nat option) option"

record device =
  dev_shared :: nat

definition open_region ::
  "('s, 'r, 'd, 'i) backend \<Rightarrow> device \<Rightarrow> u8 \<Rightarrow> ('s, hw_error, 'r mmio_region) op" where
  "open_region B dev i s =
     st_then (be_open_region B i)
       (\<lambda>token s'. (Ok \<lparr>mr_shared = dev_shared dev, mr_token = token,
                        mr_generation = be_generation B s, mr_offset = 0,
                        mr_len = be_region_len B s' token, mr_mapper = None\<rparr>, s')) s"

definition open_region_sized ::
  "('s, 'r, 'd, 'i) backend \<Rightarrow> device \<Rightarrow> u8 \<Rightarrow> nat \<Rightarrow> ('s, hw_error, 'r mmio_region) op" where
  "open_region_sized B dev i expected s =
     (if expected = 0 then (Err Invalid, s)
      else st_then (open_region B dev i)
             (\<lambda>region s'. if mr_len region \<noteq> expected
                then (Err OutOfBounds, be_release_region B (mr_token region) s')
                else (Ok region, s')) s)"

definition mmio_slice ::
  "('s, 'r, 'd, 'i) backend \<Rightarrow> 'r mmio_region \<Rightarrow> nat \<Rightarrow> nat \<Rightarrow> 's \<Rightarrow> (hw_error, 'r mmio_region) res"
where
  "mmio_slice B m off n s =
     (if mr_mapper m \<noteq> None then Err Invalid
      else and_then (checked_range off n (mr_len m)) (\<lambda>(start, stop).
           and_then (current B s (mr_generation m)) (\<lambda>_.
           and_then (ok_or (checked_add (mr_offset m) start) OutOfBounds) (\<lambda>base.
             Ok (m\<lparr>mr_offset := base, mr_len := stop - start, mr_mapper := None\<rparr>)))))"

definition map_offsets ::
  "'r mmio_region \<Rightarrow> (nat \<Rightarrow> nat option) \<Rightarrow> (hw_error, 'r mmio_region) res" where
  "map_offsets m mapper =
     (if mr_mapper m \<noteq> None then Err Invalid else Ok (m\<lparr>mr_mapper := Some mapper\<rparr>))"

definition mapped_offset ::
  "('s, 'r, 'd, 'i) backend \<Rightarrow> 'r mmio_region \<Rightarrow> nat \<Rightarrow> nat \<Rightarrow> 's \<Rightarrow> (hw_error, nat) res" where
  "mapped_offset B m off width s =
     and_then (current B s (mr_generation m)) (\<lambda>_.
       if off mod 4 \<noteq> 0 then Err Invalid
       else and_then (case mr_mapper m of Some mapper \<Rightarrow> ok_or (mapper off) OutOfBounds
                                        | None \<Rightarrow> Ok off) (\<lambda>mapped.
         if mapped mod 4 \<noteq> 0 then Err Invalid
         else and_then (checked_range mapped width (mr_len m)) (\<lambda>_. Ok mapped)))"

definition read_u32 ::
  "('s, 'r, 'd, 'i) backend \<Rightarrow> 'r mmio_region \<Rightarrow> nat \<Rightarrow> ('s, hw_error, u32) op" where
  "read_u32 B m off s =
     st_then (st_reads (mapped_offset B m off 4))
       (\<lambda>mapped. be_read_u32 B (mr_token m) (mr_offset m + mapped)) s"

definition write_u32 ::
  "('s, 'r, 'd, 'i) backend \<Rightarrow> 'r mmio_region \<Rightarrow> nat \<Rightarrow> u32 \<Rightarrow> ('s, hw_error, unit) op" where
  "write_u32 B m off v s =
     st_then (st_reads (mapped_offset B m off 4))
       (\<lambda>mapped. be_write_u32 B (mr_token m) (mr_offset m + mapped) v) s"

definition drop_region :: "('s, 'r, 'd, 'i) backend \<Rightarrow> 'r mmio_region \<Rightarrow> 's \<Rightarrow> 's" where
  "drop_region B m s = be_release_region B (mr_token m) s"

section \<open>DMA buffers\<close>

record 'd dma_buffer =
  db_shared :: nat
  db_token :: 'd
  db_generation :: u64
  db_offset :: nat
  db_alignment :: nat
  db_bytes :: bytes

record 'd device_address =
  da_dma :: "'d dma_buffer"
  da_offset :: nat
  da_bits :: u64

fun is_power_of_two :: "nat \<Rightarrow> bool" where
  "is_power_of_two n =
     (if n = 0 then False else if n = 1 then True else even n \<and> is_power_of_two (n div 2))"

declare is_power_of_two.simps [simp del]

definition release_on_error ::
  "('s, 'r, 'd, 'i) backend \<Rightarrow> 'd \<Rightarrow> ('s, hw_error, 'a) op \<Rightarrow> ('s, hw_error, 'a) op" where
  "release_on_error B token m s =
     (case m s of (Err e, s') \<Rightarrow> (Err e, be_release_dma B token s') | (r, s') \<Rightarrow> (r, s'))"

definition dma_allocate ::
  "('s, 'r, 'd, 'i) backend \<Rightarrow> device \<Rightarrow> nat \<Rightarrow> dma_constraints \<Rightarrow> dma_direction \<Rightarrow> bool \<Rightarrow>
     ('s, hw_error, 'd dma_buffer) op" where
  "dma_allocate B dev sz constraints direction coherent s =
     (if sz = 0 \<or> dc_alignment constraints = 0 \<or> \<not> is_power_of_two (dc_alignment constraints)
      then (Err Invalid, s)
      else st_then (be_alloc_dma_constrained B sz constraints direction coherent) (\<lambda>token.
           st_then (release_on_error B token
             (be_dma_write B token (0, sz) (replicate sz 0))) (\<lambda>_.
           st_then (release_on_error B token
             (\<lambda>s. if \<not> coherent \<and> \<not> be_is_cache_coherent B s
                  then be_sync_for_device B token (0, sz) s else (Ok (), s))) (\<lambda>_.
             st_return (Ok \<lparr>db_shared = dev_shared dev, db_token = token,
               db_generation = be_generation B s, db_offset = 0,
               db_alignment = dc_alignment constraints, db_bytes = replicate sz 0\<rparr>)))) s)"

definition alloc_coherent_with_constraints ::
  "('s, 'r, 'd, 'i) backend \<Rightarrow> device \<Rightarrow> dma_direction \<Rightarrow> nat \<Rightarrow> dma_constraints \<Rightarrow>
     ('s, hw_error, 'd dma_buffer) op" where
  "alloc_coherent_with_constraints B dev direction sz constraints =
     dma_allocate B dev sz constraints direction True"

definition alloc_coherent ::
  "('s, 'r, 'd, 'i) backend \<Rightarrow> device \<Rightarrow> dma_direction \<Rightarrow> nat \<Rightarrow> nat \<Rightarrow>
     ('s, hw_error, 'd dma_buffer) op" where
  "alloc_coherent B dev direction sz align =
     alloc_coherent_with_constraints B dev direction sz (dma_constraints_new align)"

definition alloc_streaming_with_constraints ::
  "('s, 'r, 'd, 'i) backend \<Rightarrow> device \<Rightarrow> dma_direction \<Rightarrow> nat \<Rightarrow> dma_constraints \<Rightarrow>
     ('s, hw_error, 'd dma_buffer) op" where
  "alloc_streaming_with_constraints B dev direction sz constraints =
     dma_allocate B dev sz constraints direction False"

definition alloc_streaming ::
  "('s, 'r, 'd, 'i) backend \<Rightarrow> device \<Rightarrow> dma_direction \<Rightarrow> nat \<Rightarrow> nat \<Rightarrow>
     ('s, hw_error, 'd dma_buffer) op" where
  "alloc_streaming B dev direction sz align =
     alloc_streaming_with_constraints B dev direction sz (dma_constraints_new align)"

definition dma_range ::
  "('s, 'r, 'd, 'i) backend \<Rightarrow> 'd dma_buffer \<Rightarrow> nat \<Rightarrow> nat \<Rightarrow> 's \<Rightarrow> (hw_error, range) res" where
  "dma_range B d off n s =
     and_then (current B s (db_generation d)) (\<lambda>_. checked_range off n (length (db_bytes d)))"

definition backend_range :: "'d dma_buffer \<Rightarrow> range \<Rightarrow> range" where
  "backend_range d r = (db_offset d + fst r, db_offset d + snd r)"

definition split_at ::
  "('s, 'r, 'd, 'i) backend \<Rightarrow> 'd dma_buffer \<Rightarrow> nat \<Rightarrow> 's \<Rightarrow>
     (hw_error, 'd dma_buffer \<times> 'd dma_buffer) res" where
  "split_at B d off s =
     and_then (current B s (db_generation d)) (\<lambda>_.
       if off = 0 \<or> off \<ge> length (db_bytes d) \<or> off mod db_alignment d \<noteq> 0 then Err Invalid
       else Ok (d\<lparr>db_bytes := take off (db_bytes d)\<rparr>,
                d\<lparr>db_offset := db_offset d + off, db_bytes := drop off (db_bytes d)\<rparr>))"

definition device_address_at ::
  "('s, 'r, 'd, 'i) backend \<Rightarrow> 'd dma_buffer \<Rightarrow> nat \<Rightarrow> 's \<Rightarrow> (hw_error, 'd device_address) res"
where
  "device_address_at B d off s =
     (if off \<ge> length (db_bytes d) then Err OutOfBounds
      else and_then (be_dma_device_address B s (db_token d) (db_offset d + off)) (\<lambda>bits.
        Ok \<lparr>da_dma = d, da_offset = db_offset d + off, da_bits = bits\<rparr>))"

definition lo32 :: "'d device_address \<Rightarrow> u32" where
  "lo32 address = ucast (da_bits address)"

definition hi32 :: "'d device_address \<Rightarrow> u32" where
  "hi32 address = ucast (drop_bit 32 (da_bits address))"

definition write_device_address ::
  "('s, 'r, 'd, 'i) backend \<Rightarrow> 'r mmio_region \<Rightarrow> nat \<Rightarrow> nat option \<Rightarrow> 'd device_address \<Rightarrow>
     ('s, hw_error, unit) op" where
  "write_device_address B m low high address s =
     st_then (st_reads (mapped_offset B m low 4)) (\<lambda>low'.
     st_then (st_reads (\<lambda>s. case high of None \<Rightarrow> Ok None
                    | Some h \<Rightarrow> and_then (mapped_offset B m h 4 s) (\<lambda>h'. Ok (Some h')))) (\<lambda>high'.
     if mr_shared m \<noteq> db_shared (da_dma address) then st_return (Err Invalid)
     else st_then (st_reads (\<lambda>s. current B s (db_generation (da_dma address)))) (\<lambda>_.
       be_write_dma_address B (mr_token m) (mr_offset m + low')
         (map_option (\<lambda>h. mr_offset m + h) high')
         (db_token (da_dma address)) (da_offset address)))) s"

definition drop_dma :: "('s, 'r, 'd, 'i) backend \<Rightarrow> 'd dma_buffer \<Rightarrow> 's \<Rightarrow> 's" where
  "drop_dma B d s = be_release_dma B (db_token d) s"

section \<open>Transfers through a DMA buffer\<close>

definition buf_range ::
  "('s, 'r, 'd, 'i) backend \<Rightarrow> nat \<Rightarrow> nat \<Rightarrow> ('d dma_buffer \<times> 's, hw_error, range) op" where
  "buf_range B off n ds = (dma_range B (fst ds) off n (snd ds), ds)"

definition pod_range ::
  "('s, 'r, 'd, 'i) backend \<Rightarrow> nat \<Rightarrow> nat \<Rightarrow> nat \<Rightarrow> ('d dma_buffer \<times> 's, hw_error, range) op"
where
  "pod_range B sz al off ds =
     (if sz = 0 \<or> (db_offset (fst ds) + off) mod al \<noteq> 0 then (Err Invalid, ds)
      else buf_range B off sz ds)"

text \<open>Update of the CPU shadow, and a call of the backend with the buffer unchanged.\<close>

definition shadow_put :: "nat \<Rightarrow> bytes \<Rightarrow> ('d dma_buffer \<times> 's, hw_error, unit) op" where
  "shadow_put lo bs ds =
     (Ok (), ((fst ds)\<lparr>db_bytes := overwrite lo bs (db_bytes (fst ds))\<rparr>, snd ds))"

definition on_backend ::
  "('d dma_buffer \<Rightarrow> ('s, hw_error, 'a) op) \<Rightarrow> ('d dma_buffer \<times> 's, hw_error, 'a) op" where
  "on_backend m ds = (let (r, s') = m (fst ds) (snd ds) in (r, (fst ds, s')))"

definition when_noncoherent ::
  "('s, 'r, 'd, 'i) backend \<Rightarrow> ('d dma_buffer \<Rightarrow> ('s, hw_error, unit) op) \<Rightarrow>
     ('d dma_buffer \<times> 's, hw_error, unit) op" where
  "when_noncoherent B m ds =
     (if be_is_cache_coherent B (snd ds) then (Ok (), ds) else on_backend m ds)"

definition coherent_write ::
  "('s, 'r, 'd, 'i) backend \<Rightarrow> nat \<Rightarrow> bytes \<Rightarrow> ('d dma_buffer \<times> 's, hw_error, unit) op" where
  "coherent_write B off bs =
     st_then (buf_range B off (length bs)) (\<lambda>r.
     st_then (shadow_put (fst r) bs) (\<lambda>_.
       on_backend (\<lambda>d. be_dma_write B (db_token d) (backend_range d r) bs)))"

definition coherent_read ::
  "('s, 'r, 'd, 'i) backend \<Rightarrow> nat \<Rightarrow> nat \<Rightarrow> ('d dma_buffer \<times> 's, hw_error, bytes) op" where
  "coherent_read B off n =
     st_then (buf_range B off n) (\<lambda>r.
     st_then (on_backend (\<lambda>d. be_dma_read B (db_token d) (backend_range d r))) (\<lambda>out.
     st_then (shadow_put (fst r) out) (\<lambda>_. st_return (Ok out))))"

definition coherent_write_pod ::
  "('s, 'r, 'd, 'i) backend \<Rightarrow> nat \<Rightarrow> nat \<Rightarrow> bytes \<Rightarrow> ('d dma_buffer \<times> 's, hw_error, unit) op"
where
  "coherent_write_pod B al off value =
     st_then (pod_range B (length value) al off) (\<lambda>r.
     st_then (shadow_put (fst r) value) (\<lambda>_.
       on_backend (\<lambda>d. be_dma_write B (db_token d) (backend_range d r) value)))"

definition coherent_read_pod ::
  "('s, 'r, 'd, 'i) backend \<Rightarrow> nat \<Rightarrow> nat \<Rightarrow> nat \<Rightarrow> ('d dma_buffer \<times> 's, hw_error, bytes) op"
where
  "coherent_read_pod B sz al off =
     st_then (pod_range B sz al off) (\<lambda>r.
     st_then (on_backend (\<lambda>d. be_dma_read B (db_token d) (backend_range d r))) (\<lambda>out.
     st_then (shadow_put (fst r) out) (\<lambda>_. st_return (Ok out))))"

text \<open>A \<open>u32\<close> accessed in one non-tearing access; hosts are little-endian.\<close>

definition coherent_read_once ::
  "('s, 'r, 'd, 'i) backend \<Rightarrow> nat \<Rightarrow> ('d dma_buffer \<times> 's, hw_error, u32) op" where
  "coherent_read_once B off =
     st_then (pod_range B 4 4 off) (\<lambda>r.
     st_then (on_backend (\<lambda>d. be_dma_read_once_u32 B (db_token d) (fst (backend_range d r)))) (\<lambda>v.
     st_then (shadow_put (fst r) (le_bytes 4 v)) (\<lambda>_. st_return (Ok v))))"

definition coherent_write_once ::
  "('s, 'r, 'd, 'i) backend \<Rightarrow> nat \<Rightarrow> u32 \<Rightarrow> ('d dma_buffer \<times> 's, hw_error, unit) op" where
  "coherent_write_once B off v =
     st_then (pod_range B 4 4 off) (\<lambda>r.
     st_then (on_backend (\<lambda>d. be_dma_write_once_u32 B (db_token d) (fst (backend_range d r)) v)) (\<lambda>_.
       shadow_put (fst r) (le_bytes 4 v)))"

definition streaming_write ::
  "('s, 'r, 'd, 'i) backend \<Rightarrow> nat \<Rightarrow> bytes \<Rightarrow> ('d dma_buffer \<times> 's, hw_error, unit) op" where
  "streaming_write B off bs =
     st_then (buf_range B off (length bs)) (\<lambda>r.
     st_then (shadow_put (fst r) bs) (\<lambda>_.
       on_backend (\<lambda>d. be_streaming_cpu_dirty B (db_token d) (backend_range d r))))"

definition streaming_write_pod ::
  "('s, 'r, 'd, 'i) backend \<Rightarrow> nat \<Rightarrow> nat \<Rightarrow> bytes \<Rightarrow> ('d dma_buffer \<times> 's, hw_error, unit) op"
where
  "streaming_write_pod B al off value =
     st_then (pod_range B (length value) al off) (\<lambda>r.
     st_then (shadow_put (fst r) value) (\<lambda>_.
       on_backend (\<lambda>d. be_streaming_cpu_dirty B (db_token d) (backend_range d r))))"

definition streaming_write_once ::
  "('s, 'r, 'd, 'i) backend \<Rightarrow> nat \<Rightarrow> u32 \<Rightarrow> ('d dma_buffer \<times> 's, hw_error, unit) op" where
  "streaming_write_once B off v =
     st_then (pod_range B 4 4 off) (\<lambda>r.
     st_then (on_backend (\<lambda>d. be_dma_write_once_u32 B (db_token d) (fst (backend_range d r)) v)) (\<lambda>_.
     st_then (when_noncoherent B (\<lambda>d. be_sync_for_device B (db_token d) (backend_range d r))) (\<lambda>_.
       shadow_put (fst r) (le_bytes 4 v))))"

definition streaming_sync_for_device ::
  "('s, 'r, 'd, 'i) backend \<Rightarrow> nat \<Rightarrow> nat \<Rightarrow> ('d dma_buffer \<times> 's, hw_error, unit) op" where
  "streaming_sync_for_device B off n =
     st_then (buf_range B off n) (\<lambda>r.
     st_then (on_backend (\<lambda>d. be_dma_write B (db_token d) (backend_range d r)
                                 (take n (drop off (db_bytes d))))) (\<lambda>_.
       when_noncoherent B (\<lambda>d. be_sync_for_device B (db_token d) (backend_range d r))))"

definition streaming_acquire_for_cpu ::
  "('s, 'r, 'd, 'i) backend \<Rightarrow> nat \<Rightarrow> nat \<Rightarrow> ('d dma_buffer \<times> 's, hw_error, unit) op" where
  "streaming_acquire_for_cpu B off n =
     st_then (buf_range B off n) (\<lambda>r.
       when_noncoherent B (\<lambda>d. be_sync_for_cpu B (db_token d) (backend_range d r)))"

definition streaming_refresh_for_cpu ::
  "('s, 'r, 'd, 'i) backend \<Rightarrow> nat \<Rightarrow> nat \<Rightarrow> ('d dma_buffer \<times> 's, hw_error, unit) op" where
  "streaming_refresh_for_cpu B off n =
     st_then (buf_range B off n) (\<lambda>r.
     st_then (on_backend (\<lambda>d. be_dma_read B (db_token d) (backend_range d r))) (\<lambda>out.
       shadow_put (fst r) out))"

definition streaming_sync_for_cpu ::
  "('s, 'r, 'd, 'i) backend \<Rightarrow> nat \<Rightarrow> nat \<Rightarrow> ('d dma_buffer \<times> 's, hw_error, unit) op" where
  "streaming_sync_for_cpu B off n =
     st_then (streaming_acquire_for_cpu B off n) (\<lambda>_. streaming_refresh_for_cpu B off n)"

definition streaming_read ::
  "('s, 'r, 'd, 'i) backend \<Rightarrow> nat \<Rightarrow> nat \<Rightarrow> ('d dma_buffer \<times> 's, hw_error, bytes) op" where
  "streaming_read B off n =
     st_then (buf_range B off n) (\<lambda>r.
     st_then (on_backend (\<lambda>d. be_streaming_cpu_read B (db_token d) (backend_range d r))) (\<lambda>_ ds.
       (Ok (take n (drop off (db_bytes (fst ds)))), ds)))"

definition streaming_read_pod ::
  "('s, 'r, 'd, 'i) backend \<Rightarrow> nat \<Rightarrow> nat \<Rightarrow> nat \<Rightarrow> ('d dma_buffer \<times> 's, hw_error, bytes) op"
where
  "streaming_read_pod B sz al off =
     st_then (pod_range B sz al off) (\<lambda>r.
     st_then (on_backend (\<lambda>d. be_streaming_cpu_read B (db_token d) (backend_range d r))) (\<lambda>_ ds.
       (Ok (take sz (drop off (db_bytes (fst ds)))), ds)))"

definition streaming_read_once ::
  "('s, 'r, 'd, 'i) backend \<Rightarrow> nat \<Rightarrow> ('d dma_buffer \<times> 's, hw_error, u32) op" where
  "streaming_read_once B off =
     st_then (pod_range B 4 4 off) (\<lambda>r.
     st_then (when_noncoherent B (\<lambda>d. be_sync_for_cpu B (db_token d) (backend_range d r))) (\<lambda>_.
     st_then (on_backend (\<lambda>d. be_dma_read_once_u32 B (db_token d) (fst (backend_range d r)))) (\<lambda>v.
     st_then (shadow_put (fst r) (le_bytes 4 v)) (\<lambda>_. st_return (Ok v)))))"

definition streaming_prepare_for_device ::
  "('s, 'r, 'd, 'i) backend \<Rightarrow> nat \<Rightarrow> nat \<Rightarrow> ('d dma_buffer \<times> 's, hw_error, unit) op" where
  "streaming_prepare_for_device B off n =
     st_then (buf_range B off n) (\<lambda>r.
       when_noncoherent B (\<lambda>d. be_sync_for_device B (db_token d) (backend_range d r)))"

section \<open>Interrupts\<close>

record 'i interrupt =
  in_shared :: nat
  in_token :: 'i
  in_generation :: u64

definition open_interrupt ::
  "('s, 'r, 'd, 'i) backend \<Rightarrow> device \<Rightarrow> u32 \<Rightarrow> ('s, hw_error, 'i interrupt) op" where
  "open_interrupt B dev vector s =
     st_then (be_open_interrupt B vector)
       (\<lambda>token s'. (Ok \<lparr>in_shared = dev_shared dev, in_token = token,
                        in_generation = be_generation B s\<rparr>, s')) s"

definition interrupt_disable ::
  "('s, 'r, 'd, 'i) backend \<Rightarrow> 'i interrupt \<Rightarrow> ('s, hw_error, unit) op" where
  "interrupt_disable B i =
     st_then (st_reads (\<lambda>s. current B s (in_generation i))) (\<lambda>_. be_disable_interrupt B (in_token i))"

definition interrupt_wait_until ::
  "('s, 'r, 'd, 'i) backend \<Rightarrow> 'i interrupt \<Rightarrow> u64 \<Rightarrow> ('s, hw_error, irq_event option) op" where
  "interrupt_wait_until B i deadline =
     st_then (st_reads (\<lambda>s. current B s (in_generation i)))
       (\<lambda>_. be_wait_interrupt B (in_token i) deadline)"

fun check_interrupts ::
  "('s, 'r, 'd, 'i) backend \<Rightarrow> nat \<Rightarrow> 'i interrupt list \<Rightarrow> 's \<Rightarrow> (hw_error, unit) res" where
  "check_interrupts B shared [] s = Ok ()"
| "check_interrupts B shared (i # is) s =
     (if in_shared i \<noteq> shared then Err Invalid
      else and_then (current B s (in_generation i)) (\<lambda>_. check_interrupts B shared is s))"

definition interrupt_wait_any ::
  "('s, 'r, 'd, 'i) backend \<Rightarrow> 'i interrupt list \<Rightarrow> u64 \<Rightarrow> ('s, hw_error, irq_event list) op"
where
  "interrupt_wait_any B is deadline =
     (case is of [] \<Rightarrow> st_return (Err Invalid)
      | first # _ \<Rightarrow>
          st_then (st_reads (check_interrupts B (in_shared first) is))
            (\<lambda>_. be_wait_any B (map in_token is) deadline))"

definition drop_interrupt :: "('s, 'r, 'd, 'i) backend \<Rightarrow> 'i interrupt \<Rightarrow> 's \<Rightarrow> 's" where
  "drop_interrupt B i s = be_release_interrupt B (in_token i) s"

definition device_disable_interrupt_vector ::
  "('s, 'r, 'd, 'i) backend \<Rightarrow> u32 \<Rightarrow> ('s, hw_error, unit) op" where
  "device_disable_interrupt_vector B vector = be_disable_interrupt_vector B vector"

definition device_reset :: "('s, 'r, 'd, 'i) backend \<Rightarrow> ('s, hw_error, u64) op" where
  "device_reset B = be_reset B"

section \<open>What the checks establish\<close>

lemma mapped_offset_Ok:
  assumes "mapped_offset B m off w s = Ok a"
  shows "be_generation B s = mr_generation m" and "a mod 4 = 0" and "a + w \<le> mr_len m"
  using assms by (auto simp: mapped_offset_def split: option.splits if_splits)

lemma safe_mapped_offset [simp, safe_intros]: "safe (mapped_offset B m off w s)"
  unfolding mapped_offset_def
  by (intro safe_intros) (auto split: option.splits)

lemma mapped_offset_stale:
  "be_generation B s \<noteq> mr_generation m \<Longrightarrow> mapped_offset B m off w s = Err StaleHandle"
  by (simp add: mapped_offset_def current_def)

lemma mapped_offset_cases:
  obtains (bad) e where "mapped_offset B m off w s = Err e"
  | (good) a where "mapped_offset B m off w s = Ok a" "a mod 4 = 0" "a + w \<le> mr_len m"
proof (cases "mapped_offset B m off w s")
  case (Ok a)
  then show ?thesis
    using mapped_offset_Ok [OF Ok] by (auto intro: good)
next
  case (Err e)
  then show ?thesis by (rule bad)
next
  case Panic
  then show ?thesis
    using safe_mapped_offset [of B m off w s] by simp
qed

text \<open>
  A view is what a driver can make of a region handle: sub-windows, and a translation of
  register offsets.
\<close>

inductive view_of ::
  "('s, 'r, 'd, 'i) backend \<Rightarrow> 'r mmio_region \<Rightarrow> 'r mmio_region \<Rightarrow> bool"
  for B :: "('s, 'r, 'd, 'i) backend" and m :: "'r mmio_region" where
  whole: "view_of B m m"
| slice: "view_of B m v \<Longrightarrow> mmio_slice B v off n s = Ok v' \<Longrightarrow> view_of B m v'"
| mapped: "view_of B m v \<Longrightarrow> map_offsets v f = Ok v' \<Longrightarrow> view_of B m v'"

lemma mmio_slice_Ok:
  assumes "mmio_slice B v off n s = Ok v'"
  shows "mr_token v' = mr_token v" "mr_generation v' = mr_generation v"
    and "mr_shared v' = mr_shared v" "mr_offset v' = mr_offset v + off"
    and "mr_len v' = n" "off + n \<le> mr_len v"
  using assms by (auto simp: mmio_slice_def split: if_splits)

lemma map_offsets_Ok:
  "map_offsets v f = Ok v' \<Longrightarrow> v' = v\<lparr>mr_mapper := Some f\<rparr> \<and> mr_mapper v = None"
  by (auto simp: map_offsets_def split: if_splits)

lemma view_of_window:
  assumes "view_of B m v"
  shows "mr_token v = mr_token m \<and> mr_generation v = mr_generation m
    \<and> mr_shared v = mr_shared m \<and> mr_offset m \<le> mr_offset v
    \<and> mr_offset v + mr_len v \<le> mr_offset m + mr_len m"
  using assms
proof (induction rule: view_of.induct)
  case (slice v off n s v')
  then show ?case
    using mmio_slice_Ok [OF slice.hyps(2)] by simp
next
  case (mapped v f v')
  then show ?case
    using map_offsets_Ok [OF mapped.hyps(2)] by simp
qed simp

definition in_window :: "'r mmio_region \<Rightarrow> nat \<Rightarrow> bool" where
  "in_window m a \<longleftrightarrow> mr_offset m \<le> a \<and> a + 4 \<le> mr_offset m + mr_len m"

lemma view_in_window:
  assumes "view_of B m v" and "a + 4 \<le> mr_len v"
  shows "in_window m (mr_offset v + a)"
  using view_of_window [OF assms(1)] assms(2) by (auto simp: in_window_def)

lemma read_u32_confined:
  assumes "view_of B m v"
  shows "(\<exists>e. read_u32 B v off s = (Err e, s))
    \<or> (\<exists>a. in_window m a \<and> read_u32 B v off s = be_read_u32 B (mr_token m) a s)"
proof (rule mapped_offset_cases [of B v off 4 s])
  fix a assume a: "mapped_offset B v off 4 s = Ok a" "a + 4 \<le> mr_len v"
  have "read_u32 B v off s = be_read_u32 B (mr_token m) (mr_offset v + a) s"
    using a view_of_window [OF assms] by (simp add: read_u32_def)
  then show ?thesis
    using view_in_window [OF assms a(2)] by blast
qed (simp add: read_u32_def)

lemma write_u32_confined:
  assumes "view_of B m v"
  shows "(\<exists>e. write_u32 B v off x s = (Err e, s))
    \<or> (\<exists>a. in_window m a \<and> write_u32 B v off x s = be_write_u32 B (mr_token m) a x s)"
proof (rule mapped_offset_cases [of B v off 4 s])
  fix a assume a: "mapped_offset B v off 4 s = Ok a" "a + 4 \<le> mr_len v"
  have "write_u32 B v off x s = be_write_u32 B (mr_token m) (mr_offset v + a) x s"
    using a view_of_window [OF assms] by (simp add: write_u32_def)
  then show ?thesis
    using view_in_window [OF assms a(2)] by blast
qed (simp add: write_u32_def)

lemma write_device_address_eq:
  assumes "mapped_offset B v low 4 s = Ok a"
    and "(case high of None \<Rightarrow> Ok None
          | Some h \<Rightarrow> and_then (mapped_offset B v h 4 s) (\<lambda>h'. Ok (Some h'))) = Ok hi"
  shows "write_device_address B v low high da s =
    (if mr_shared v \<noteq> db_shared (da_dma da) then (Err Invalid, s)
     else if be_generation B s \<noteq> db_generation (da_dma da) then (Err StaleHandle, s)
     else be_write_dma_address B (mr_token v) (mr_offset v + a)
            (map_option (\<lambda>h. mr_offset v + h) hi) (db_token (da_dma da)) (da_offset da) s)"
  using assms by (simp add: write_device_address_def current_def)

lemma write_device_address_confined:
  assumes "view_of B m v"
  shows "(\<exists>e. write_device_address B v low high da s = (Err e, s))
    \<or> (\<exists>a h. in_window m a \<and> (\<forall>b. h = Some b \<longrightarrow> in_window m b)
         \<and> db_generation (da_dma da) = be_generation B s \<and> db_shared (da_dma da) = mr_shared m
         \<and> write_device_address B v low high da s =
             be_write_dma_address B (mr_token m) a h (db_token (da_dma da)) (da_offset da) s)"
    (is "?refused \<or> ?confined")
proof (rule mapped_offset_cases [of B v low 4 s])
  fix a assume a: "mapped_offset B v low 4 s = Ok a" "a + 4 \<le> mr_len v"
  note w = view_of_window [OF assms]
  have step: "?refused \<or> ?confined"
    if hi: "(case high of None \<Rightarrow> Ok None
          | Some h \<Rightarrow> and_then (mapped_offset B v h 4 s) (\<lambda>h'. Ok (Some h'))) = Ok hi"
      and inside: "\<And>h. hi = Some h \<Longrightarrow> h + 4 \<le> mr_len v" for hi
  proof (cases "mr_shared v = db_shared (da_dma da) \<and> be_generation B s = db_generation (da_dma da)")
    case True
    have "\<forall>b. map_option (\<lambda>h. mr_offset v + h) hi = Some b \<longrightarrow> in_window m b"
      using inside by (auto intro: view_in_window [OF assms])
    then have ?confined
      using True w view_in_window [OF assms a(2)]
      by (intro exI [of _ "mr_offset v + a"] exI [of _ "map_option (\<lambda>h. mr_offset v + h) hi"])
        (simp add: write_device_address_eq [OF a(1) hi])
    then show ?thesis ..
  next
    case False
    then have ?refused
      by (auto simp: write_device_address_eq [OF a(1) hi])
    then show ?thesis ..
  qed
  show ?thesis
  proof (cases high)
    case None
    then show ?thesis by (intro step [of None]) auto
  next
    case (Some h)
    show ?thesis
    proof (rule mapped_offset_cases [of B v h 4 s])
      fix b assume "mapped_offset B v h 4 s = Ok b" "b + 4 \<le> mr_len v"
      then show ?thesis
        using Some by (intro step [of "Some b"]) auto
    qed (use a Some in \<open>simp add: write_device_address_def\<close>)
  qed
qed (simp add: write_device_address_def)

text \<open>A handle of another generation is refused, and the refusal changes nothing.\<close>

lemma buf_range_stale:
  "db_generation (fst ds) \<noteq> be_generation B (snd ds) \<Longrightarrow>
     buf_range B off n ds = (Err StaleHandle, ds)"
  by (auto simp: buf_range_def dma_range_def current_def)

lemma pod_range_stale:
  "db_generation (fst ds) \<noteq> be_generation B (snd ds) \<Longrightarrow>
     \<exists>e. pod_range B sz al off ds = (Err e, ds)"
  by (auto simp: pod_range_def buf_range_stale)

lemmas transfer_defs =
  coherent_write_def coherent_read_def streaming_write_def streaming_sync_for_device_def
  streaming_acquire_for_cpu_def streaming_refresh_for_cpu_def streaming_sync_for_cpu_def
  streaming_read_def streaming_prepare_for_device_def

lemmas pod_transfer_defs =
  coherent_write_pod_def coherent_read_pod_def coherent_read_once_def coherent_write_once_def
  streaming_write_pod_def streaming_write_once_def streaming_read_pod_def streaming_read_once_def

section \<open>What a buffer owns\<close>

text \<open>The device-visible bytes behind a buffer, given the contents of the allocations.\<close>

definition window :: "('d \<Rightarrow> bytes option) \<Rightarrow> 'd dma_buffer \<Rightarrow> bytes option" where
  "window mem d =
     (case mem (db_token d) of
        Some m \<Rightarrow> if db_offset d + length (db_bytes d) \<le> length m
                  then Some (take (length (db_bytes d)) (drop (db_offset d) m)) else None
      | None \<Rightarrow> None)"

definition disjoint_buffers :: "'d dma_buffer \<Rightarrow> 'd dma_buffer \<Rightarrow> bool" where
  "disjoint_buffers d e \<longleftrightarrow>
     db_token d \<noteq> db_token e
     \<or> db_offset d + length (db_bytes d) \<le> db_offset e
     \<or> db_offset e + length (db_bytes e) \<le> db_offset d"

lemma window_eq_Some:
  "window mem d = Some w \<longleftrightarrow>
     (\<exists>m. mem (db_token d) = Some m \<and> db_offset d + length (db_bytes d) \<le> length m
        \<and> w = take (length (db_bytes d)) (drop (db_offset d) m))"
  by (auto simp: window_def split: option.splits)

lemma window_shadow [simp]:
  "length bs = length (db_bytes d) \<Longrightarrow> window mem (d\<lparr>db_bytes := bs\<rparr>) = window mem d"
  by (simp add: window_def split: option.split)

text \<open>What a transfer does once its range is accepted.\<close>

lemma backend_range_shadow [simp]: "backend_range (d\<lparr>db_bytes := bs\<rparr>) r = backend_range d r"
  by (simp add: backend_range_def)

lemma coherent_write_eq:
  "dma_range B b off (length bs) s = Ok rg \<Longrightarrow>
   be_dma_write B (db_token b) (backend_range b rg) bs s = (r, s') \<Longrightarrow>
   coherent_write B off bs (b, s) = (r, (b\<lparr>db_bytes := overwrite (fst rg) bs (db_bytes b)\<rparr>, s'))"
  by (simp add: coherent_write_def buf_range_def shadow_put_def on_backend_def)

lemma coherent_read_eq:
  "dma_range B b off n s = Ok rg \<Longrightarrow>
   be_dma_read B (db_token b) (backend_range b rg) s = (r, s') \<Longrightarrow>
   coherent_read B off n (b, s) = (case r of
      Ok out \<Rightarrow> (Ok out, (b\<lparr>db_bytes := overwrite (fst rg) out (db_bytes b)\<rparr>, s'))
    | Err e \<Rightarrow> (Err e, (b, s')) | Panic \<Rightarrow> (Panic, (b, s')))"
  by (cases r) (simp_all add: coherent_read_def buf_range_def shadow_put_def on_backend_def)

lemma dma_range_Ok:
  "dma_range B b off n s = Ok rg \<Longrightarrow>
     rg = (off, off + n) \<and> off + n \<le> length (db_bytes b) \<and> db_generation b = be_generation B s"
  by (auto simp: dma_range_def)

lemma safe_dma_range [simp, safe_intros]: "safe (dma_range B b off n s)"
  unfolding dma_range_def by (intro safe_intros)

lemma dma_range_not_Panic [simp]: "dma_range B b off n s \<noteq> Panic"
  using safe_dma_range [of B b off n s] by (auto simp: safe_def)

lemma split_at_Ok:
  assumes "split_at B d off s = Ok (l, r)"
  shows "db_token l = db_token d" "db_token r = db_token d"
    and "db_offset l = db_offset d" "db_offset r = db_offset d + off"
    and "db_bytes l @ db_bytes r = db_bytes d" "length (db_bytes l) = off"
    and "0 < off" "off < length (db_bytes d)" "off mod db_alignment d = 0"
    and "db_alignment l = db_alignment d" "db_alignment r = db_alignment d"
    and "db_generation l = db_generation d" "db_generation r = db_generation d"
    and "db_shared l = db_shared d" "db_shared r = db_shared d"
  using assms by (auto simp: split_at_def split: if_splits)

lemma split_at_disjoint: "split_at B d off s = Ok (l, r) \<Longrightarrow> disjoint_buffers l r"
  using split_at_Ok [of B d off s l r] by (simp add: disjoint_buffers_def)

lemma split_at_window:
  assumes "split_at B d off s = Ok (l, r)" and "window mem d = Some w"
  shows "window mem l = Some (take off w) \<and> window mem r = Some (drop off w)"
proof -
  note S = split_at_Ok [OF assms(1)]
  from assms(2) obtain m where m: "mem (db_token d) = Some m"
    "db_offset d + length (db_bytes d) \<le> length m"
    "w = take (length (db_bytes d)) (drop (db_offset d) m)"
    by (auto simp: window_eq_Some)
  have len: "length (db_bytes r) = length (db_bytes d) - off"
    using arg_cong [OF S(5), of length] S(6) by simp
  have "take off w = take (length (db_bytes l)) (drop (db_offset l) m)"
    using S m by (simp add: min_absorb1)
  moreover have "drop off w = take (length (db_bytes r)) (drop (db_offset r) m)"
    using S m len by (simp add: drop_take ac_simps)
  ultimately show ?thesis
    using S m len by (auto simp: window_def)
qed

lemma dma_allocate_Ok:
  assumes "dma_allocate B dev sz c dir coh s = (Ok b, s')"
  shows "\<exists>d s1 s2. sz > 0 \<and> is_power_of_two (dc_alignment c) \<and>
    be_alloc_dma_constrained B sz c dir coh s = (Ok d, s1) \<and>
    release_on_error B d (be_dma_write B d (0, sz) (replicate sz 0)) s1 = (Ok (), s2) \<and>
    release_on_error B d (\<lambda>s. if \<not> coh \<and> \<not> be_is_cache_coherent B s
       then be_sync_for_device B d (0, sz) s else (Ok (), s)) s2 = (Ok (), s') \<and>
    b = \<lparr>db_shared = dev_shared dev, db_token = d, db_generation = be_generation B s,
      db_offset = 0, db_alignment = dc_alignment c, db_bytes = replicate sz 0\<rparr>"
  using assms by (auto simp: dma_allocate_def st_then_eq_Ok split: if_splits)

section \<open>The contract of a backend\<close>

text \<open>
  \<open>inv\<close> is the backend's own invariant and \<open>mem\<close> the device-visible contents of a live
  allocation. The generation changes with a reset and only then; an allocation is fresh and
  has the requested size; a transfer of a range inside an allocation does not panic, a write
  that succeeds changes exactly that range and one that fails nothing; releasing an allocation
  ends it.
\<close>

locale hw_backend =
  fixes B :: "('s, 'r, 'd, 'i) backend"
    and inv :: "'s \<Rightarrow> bool"
    and mem :: "'s \<Rightarrow> 'd \<Rightarrow> bytes option"
  assumes reset_generation:
      "be_reset B s = (Ok g, s') \<Longrightarrow> be_generation B s' = g \<and> g \<noteq> be_generation B s"
    and alloc_ok: "inv s \<Longrightarrow> sz > 0 \<Longrightarrow> is_power_of_two (dc_alignment c) \<Longrightarrow>
        be_alloc_dma_constrained B sz c dir coh s = (Ok d, s') \<Longrightarrow>
        inv s' \<and> be_generation B s' = be_generation B s \<and> mem s d = None \<and>
        (\<exists>m. length m = sz \<and> mem s' = (mem s)(d \<mapsto> m))"
    and alloc_err: "inv s \<Longrightarrow> sz > 0 \<Longrightarrow> is_power_of_two (dc_alignment c) \<Longrightarrow>
        be_alloc_dma_constrained B sz c dir coh s = (Err e, s') \<Longrightarrow> inv s' \<and> mem s' = mem s"
    and dma_write: "inv s \<Longrightarrow> mem s d = Some m \<Longrightarrow> lo \<le> hi \<Longrightarrow> hi \<le> length m \<Longrightarrow>
        length bs = hi - lo \<Longrightarrow> be_dma_write B d (lo, hi) bs s = (r, s') \<Longrightarrow>
        r \<noteq> Panic \<and> inv s' \<and> be_generation B s' = be_generation B s \<and>
        mem s' = (if r = Ok () then (mem s)(d \<mapsto> overwrite lo bs m) else mem s)"
    and dma_read: "inv s \<Longrightarrow> mem s d = Some m \<Longrightarrow> lo \<le> hi \<Longrightarrow> hi \<le> length m \<Longrightarrow>
        be_dma_read B d (lo, hi) s = (rb, s') \<Longrightarrow>
        rb \<noteq> Panic \<and> inv s' \<and> be_generation B s' = be_generation B s \<and>
        (\<exists>m'. mem s' d = Some m' \<and> length m' = length m \<and>
          (\<forall>out. rb = Ok out \<longrightarrow> out = take (hi - lo) (drop lo m')))"
    and sync_for_device: "inv s \<Longrightarrow> mem s d = Some m \<Longrightarrow> lo \<le> hi \<Longrightarrow> hi \<le> length m \<Longrightarrow>
        be_sync_for_device B d (lo, hi) s = (r, s') \<Longrightarrow>
        r \<noteq> Panic \<and> inv s' \<and> be_generation B s' = be_generation B s \<and> mem s' = mem s"
    and release_dma: "inv s \<Longrightarrow>
        inv (be_release_dma B d s) \<and> mem (be_release_dma B d s) = (mem s)(d := None)"
begin

lemma zero_fill:
  assumes "inv s" and "mem s d = Some m" and "length m = sz"
    and "release_on_error B d (be_dma_write B d (0, sz) (replicate sz 0)) s = (r, s')"
  shows "r \<noteq> Panic \<and> inv s' \<and>
    (r = Ok () \<longrightarrow> be_generation B s' = be_generation B s) \<and>
    mem s' = (mem s)(d := (if r = Ok () then Some (replicate sz 0) else None))"
proof -
  obtain r2 s2 where w: "be_dma_write B d (0, sz) (replicate sz 0) s = (r2, s2)"
    by fastforce
  have "overwrite 0 (replicate sz 0) m = replicate sz 0"
    using assms(3) by (simp add: overwrite_def)
  then have "r2 \<noteq> Panic" "inv s2" "be_generation B s2 = be_generation B s"
    "mem s2 = (if r2 = Ok () then (mem s)(d \<mapsto> replicate sz 0) else mem s)"
    using dma_write [OF assms(1,2) _ _ _ w] assms(3) by auto
  then show ?thesis
    using assms(4) w release_dma [of s2 d] by (cases r2) (auto simp: release_on_error_def)
qed

lemma publish_fill:
  assumes "inv s" and "mem s d = Some m" and "length m = sz"
    and "release_on_error B d (\<lambda>s. if \<not> coh \<and> \<not> be_is_cache_coherent B s
           then be_sync_for_device B d (0, sz) s else (Ok (), s)) s = (r, s')"
  shows "r \<noteq> Panic \<and> inv s' \<and>
    (r = Ok () \<longrightarrow> be_generation B s' = be_generation B s) \<and>
    mem s' = (if r = Ok () then mem s else (mem s)(d := None))"
proof -
  obtain r2 s2 where y: "be_sync_for_device B d (0, sz) s = (r2, s2)"
    by fastforce
  have "r2 \<noteq> Panic" "inv s2" "be_generation B s2 = be_generation B s" "mem s2 = mem s"
    using sync_for_device [OF assms(1,2) _ _ y] assms(3) by auto
  then show ?thesis
    using assms(1,4) y release_dma [of s2 d]
    by (cases r2) (auto simp: release_on_error_def split: if_splits)
qed

lemma allocate_zeroed:
  assumes "inv s" and "dma_allocate B dev sz c dir coh s = (Ok b, s')"
  shows "inv s' \<and> mem s (db_token b) = None \<and>
    mem s' = (mem s)(db_token b \<mapsto> replicate sz 0) \<and> db_bytes b = replicate sz 0 \<and>
    db_offset b = 0 \<and> db_alignment b = dc_alignment c \<and> db_shared b = dev_shared dev \<and>
    db_generation b = be_generation B s \<and> be_generation B s' = be_generation B s"
proof -
  from dma_allocate_Ok [OF assms(2)] obtain d s1 s2
    where sz: "sz > 0" "is_power_of_two (dc_alignment c)"
    and al: "be_alloc_dma_constrained B sz c dir coh s = (Ok d, s1)"
    and w: "release_on_error B d (be_dma_write B d (0, sz) (replicate sz 0)) s1 = (Ok (), s2)"
    and y: "release_on_error B d (\<lambda>s. if \<not> coh \<and> \<not> be_is_cache_coherent B s
           then be_sync_for_device B d (0, sz) s else (Ok (), s)) s2 = (Ok (), s')"
    and b: "b = \<lparr>db_shared = dev_shared dev, db_token = d, db_generation = be_generation B s,
      db_offset = 0, db_alignment = dc_alignment c, db_bytes = replicate sz 0\<rparr>"
    by blast
  from alloc_ok [OF assms(1) sz al] obtain m where s1: "inv s1" "mem s d = None"
    "be_generation B s1 = be_generation B s" "length m = sz" "mem s1 = (mem s)(d \<mapsto> m)"
    by auto
  have s2: "inv s2" "be_generation B s2 = be_generation B s"
    "mem s2 = (mem s)(d \<mapsto> replicate sz 0)"
    using zero_fill [OF s1(1) _ s1(4) w] s1 by auto
  have "inv s'" "be_generation B s' = be_generation B s" "mem s' = mem s2"
    using publish_fill [OF s2(1) _ _ y, of "replicate sz 0"] s2 by auto
  then show ?thesis
    using s1(2) s2(3) b by simp
qed

lemma allocate_no_leak:
  assumes "inv s" and "dma_allocate B dev sz c dir coh s = (Err e, s')"
  shows "inv s' \<and> mem s' = mem s"
proof (cases "sz = 0 \<or> dc_alignment c = 0 \<or> \<not> is_power_of_two (dc_alignment c)")
  case True
  then show ?thesis using assms by (auto simp: dma_allocate_def)
next
  case False
  then have sz: "sz > 0" "is_power_of_two (dc_alignment c)" by auto
  from False assms(2) consider (alloc) "be_alloc_dma_constrained B sz c dir coh s = (Err e, s')"
    | (fill) d s1 where "be_alloc_dma_constrained B sz c dir coh s = (Ok d, s1)"
        "release_on_error B d (be_dma_write B d (0, sz) (replicate sz 0)) s1 = (Err e, s')"
    | (sync) d s1 s2 where "be_alloc_dma_constrained B sz c dir coh s = (Ok d, s1)"
        "release_on_error B d (be_dma_write B d (0, sz) (replicate sz 0)) s1 = (Ok (), s2)"
        "release_on_error B d (\<lambda>s. if \<not> coh \<and> \<not> be_is_cache_coherent B s
           then be_sync_for_device B d (0, sz) s else (Ok (), s)) s2 = (Err e, s')"
    by (auto simp: dma_allocate_def st_then_eq_Err)
  then show ?thesis
  proof cases
    case alloc
    then show ?thesis using alloc_err [OF assms(1) sz] by blast
  next
    case fill
    from alloc_ok [OF assms(1) sz fill(1)] obtain m where s1: "inv s1" "mem s d = None"
      "length m = sz" "mem s1 = (mem s)(d \<mapsto> m)"
      by auto
    then show ?thesis
      using zero_fill [OF s1(1) _ s1(3) fill(2)] by (auto simp: fun_upd_idem)
  next
    case sync
    from alloc_ok [OF assms(1) sz sync(1)] obtain m where s1: "inv s1" "mem s d = None"
      "length m = sz" "mem s1 = (mem s)(d \<mapsto> m)"
      by auto
    have "inv s2" "mem s2 = (mem s)(d \<mapsto> replicate sz 0)"
      using zero_fill [OF s1(1) _ s1(3) sync(2)] s1 by auto
    then show ?thesis
      using publish_fill [OF _ _ _ sync(3), of "replicate sz 0"] s1(2)
      by (auto simp: fun_upd_idem)
  qed
qed

text \<open>A coherent write that succeeds is the write of the window; every other window is as before.\<close>

lemma coherent_write_window:
  assumes "inv s" and "window (mem s) b = Some w"
    and "coherent_write B off bs (b, s) = (r, (b', s'))"
  shows "r \<noteq> Panic \<and> inv s' \<and> be_generation B s' = be_generation B s \<and>
    (r \<noteq> Ok () \<longrightarrow> mem s' = mem s) \<and>
    (r = Ok () \<longrightarrow> off + length bs \<le> length (db_bytes b) \<and>
       b' = b\<lparr>db_bytes := overwrite off bs (db_bytes b)\<rparr> \<and>
       window (mem s') b' = Some (overwrite off bs w)) \<and>
    (\<forall>e. disjoint_buffers b e \<longrightarrow> window (mem s') e = window (mem s) e)"
proof (cases "dma_range B b off (length bs) s")
  case (Ok rg)
  then have rg: "rg = (off, off + length bs)" "off + length bs \<le> length (db_bytes b)"
    by (auto dest: dma_range_Ok)
  from assms(2) obtain m where m: "mem s (db_token b) = Some m"
    "db_offset b + length (db_bytes b) \<le> length m"
    "w = take (length (db_bytes b)) (drop (db_offset b) m)"
    by (auto simp: window_eq_Some)
  obtain r2 s2 where w2:
    "be_dma_write B (db_token b) (db_offset b + off, db_offset b + off + length bs) bs s = (r2, s2)"
    by fastforce
  have W: "r2 \<noteq> Panic" "inv s2" "be_generation B s2 = be_generation B s"
    "mem s2 = (if r2 = Ok () then (mem s)(db_token b \<mapsto> overwrite (db_offset b + off) bs m) else mem s)"
    using dma_write [OF assms(1) m(1) _ _ _ w2] rg m by auto
  have eq: "r = r2" "s' = s2" "b' = b\<lparr>db_bytes := overwrite off bs (db_bytes b)\<rparr>"
    using assms(3) coherent_write_eq [OF Ok, of r2 s2] w2 rg
    by (simp_all add: backend_range_def add.assoc)
  have own: "window (mem s') b' = Some (overwrite off bs w)" if "r = Ok ()"
    using that W(4) eq rg m by (simp add: window_def overwrite_inside)
  have other: "window (mem s') e = window (mem s) e" if "disjoint_buffers b e" for e
  proof (cases "r = Ok () \<and> db_token e = db_token b")
    case True
    then show ?thesis
      using that W(4) eq rg m by (auto simp: window_def disjoint_buffers_def overwrite_disjoint)
  next
    case False
    then show ?thesis
      using W(4) eq by (auto simp: window_def)
  qed
  show ?thesis
    using W eq own other rg by auto
next
  case (Err e)
  then show ?thesis
    using assms by (auto simp: coherent_write_def buf_range_def st_then_def)
qed simp

lemma coherent_read_window:
  assumes "inv s" and "window (mem s) b = Some w"
    and "coherent_read B off n (b, s) = (r, (b', s'))"
  shows "r \<noteq> Panic \<and> inv s' \<and> be_generation B s' = be_generation B s \<and>
    (\<forall>out. r = Ok out \<longrightarrow> off + n \<le> length (db_bytes b) \<and>
       b' = b\<lparr>db_bytes := overwrite off out (db_bytes b)\<rparr> \<and>
       (\<exists>w'. window (mem s') b' = Some w' \<and> out = take n (drop off w')))"
proof (cases "dma_range B b off n s")
  case (Ok rg)
  then have rg: "rg = (off, off + n)" "off + n \<le> length (db_bytes b)"
    by (auto dest: dma_range_Ok)
  from assms(2) obtain m where m: "mem s (db_token b) = Some m"
    "db_offset b + length (db_bytes b) \<le> length m"
    by (auto simp: window_eq_Some)
  obtain r2 s2 where r2:
    "be_dma_read B (db_token b) (db_offset b + off, db_offset b + off + n) s = (r2, s2)"
    by fastforce
  have le: "db_offset b + off \<le> db_offset b + off + n" "db_offset b + off + n \<le> length m"
    using rg m by auto
  obtain m' where R: "r2 \<noteq> Panic" "inv s2" "be_generation B s2 = be_generation B s"
    "mem s2 (db_token b) = Some m'" "length m' = length m"
    "\<And>out. r2 = Ok out \<Longrightarrow> out = take n (drop (db_offset b + off) m')"
    using dma_read [OF assms(1) m(1) le(1,2) r2] by auto
  show ?thesis
  proof (cases r2)
    case out: (Ok out)
    have eq: "r = Ok out" "s' = s2" "b' = b\<lparr>db_bytes := overwrite off out (db_bytes b)\<rparr>"
      using assms(3) coherent_read_eq [OF Ok, of r2 s2] r2 rg out
      by (simp_all add: backend_range_def add.assoc)
    have "length out = n"
      using R(6) [OF out] R(5) rg m by simp
    moreover have "out = take n (drop off (take (length (db_bytes b)) (drop (db_offset b) m')))"
      using R(6) [OF out] rg by (simp add: drop_take min_absorb1 ac_simps)
    moreover have "window (mem s') b' =
        Some (take (length (db_bytes b)) (drop (db_offset b) m'))"
      using R(4,5) eq rg m \<open>length out = n\<close> by (simp add: window_def)
    ultimately show ?thesis
      using R(1-3) eq rg by simp
  next
    case e: (Err e)
    have "r = Err e" "s' = s2"
      using assms(3) coherent_read_eq [OF Ok, of r2 s2] r2 rg e
      by (simp_all add: backend_range_def add.assoc)
    then show ?thesis using R by simp
  qed (use R(1) in simp)
next
  case (Err e)
  then show ?thesis
    using assms by (auto simp: coherent_read_def buf_range_def st_then_def)
qed simp

end

end
