(* ===== verification/Deterministic_Backend.thy ===== *)
theory Deterministic_Backend
  imports Hardware_Api
begin

text \<open>
  The deterministic backend of \<open>crates/platform/hardware-backends/src/lib.rs\<close>, the model of a
  device that the driver test-suites run against: an arena of DMA allocations with IOVAs and a
  per-byte ownership state for non-coherent streaming mappings, the QEMU \<open>edu\<close> DMA engine,
  scripted device responses, injected failures, and ordering assertions for doorbells.

  The state is one record. What the source shares with the test through \<open>Rc<RefCell<_>>\<close> (log,
  failure injection, ordering assertions, device model, resource probe) is an optional field of
  it. The hash map of allocations is an association list; by the invariant no two allocations
  overlap, so that the order in which the source searches it does not matter. Unchecked
  additions that would overflow (the next IOVA, the next identifier) are \<open>Panic\<close>.
\<close>

section \<open>State\<close>

datatype dma_ownership = Cpu | CpuDirty | Device | DeviceDirty

record dma =
  dm_bytes :: bytes
  dm_iova :: u64
  dm_direction :: dma_direction
  dm_coherent :: bool
  dm_ownership :: "dma_ownership list"

datatype operation =
  ReadU32 u8 nat u32
| WriteU32 u8 nat u32
| WriteDeviceAddress u8 nat "nat option" u64
| SyncForCpu u64 range
| SyncForDevice u64 range

record device_model =
  md_dma_writes :: "(u64 \<times> bytes) list"
  md_register_reads :: "u32 list"
  md_response_bytes :: bytes
  md_completions_per_poll :: "nat list"
  md_completion_order :: "nat list"
  md_stays_silent :: bool

record doorbell_dependency =
  dd_descriptor :: "u64 \<times> u64"
  dd_doorbell_offset :: nat
  dd_satisfied :: bool

record failure_state =
  fi_mmio_write :: "(nat \<times> u32) option"
  fi_sync_for_device :: bool
  fi_interrupt_open :: bool
  fi_interrupt_disable :: nat

datatype deterministic_release = ReleaseInterrupt | ReleaseDma | ReleaseRegion

record resource_state =
  rp_attempts :: nat
  rp_fail_at :: "nat option"
  rp_live_regions :: nat
  rp_live_dmas :: nat
  rp_live_interrupts :: nat
  rp_releases :: "deterministic_release list"

record det =
  dt_generation :: u64
  dt_next :: u64
  dt_next_id :: u64
  dt_dmas :: "(u64 \<times> dma) list"
  dt_pending :: bool
  dt_now :: u64
  dt_live_regions :: nat
  dt_live_irqs :: nat
  dt_source :: "(u64 \<times> nat) option"
  dt_destination :: "(u64 \<times> nat) option"
  dt_count :: nat
  dt_edu_buffer :: bytes
  dt_operations :: "operation list option"
  dt_ordering :: "doorbell_dependency list option"
  dt_cache_coherent :: bool
  dt_failures :: "failure_state option"
  dt_region_len :: nat
  dt_device_model :: "device_model option"
  dt_resource_probe :: "resource_state option"
  dt_registers :: "((u8 \<times> nat) \<times> u32) list"
  dt_mt7921_activation_model :: bool
  dt_ambiguous_interrupt_vectors :: "u32 list"

definition det_default :: det where
  "det_default =
     \<lparr>dt_generation = 1, dt_next = 0x10000000, dt_next_id = 1, dt_dmas = [], dt_pending = False,
      dt_now = 0, dt_live_regions = 0, dt_live_irqs = 0, dt_source = None, dt_destination = None,
      dt_count = 0, dt_edu_buffer = replicate 4096 0, dt_operations = None, dt_ordering = None,
      dt_cache_coherent = True, dt_failures = None, dt_region_len = 0x100000,
      dt_device_model = None, dt_resource_probe = None, dt_registers = [],
      dt_mt7921_activation_model = False, dt_ambiguous_interrupt_vectors = []\<rparr>"

definition noncoherent_default :: det where
  "noncoherent_default = det_default\<lparr>dt_cache_coherent := False\<rparr>"

definition no_failures :: failure_state where
  "no_failures = \<lparr>fi_mmio_write = None, fi_sync_for_device = False, fi_interrupt_open = False,
     fi_interrupt_disable = 0\<rparr>"

definition assoc_put :: "'k \<Rightarrow> 'v \<Rightarrow> ('k \<times> 'v) list \<Rightarrow> ('k \<times> 'v) list" where
  "assoc_put k v xs = (k, v) # filter (\<lambda>p. fst p \<noteq> k) xs"

definition assoc_del :: "'k \<Rightarrow> ('k \<times> 'v) list \<Rightarrow> ('k \<times> 'v) list" where
  "assoc_del k xs = filter (\<lambda>p. fst p \<noteq> k) xs"

fun assoc_set :: "'k \<Rightarrow> 'v \<Rightarrow> ('k \<times> 'v) list \<Rightarrow> ('k \<times> 'v) list" where
  "assoc_set k v [] = []"
| "assoc_set k v ((k', v') # xs) = (if k' = k then (k, v) # xs else (k', v') # assoc_set k v xs)"

section \<open>Harness controls\<close>

definition write_dma :: "u64 \<Rightarrow> bytes \<Rightarrow> device_model \<Rightarrow> device_model" where
  "write_dma address bs md = md\<lparr>md_dma_writes := md_dma_writes md @ [(address, bs)]\<rparr>"

definition remaining_decisions :: "device_model \<Rightarrow> nat" where
  "remaining_decisions md =
     length (md_register_reads md) + length (md_completions_per_poll md)
       + length (md_dma_writes md)"

definition expect_descriptor_before_doorbell ::
  "u64 \<times> u64 \<Rightarrow> nat \<Rightarrow> doorbell_dependency list \<Rightarrow> doorbell_dependency list" where
  "expect_descriptor_before_doorbell descriptor offset deps =
     deps @ [\<lparr>dd_descriptor = descriptor, dd_doorbell_offset = offset, dd_satisfied = False\<rparr>]"

definition probe_acquire :: "resource_state \<Rightarrow> (hw_error, unit) res \<times> resource_state" where
  "probe_acquire st =
     (let st' = st\<lparr>rp_attempts := rp_attempts st + 1\<rparr> in
      (if rp_fail_at st' = Some (rp_attempts st') then Err DeviceFault else Ok (), st'))"

definition fail_next_matching_mmio_write :: "nat \<Rightarrow> u32 \<Rightarrow> failure_state \<Rightarrow> failure_state" where
  "fail_next_matching_mmio_write offset v f = f\<lparr>fi_mmio_write := Some (offset, v)\<rparr>"

definition fail_next_sync_for_device :: "failure_state \<Rightarrow> failure_state" where
  "fail_next_sync_for_device f = f\<lparr>fi_sync_for_device := True\<rparr>"

definition fail_interrupt_disable_attempts :: "nat \<Rightarrow> failure_state \<Rightarrow> failure_state" where
  "fail_interrupt_disable_attempts n f = f\<lparr>fi_interrupt_disable := n\<rparr>"

definition fail_next_interrupt_open :: "failure_state \<Rightarrow> failure_state" where
  "fail_next_interrupt_open f = f\<lparr>fi_interrupt_open := True\<rparr>"

definition failing :: "(failure_state \<Rightarrow> bool) \<Rightarrow> det \<Rightarrow> bool" where
  "failing p s = (case dt_failures s of None \<Rightarrow> False | Some f \<Rightarrow> p f)"

section \<open>Allocations\<close>

definition log_op :: "operation \<Rightarrow> det \<Rightarrow> det" where
  "log_op x s = s\<lparr>dt_operations := map_option (\<lambda>l. l @ [x]) (dt_operations s)\<rparr>"

definition get_dma :: "det \<Rightarrow> u64 \<Rightarrow> (hw_error, dma) res" where
  "get_dma s i = ok_or (map_of (dt_dmas s) i) StaleHandle"

definition put_dma :: "u64 \<Rightarrow> dma \<Rightarrow> det \<Rightarrow> det" where
  "put_dma i d s = s\<lparr>dt_dmas := assoc_set i d (dt_dmas s)\<rparr>"

definition satisfy_dependencies ::
  "u64 \<Rightarrow> u64 \<Rightarrow> doorbell_dependency list \<Rightarrow> doorbell_dependency list" where
  "satisfy_dependencies start stop = map (\<lambda>dep.
     if start \<le> fst (dd_descriptor dep) \<and> snd (dd_descriptor dep) \<le> stop
     then dep\<lparr>dd_satisfied := True\<rparr> else dep)"

definition record_dma_write :: "u64 \<Rightarrow> range \<Rightarrow> (det, hw_error, unit) op" where
  "record_dma_write i r s =
     (case get_dma s i of
        Ok d \<Rightarrow>
          (case dt_ordering s of
             None \<Rightarrow> (Ok (), s)
           | Some deps \<Rightarrow>
               (case (checked_add_word (dm_iova d) (of_nat (fst r)),
                      checked_add_word (dm_iova d) (of_nat (snd r))) of
                  (Some start, Some stop) \<Rightarrow>
                    (Ok (), s\<lparr>dt_ordering := Some (satisfy_dependencies start stop deps)\<rparr>)
                | _ \<Rightarrow> (Panic, s)))
      | Err e \<Rightarrow> (Err e, s) | Panic \<Rightarrow> (Panic, s))"

definition device_accessible :: "u64 \<Rightarrow> range \<Rightarrow> det \<Rightarrow> (hw_error, unit) res" where
  "device_accessible i r s =
     and_then (get_dma s i) (\<lambda>d.
       if dt_cache_coherent s \<or> dm_coherent d then Ok ()
       else and_then (slice (fst r) (snd r) (dm_ownership d)) (\<lambda>owners.
         if list_all (\<lambda>x. x = Device) owners then Ok () else Err DeviceFault))"

definition dma_holds :: "u64 \<Rightarrow> nat \<Rightarrow> dma \<Rightarrow> range option" where
  "dma_holds address n d =
     (if dm_iova d \<le> address then
        (case checked_add (unat (address - dm_iova d)) n of
           Some e \<Rightarrow> if e \<le> length (dm_bytes d) then Some (unat (address - dm_iova d), e) else None
         | None \<Rightarrow> None)
      else None)"

fun find_dma :: "u64 \<Rightarrow> nat \<Rightarrow> (u64 \<times> dma) list \<Rightarrow> (u64 \<times> range) option" where
  "find_dma address n [] = None"
| "find_dma address n ((i, d) # xs) =
     (case dma_holds address n d of Some r \<Rightarrow> Some (i, r) | None \<Rightarrow> find_dma address n xs)"

definition device_write :: "u64 \<Rightarrow> bytes \<Rightarrow> det \<Rightarrow> (hw_error, det) res" where
  "device_write address bs s =
     and_then (ok_or (find_dma address (length bs) (dt_dmas s)) OutOfBounds) (\<lambda>(i, r).
     and_then (device_accessible i r s) (\<lambda>_.
     and_then (get_dma s i) (\<lambda>d.
       if dm_direction d = ToDevice then Err Invalid
       else Ok (put_dma i (d\<lparr>dm_bytes := overwrite (fst r) bs (dm_bytes d)\<rparr>) s))))"

text \<open>The queue is popped before each write is tried, so a write that fails is consumed.\<close>

fun apply_device_writes_from :: "device_model \<Rightarrow> (u64 \<times> bytes) list \<Rightarrow> (det, hw_error, unit) op" where
  "apply_device_writes_from md [] s = (Ok (), s)"
| "apply_device_writes_from md ((address, bs) # rest) s =
     (let s' = s\<lparr>dt_device_model := Some (md\<lparr>md_dma_writes := rest\<rparr>)\<rparr> in
      case device_write address bs s' of
        Ok s'' \<Rightarrow> apply_device_writes_from md rest s''
      | Err e \<Rightarrow> (Err e, s') | Panic \<Rightarrow> (Panic, s'))"

definition apply_device_writes :: "(det, hw_error, unit) op" where
  "apply_device_writes s =
     (case dt_device_model s of None \<Rightarrow> (Ok (), s)
      | Some md \<Rightarrow> apply_device_writes_from md (md_dma_writes md) s)"

section \<open>Registers and the edu engine\<close>

definition with_probe :: "(resource_state \<Rightarrow> resource_state) \<Rightarrow> (det, hw_error, unit) op" where
  "with_probe count s =
     (case dt_resource_probe s of
        None \<Rightarrow> (Ok (), s)
      | Some st \<Rightarrow>
          (case probe_acquire st of
             (Ok _, st') \<Rightarrow> (Ok (), s\<lparr>dt_resource_probe := Some (count st')\<rparr>)
           | (Err e, st') \<Rightarrow> (Err e, s\<lparr>dt_resource_probe := Some st'\<rparr>)
           | (Panic, st') \<Rightarrow> (Panic, s\<lparr>dt_resource_probe := Some st'\<rparr>)))"

definition det_open_region :: "u8 \<Rightarrow> (det, hw_error, u8) op" where
  "det_open_region i s =
     (if i \<noteq> 0 then (Err Invalid, s)
      else st_then (with_probe (\<lambda>st. st\<lparr>rp_live_regions := rp_live_regions st + 1\<rparr>))
        (\<lambda>_ s'. (Ok i, s'\<lparr>dt_live_regions := dt_live_regions s' + 1\<rparr>)) s)"

definition register_default :: "u8 \<Rightarrow> nat \<Rightarrow> det \<Rightarrow> u32" where
  "register_default region offset s =
     (if dt_mt7921_activation_model s then
        (if offset = 0x40140
         then (case map_of (dt_registers s) (region, offset) of Some v \<Rightarrow> v | None \<Rightarrow> 1) OR 0x10
         else if offset = 0x40010 then 0
         else (case map_of (dt_registers s) (region, offset) of Some v \<Rightarrow> v | None \<Rightarrow> 0))
      else if offset = 0x24 then (if dt_pending s then 1 else 0) else 0)"

definition det_read_u32 :: "u8 \<Rightarrow> nat \<Rightarrow> (det, hw_error, u32) op" where
  "det_read_u32 region offset s =
     (let (v, s') =
        (case dt_device_model s of
           Some md \<Rightarrow>
             (case (if md_stays_silent md then [] else md_register_reads md) of
                x # rest \<Rightarrow> (x, s\<lparr>dt_device_model := Some (md\<lparr>md_register_reads := rest\<rparr>)\<rparr>)
              | [] \<Rightarrow> (register_default region offset s, s))
         | None \<Rightarrow> (register_default region offset s, s))
      in (Ok v, log_op (ReadU32 region offset v) s'))"

definition scripted_response :: "device_model option \<Rightarrow> bytes \<Rightarrow> bytes" where
  "scripted_response model response =
     (case model of None \<Rightarrow> response
      | Some md \<Rightarrow>
          if \<not> md_stays_silent md \<and> md_response_bytes md \<noteq> []
          then map (\<lambda>i. let order = md_completion_order md;
                            k = i mod max (length order) 1;
                            choice = (if k < length order then order ! k else i)
                        in md_response_bytes md ! (choice mod length (md_response_bytes md)))
                 [0..<length response]
          else response)"

definition edu_to_memory :: "(det, hw_error, unit) op" where
  "edu_to_memory s =
     (case and_then (ok_or (dt_destination s) Invalid) (\<lambda>(i, off).
        and_then (ok_or (checked_add off (dt_count s)) OutOfBounds) (\<lambda>stop.
        and_then (get_dma s i) (\<lambda>d.
          if stop > length (dm_bytes d) \<or> dt_count s > length (dt_edu_buffer s)
          then Err OutOfBounds
          else and_then (device_accessible i (off, stop) s) (\<lambda>_.
            let response = scripted_response (dt_device_model s)
                             (take (dt_count s) (dt_edu_buffer s));
                d' = d\<lparr>dm_bytes := overwrite off response (dm_bytes d)\<rparr>;
                d'' = (if \<not> dt_cache_coherent s \<and> \<not> dm_coherent d
                       then d'\<lparr>dm_ownership := overwrite off
                              (replicate (stop - off) DeviceDirty) (dm_ownership d')\<rparr>
                       else d')
            in Ok (put_dma i d'' s))))) of
        Ok s' \<Rightarrow> (Ok (), s') | Err e \<Rightarrow> (Err e, s) | Panic \<Rightarrow> (Panic, s))"

definition edu_from_memory :: "(det, hw_error, unit) op" where
  "edu_from_memory s =
     (case and_then (ok_or (dt_source s) Invalid) (\<lambda>(i, off).
        and_then (ok_or (checked_add off (dt_count s)) OutOfBounds) (\<lambda>stop.
        and_then (get_dma s i) (\<lambda>d.
          if stop > length (dm_bytes d) \<or> dt_count s > length (dt_edu_buffer s)
          then Err OutOfBounds
          else and_then (device_accessible i (off, stop) s) (\<lambda>_.
            Ok (s\<lparr>dt_edu_buffer :=
                  overwrite 0 (take (stop - off) (drop off (dm_bytes d))) (dt_edu_buffer s)\<rparr>))))) of
        Ok s' \<Rightarrow> (Ok (), s') | Err e \<Rightarrow> (Err e, s) | Panic \<Rightarrow> (Panic, s))"

definition edu_write :: "nat \<Rightarrow> u32 \<Rightarrow> (det, hw_error, unit) op" where
  "edu_write offset v s =
     (if offset = 0x40000
      then (Ok (), s\<lparr>dt_edu_buffer := overwrite 0 (le_bytes 4 v) (dt_edu_buffer s)\<rparr>)
      else if offset = 0x80 then (Ok (), s\<lparr>dt_source := None\<rparr>)
      else if offset = 0x88 then (Ok (), s\<lparr>dt_destination := None\<rparr>)
      else if offset = 0x90 then (Ok (), s\<lparr>dt_count := unat v\<rparr>)
      else if offset = 0x98 \<and> v AND 1 \<noteq> 0
      then st_then (if v AND 2 \<noteq> 0 then edu_to_memory else edu_from_memory)
             (\<lambda>_ s'. (Ok (), s'\<lparr>dt_pending := (v AND 4 \<noteq> 0)\<rparr>)) s
      else (Ok (), s))"

definition reset_strobes :: "u8 \<Rightarrow> nat \<Rightarrow> u32 \<Rightarrow> ((u8 \<times> nat) \<times> u32) list \<Rightarrow> ((u8 \<times> nat) \<times> u32) list"
where
  "reset_strobes region offset v regs =
     (if offset = 0xd420c \<or> offset = 0xd4280
      then (let (base, count) = (if offset = 0xd420c then (0xd430c, 18) else (0xd450c, 6))
            in foldl (\<lambda>rs i. if v AND push_bit i 1 \<noteq> 0
                             then assoc_put (region, base + i * 0x10) 0 rs else rs)
                 regs [0..<count])
      else regs)"

definition after_write :: "u8 \<Rightarrow> nat \<Rightarrow> u32 \<Rightarrow> det \<Rightarrow> det" where
  "after_write region offset v s =
     (let s1 = (if dt_mt7921_activation_model s
                then s\<lparr>dt_registers := assoc_put (region, offset) (if offset = 0xd4200 then 0 else v)
                        (reset_strobes region offset v (dt_registers s))\<rparr> else s);
          s2 = s1\<lparr>dt_ordering := map_option (map (\<lambda>dep.
                  if dd_doorbell_offset dep = offset then dep\<lparr>dd_satisfied := False\<rparr> else dep))
                  (dt_ordering s1)\<rparr>
      in log_op (WriteU32 region offset v) s2)"

definition det_write_u32 :: "u8 \<Rightarrow> nat \<Rightarrow> u32 \<Rightarrow> (det, hw_error, unit) op" where
  "det_write_u32 region offset v s =
     (if failing (\<lambda>f. fi_mmio_write f = Some (offset, v)) s
      then (Err DeviceFault,
            s\<lparr>dt_failures := map_option (\<lambda>f. f\<lparr>fi_mmio_write := None\<rparr>) (dt_failures s)\<rparr>)
      else if list_ex (\<lambda>dep. dd_doorbell_offset dep = offset \<and> \<not> dd_satisfied dep)
                (case dt_ordering s of None \<Rightarrow> [] | Some deps \<Rightarrow> deps)
      then (Err DeviceFault, s)
      else st_then (edu_write offset v) (\<lambda>_ s'. (Ok (), after_write region offset v s')) s)"

definition det_dma_device_address :: "det \<Rightarrow> u64 \<Rightarrow> nat \<Rightarrow> (hw_error, u64) res" where
  "det_dma_device_address s i off =
     and_then (get_dma s i) (\<lambda>d. ok_or (checked_add_word (dm_iova d) (of_nat off)) OutOfBounds)"

definition det_write_dma_address ::
  "u8 \<Rightarrow> nat \<Rightarrow> nat option \<Rightarrow> u64 \<Rightarrow> nat \<Rightarrow> (det, hw_error, unit) op" where
  "det_write_dma_address region low high i off s =
     (case det_dma_device_address s i off of
        Ok v \<Rightarrow>
          (let s' = log_op (WriteDeviceAddress region low high v) s in
           (Ok (), if low = 0x80 then s'\<lparr>dt_source := Some (i, off)\<rparr>
                   else if low = 0x88 then s'\<lparr>dt_destination := Some (i, off)\<rparr> else s'))
      | Err e \<Rightarrow> (Err e, s) | Panic \<Rightarrow> (Panic, s))"

section \<open>DMA\<close>

definition align_up :: "u64 \<Rightarrow> u64 \<Rightarrow> (hw_error, u64) res" where
  "align_up x m = ok_or (map_option (\<lambda>y. y AND NOT m) (checked_add_word x m)) Limit"

definition det_alloc_dma :: "nat \<Rightarrow> nat \<Rightarrow> dma_direction \<Rightarrow> bool \<Rightarrow> (det, hw_error, u64) op" where
  "det_alloc_dma sz align direction coherent s =
     (if sz > 1024 * 1024 then (Err Limit, s)
      else st_then (with_probe (\<lambda>st. st\<lparr>rp_live_dmas := rp_live_dmas st + 1\<rparr>)) (\<lambda>_.
           st_then (st_reads (\<lambda>s. if align = 0 then Panic
                                   else align_up (dt_next s) (of_nat align - 1))) (\<lambda>start s.
             case (checked_add_word (dt_next_id s) 1, checked_add_word start (of_nat sz)) of
               (Some next_id, Some next) \<Rightarrow>
                 (Ok (dt_next_id s),
                  s\<lparr>dt_next := next, dt_next_id := next_id,
                    dt_dmas := assoc_put (dt_next_id s)
                      \<lparr>dm_bytes = replicate sz 0xa5, dm_iova = start, dm_direction = direction,
                       dm_coherent = coherent, dm_ownership = replicate sz Cpu\<rparr> (dt_dmas s)\<rparr>)
             | _ \<Rightarrow> (Panic, s))) s)"

definition det_alloc_dma_constrained ::
  "nat \<Rightarrow> dma_constraints \<Rightarrow> dma_direction \<Rightarrow> bool \<Rightarrow> (det, hw_error, u64) op" where
  "det_alloc_dma_constrained sz c direction coherent s =
     (if dc_max_segments c = 0 \<or> dc_max_segment_size c < sz then (Err Limit, s)
      else st_then (st_reads (\<lambda>s.
        and_then (ok_or (checked_sub (dc_alignment c) 1) Invalid) (\<lambda>m.
        and_then (align_up (dt_next s) (of_nat m)) (\<lambda>start.
          if sz = 0 then Panic
          else and_then (ok_or (checked_add_word start (of_nat sz - 1)) Limit) (\<lambda>last.
            if last > dc_max_device_address c then Err Limit else Ok ()))))) (\<lambda>_.
        det_alloc_dma sz (dc_alignment c) direction coherent) s)"

definition cpu_owned :: "dma_ownership \<Rightarrow> bool" where
  "cpu_owned x \<longleftrightarrow> x = Cpu \<or> x = CpuDirty"

definition cpu_accessible :: "dma \<Rightarrow> range \<Rightarrow> det \<Rightarrow> (hw_error, unit) res" where
  "cpu_accessible d r s =
     (if dt_cache_coherent s \<or> dm_coherent d then Ok ()
      else and_then (slice (fst r) (snd r) (dm_ownership d)) (\<lambda>owners.
        if list_all cpu_owned owners then Ok () else Err DeviceFault))"

definition det_dma_read :: "u64 \<Rightarrow> range \<Rightarrow> (det, hw_error, bytes) op" where
  "det_dma_read i r =
     st_then apply_device_writes (\<lambda>_.
       st_reads (\<lambda>s. and_then (get_dma s i) (\<lambda>d.
         if dm_direction d = ToDevice then Err Invalid
         else and_then (cpu_accessible d r s) (\<lambda>_. slice (fst r) (snd r) (dm_bytes d)))))"

definition det_dma_write :: "u64 \<Rightarrow> range \<Rightarrow> bytes \<Rightarrow> (det, hw_error, unit) op" where
  "det_dma_write i r bs =
     st_then (record_dma_write i r) (\<lambda>_ s.
       case get_dma s i of
         Ok d \<Rightarrow> if fst r \<le> snd r \<and> snd r \<le> length (dm_bytes d) \<and> length bs = snd r - fst r
                then (Ok (), put_dma i (d\<lparr>dm_bytes := overwrite (fst r) bs (dm_bytes d)\<rparr>) s)
                else (Panic, s)
       | Err e \<Rightarrow> (Err e, s) | Panic \<Rightarrow> (Panic, s))"

definition set_ownership :: "u64 \<Rightarrow> range \<Rightarrow> dma_ownership \<Rightarrow> dma \<Rightarrow> (det, hw_error, unit) op" where
  "set_ownership i r x d s =
     (if fst r \<le> snd r \<and> snd r \<le> length (dm_ownership d)
      then (Ok (), put_dma i (d\<lparr>dm_ownership :=
              overwrite (fst r) (replicate (snd r - fst r) x) (dm_ownership d)\<rparr>) s)
      else (Panic, s))"

definition det_streaming_cpu_dirty :: "u64 \<Rightarrow> range \<Rightarrow> (det, hw_error, unit) op" where
  "det_streaming_cpu_dirty i r s =
     (if dt_cache_coherent s then (Ok (), s)
      else st_then (st_reads (\<lambda>s. get_dma s i)) (\<lambda>d.
        if dm_coherent d then st_return (Ok ()) else set_ownership i r CpuDirty d) s)"

definition det_streaming_cpu_read :: "u64 \<Rightarrow> range \<Rightarrow> (det, hw_error, unit) op" where
  "det_streaming_cpu_read i r =
     st_reads (\<lambda>s. and_then (get_dma s i) (\<lambda>d. cpu_accessible d r s))"

definition det_dma_read_once_u32 :: "u64 \<Rightarrow> nat \<Rightarrow> (det, hw_error, u32) op" where
  "det_dma_read_once_u32 i off =
     st_then apply_device_writes (\<lambda>_.
       st_reads (\<lambda>s. and_then (get_dma s i) (\<lambda>d.
         and_then (slice off (off + 4) (dm_bytes d)) (\<lambda>bs. Ok (from_le bs)))))"

definition det_dma_write_once_u32 :: "u64 \<Rightarrow> nat \<Rightarrow> u32 \<Rightarrow> (det, hw_error, unit) op" where
  "det_dma_write_once_u32 i off v =
     st_then (record_dma_write i (off, off + 4)) (\<lambda>_ s.
       case get_dma s i of
         Ok d \<Rightarrow> if off + 4 \<le> length (dm_bytes d)
                then (Ok (), put_dma i (d\<lparr>dm_bytes := overwrite off (le_bytes 4 v) (dm_bytes d)\<rparr>) s)
                else (Panic, s)
       | Err e \<Rightarrow> (Err e, s) | Panic \<Rightarrow> (Panic, s))"

definition det_sync_for_cpu :: "u64 \<Rightarrow> range \<Rightarrow> (det, hw_error, unit) op" where
  "det_sync_for_cpu i r =
     st_then (st_reads (\<lambda>s. get_dma s i)) (\<lambda>d.
       if dm_coherent d \<or> dm_direction d = ToDevice then st_return (Err Invalid)
       else st_then (st_return (slice (fst r) (snd r) (dm_ownership d))) (\<lambda>owners.
         if \<not> list_all (\<lambda>x. x = Device \<or> x = DeviceDirty) owners then st_return (Err DeviceFault)
         else st_then (set_ownership i r Cpu d) (\<lambda>_ s. (Ok (), log_op (SyncForCpu i r) s))))"

definition det_sync_for_device :: "u64 \<Rightarrow> range \<Rightarrow> (det, hw_error, unit) op" where
  "det_sync_for_device i r s =
     (if failing fi_sync_for_device s
      then (Err DeviceFault,
            s\<lparr>dt_failures := map_option (\<lambda>f. f\<lparr>fi_sync_for_device := False\<rparr>) (dt_failures s)\<rparr>)
      else st_then (st_reads (\<lambda>s. get_dma s i)) (\<lambda>d.
        if dm_coherent d then st_return (Err Invalid)
        else st_then (st_return (slice (fst r) (snd r) (dm_ownership d))) (\<lambda>owners.
          if \<not> list_all cpu_owned owners then st_return (Err DeviceFault)
          else st_then (set_ownership i r Device d)
                 (\<lambda>_ s. (Ok (), log_op (SyncForDevice i r) s)))) s)"

section \<open>Interrupts, reset and release\<close>

definition det_open_interrupt :: "u32 \<Rightarrow> (det, hw_error, u32) op" where
  "det_open_interrupt vector s =
     (let s0 = s\<lparr>dt_ambiguous_interrupt_vectors :=
                  List.insert vector (dt_ambiguous_interrupt_vectors s)\<rparr> in
      if failing fi_interrupt_open s0
      then (Err DeviceFault,
            s0\<lparr>dt_failures := map_option (\<lambda>f. f\<lparr>fi_interrupt_open := False\<rparr>) (dt_failures s0)\<rparr>)
      else st_then (with_probe (\<lambda>st. st\<lparr>rp_live_interrupts := rp_live_interrupts st + 1\<rparr>))
        (\<lambda>_ s'. (Ok vector, s'\<lparr>dt_live_irqs := dt_live_irqs s' + 1,
           dt_ambiguous_interrupt_vectors :=
             removeAll vector (dt_ambiguous_interrupt_vectors s')\<rparr>)) s0)"

definition det_wait_interrupt :: "u32 \<Rightarrow> u64 \<Rightarrow> (det, hw_error, irq_event option) op" where
  "det_wait_interrupt i deadline s0 =
     (let s = s0\<lparr>dt_now := max (dt_now s0) deadline\<rparr> in
      case dt_device_model s of
        Some md \<Rightarrow>
          if md_stays_silent md then (Ok None, s)
          else
            (let (count, rest) = (case md_completions_per_poll md of [] \<Rightarrow> (0, []) | c # cs \<Rightarrow> (c, cs));
                 s' = s\<lparr>dt_device_model := Some (md\<lparr>md_completions_per_poll := rest\<rparr>)\<rparr>
             in if count \<noteq> 0 \<and> i = 0
                then (Ok (Some \<lparr>irq_vector = i, irq_count = of_nat count, irq_at_ns = dt_now s'\<rparr>),
                      s'\<lparr>dt_pending := False\<rparr>)
                else (Ok None, s'))
      | None \<Rightarrow>
          if dt_pending s \<and> i = 0
          then (Ok (Some \<lparr>irq_vector = i, irq_count = 1, irq_at_ns = dt_now s\<rparr>),
                s\<lparr>dt_pending := False\<rparr>)
          else (Ok None, s))"

definition det_wait_any :: "u32 list \<Rightarrow> u64 \<Rightarrow> (det, hw_error, irq_event list) op" where
  "det_wait_any is deadline =
     (if is = [] then st_return (Err Invalid)
      else case List.find (\<lambda>i. i = 0) is of
        None \<Rightarrow> st_return (Ok [])
      | Some i \<Rightarrow> st_then (det_wait_interrupt i deadline)
          (\<lambda>ev. st_return (Ok (case ev of None \<Rightarrow> [] | Some e \<Rightarrow> [e]))))"

text \<open>The injected failure of disabling an interrupt, shared by the two ways to disable one.\<close>

definition disable_failure :: "(det, hw_error, unit) op" where
  "disable_failure s =
     (if failing (\<lambda>f. fi_interrupt_disable f \<noteq> 0) s
      then (Err DeviceFault,
            s\<lparr>dt_failures := map_option (\<lambda>f. f\<lparr>fi_interrupt_disable := fi_interrupt_disable f - 1\<rparr>)
               (dt_failures s)\<rparr>)
      else (Ok (), s))"

definition det_disable_interrupt :: "u32 \<Rightarrow> (det, hw_error, unit) op" where
  "det_disable_interrupt i = disable_failure"

definition det_disable_interrupt_vector :: "u32 \<Rightarrow> (det, hw_error, unit) op" where
  "det_disable_interrupt_vector vector s =
     st_then disable_failure
       (\<lambda>_ s'. (Ok (), s'\<lparr>dt_ambiguous_interrupt_vectors :=
          removeAll vector (dt_ambiguous_interrupt_vectors s')\<rparr>))
       (s\<lparr>dt_ambiguous_interrupt_vectors :=
          List.insert vector (dt_ambiguous_interrupt_vectors s)\<rparr>)"

fun disable_all :: "u32 list \<Rightarrow> (det, hw_error, unit) op" where
  "disable_all [] s = (Ok (), s)"
| "disable_all (v # vs) s = st_then (det_disable_interrupt_vector v) (\<lambda>_. disable_all vs) s"

definition det_reset :: "(det, hw_error, u64) op" where
  "det_reset s =
     st_then (disable_all (dt_ambiguous_interrupt_vectors s)) (\<lambda>_ s'.
       case checked_add_word (dt_generation s') 1 of
         Some g \<Rightarrow> (Ok g, s'\<lparr>dt_generation := g, dt_dmas := [], dt_pending := False\<rparr>)
       | None \<Rightarrow> (Panic, s')) s"

definition det_release_region :: "u8 \<Rightarrow> det \<Rightarrow> det" where
  "det_release_region i s =
     s\<lparr>dt_resource_probe := map_option (\<lambda>st. st\<lparr>rp_live_regions := rp_live_regions st - 1,
          rp_releases := rp_releases st @ [ReleaseRegion]\<rparr>) (dt_resource_probe s),
       dt_live_regions := dt_live_regions s - 1\<rparr>"

definition det_release_dma :: "u64 \<Rightarrow> det \<Rightarrow> det" where
  "det_release_dma i s =
     s\<lparr>dt_resource_probe := map_option (\<lambda>st. st\<lparr>rp_live_dmas := rp_live_dmas st - 1,
          rp_releases := rp_releases st @ [ReleaseDma]\<rparr>) (dt_resource_probe s),
       dt_dmas := assoc_del i (dt_dmas s)\<rparr>"

definition det_release_interrupt :: "u32 \<Rightarrow> det \<Rightarrow> det" where
  "det_release_interrupt i s =
     s\<lparr>dt_resource_probe := map_option (\<lambda>st. st\<lparr>rp_live_interrupts := rp_live_interrupts st - 1,
          rp_releases := rp_releases st @ [ReleaseInterrupt]\<rparr>) (dt_resource_probe s),
       dt_live_irqs := dt_live_irqs s - 1\<rparr>"

definition det_backend :: "(det, u8, u64, u32) backend" where
  "det_backend =
     \<lparr>be_generation = dt_generation, be_is_cache_coherent = dt_cache_coherent,
      be_open_region = det_open_region, be_region_len = (\<lambda>s _. dt_region_len s),
      be_read_u32 = det_read_u32, be_write_u32 = det_write_u32,
      be_write_dma_address = det_write_dma_address,
      be_dma_device_address = det_dma_device_address,
      be_alloc_dma = det_alloc_dma, be_alloc_dma_constrained = det_alloc_dma_constrained,
      be_dma_read = det_dma_read, be_dma_write = det_dma_write,
      be_streaming_cpu_dirty = det_streaming_cpu_dirty,
      be_streaming_cpu_read = det_streaming_cpu_read,
      be_dma_read_once_u32 = det_dma_read_once_u32,
      be_dma_write_once_u32 = det_dma_write_once_u32,
      be_sync_for_cpu = det_sync_for_cpu, be_sync_for_device = det_sync_for_device,
      be_open_interrupt = det_open_interrupt, be_wait_interrupt = det_wait_interrupt,
      be_wait_any = det_wait_any, be_disable_interrupt = det_disable_interrupt,
      be_disable_interrupt_vector = det_disable_interrupt_vector, be_reset = det_reset,
      be_release_region = det_release_region, be_release_dma = det_release_dma,
      be_release_interrupt = det_release_interrupt\<rparr>"

lemma det_backend_simps [simp]:
  "be_generation det_backend = dt_generation"
  "be_is_cache_coherent det_backend = dt_cache_coherent"
  "be_open_region det_backend = det_open_region"
  "be_region_len det_backend = (\<lambda>s _. dt_region_len s)"
  "be_read_u32 det_backend = det_read_u32"
  "be_write_u32 det_backend = det_write_u32"
  "be_write_dma_address det_backend = det_write_dma_address"
  "be_dma_device_address det_backend = det_dma_device_address"
  "be_alloc_dma det_backend = det_alloc_dma"
  "be_alloc_dma_constrained det_backend = det_alloc_dma_constrained"
  "be_dma_read det_backend = det_dma_read"
  "be_dma_write det_backend = det_dma_write"
  "be_streaming_cpu_dirty det_backend = det_streaming_cpu_dirty"
  "be_streaming_cpu_read det_backend = det_streaming_cpu_read"
  "be_dma_read_once_u32 det_backend = det_dma_read_once_u32"
  "be_dma_write_once_u32 det_backend = det_dma_write_once_u32"
  "be_sync_for_cpu det_backend = det_sync_for_cpu"
  "be_sync_for_device det_backend = det_sync_for_device"
  "be_open_interrupt det_backend = det_open_interrupt"
  "be_wait_interrupt det_backend = det_wait_interrupt"
  "be_wait_any det_backend = det_wait_any"
  "be_disable_interrupt det_backend = det_disable_interrupt"
  "be_disable_interrupt_vector det_backend = det_disable_interrupt_vector"
  "be_reset det_backend = det_reset"
  "be_release_region det_backend = det_release_region"
  "be_release_dma det_backend = det_release_dma"
  "be_release_interrupt det_backend = det_release_interrupt"
  by (simp_all add: det_backend_def)

section \<open>The arena invariant\<close>

lemma map_of_assoc_set [simp]:
  "map_of (assoc_set k v xs) = (if k \<in> fst ` set xs then (map_of xs)(k \<mapsto> v) else map_of xs)"
  by (induction k v xs rule: assoc_set.induct) (auto simp: fun_upd_twist)

lemma map_of_assoc_del [simp]: "map_of (assoc_del k xs) = (map_of xs)(k := None)"
  by (induction xs) (auto simp: assoc_del_def fun_eq_iff)

lemma map_of_assoc_put [simp]: "map_of (assoc_put k v xs) = (map_of xs)(k \<mapsto> v)"
  using map_of_assoc_del [of k xs] by (simp add: assoc_put_def assoc_del_def)

lemma map_of_Some_in [simp]: "map_of xs k = Some v \<Longrightarrow> k \<in> fst ` set xs"
  by (metis map_of_eq_None_iff option.distinct(1))

text \<open>The part of the state that no transfer changes: where the allocations are and their sizes.\<close>

definition dma_shape :: "dma \<Rightarrow> u64 \<times> nat \<times> nat" where
  "dma_shape d = (dm_iova d, length (dm_bytes d), length (dm_ownership d))"

definition arena :: "det \<Rightarrow> u64 \<times> u64 \<times> u64 \<times> nat \<times> (u64 \<times> u64 \<times> nat \<times> nat) list" where
  "arena s = (dt_generation s, dt_next s, dt_next_id s, length (dt_edu_buffer s),
              map (\<lambda>p. (fst p, dma_shape (snd p))) (dt_dmas s))"

definition iova_range_disjoint :: "dma \<Rightarrow> dma \<Rightarrow> bool" where
  "iova_range_disjoint d e \<longleftrightarrow>
     unat (dm_iova d) + length (dm_bytes d) \<le> unat (dm_iova e)
     \<or> unat (dm_iova e) + length (dm_bytes e) \<le> unat (dm_iova d)"

definition det_inv :: "det \<Rightarrow> bool" where
  "det_inv s \<longleftrightarrow>
     distinct (map fst (dt_dmas s)) \<and> length (dt_edu_buffer s) = 4096 \<and>
     (\<forall>(i, d) \<in> set (dt_dmas s). i < dt_next_id s
        \<and> length (dm_ownership d) = length (dm_bytes d)
        \<and> unat (dm_iova d) + length (dm_bytes d) \<le> unat (dt_next s)) \<and>
     (\<forall>(i, d) \<in> set (dt_dmas s). \<forall>(j, e) \<in> set (dt_dmas s).
        i \<noteq> j \<longrightarrow> iova_range_disjoint d e)"

definition det_mem :: "det \<Rightarrow> u64 \<Rightarrow> bytes option" where
  "det_mem s i = map_option dm_bytes (map_of (dt_dmas s) i)"

definition arena_ok :: "u64 \<times> u64 \<times> u64 \<times> nat \<times> (u64 \<times> u64 \<times> nat \<times> nat) list \<Rightarrow> bool" where
  "arena_ok a = (case a of (g, next, nid, elen, ds) \<Rightarrow>
     distinct (map fst ds) \<and> elen = 4096 \<and>
     (\<forall>(i, v, n, m) \<in> set ds. i < nid \<and> m = n \<and> unat v + n \<le> unat next) \<and>
     (\<forall>(i, v, n, m) \<in> set ds. \<forall>(j, v', n', m') \<in> set ds. i \<noteq> j \<longrightarrow>
        unat v + n \<le> unat v' \<or> unat v' + n' \<le> unat v))"

lemma det_inv_arena: "det_inv s \<longleftrightarrow> arena_ok (arena s)"
  by (simp add: det_inv_def arena_ok_def arena_def dma_shape_def iova_range_disjoint_def
      comp_def split_beta)

lemma det_inv_cong: "arena s' = arena s \<Longrightarrow> det_inv s \<Longrightarrow> det_inv s'"
  by (simp add: det_inv_arena)

lemma det_invD:
  assumes "det_inv s" and "map_of (dt_dmas s) i = Some d"
  shows "i < dt_next_id s" "length (dm_ownership d) = length (dm_bytes d)"
    "unat (dm_iova d) + length (dm_bytes d) \<le> unat (dt_next s)"
  using assms map_of_SomeD [OF assms(2)] by (auto simp: det_inv_def)

lemma map_shape_assoc_set:
  "map_of xs i = Some d \<Longrightarrow> dma_shape d' = dma_shape d \<Longrightarrow>
     map (\<lambda>p. (fst p, dma_shape (snd p))) (assoc_set i d' xs)
       = map (\<lambda>p. (fst p, dma_shape (snd p))) xs"
  by (induction i d' xs rule: assoc_set.induct) (auto split: if_splits)

lemma arena_put_dma:
  "map_of (dt_dmas s) i = Some d \<Longrightarrow> dma_shape d' = dma_shape d \<Longrightarrow> arena (put_dma i d' s) = arena s"
  by (simp add: arena_def put_dma_def map_shape_assoc_set)

lemma arena_updates [simp]:
  "arena (s\<lparr>dt_pending := b\<rparr>) = arena s" "arena (s\<lparr>dt_now := n\<rparr>) = arena s"
  "arena (s\<lparr>dt_live_regions := k\<rparr>) = arena s" "arena (s\<lparr>dt_live_irqs := k\<rparr>) = arena s"
  "arena (s\<lparr>dt_source := p\<rparr>) = arena s" "arena (s\<lparr>dt_destination := p\<rparr>) = arena s"
  "arena (s\<lparr>dt_count := k\<rparr>) = arena s" "arena (s\<lparr>dt_operations := l\<rparr>) = arena s"
  "arena (s\<lparr>dt_ordering := ord\<rparr>) = arena s" "arena (s\<lparr>dt_failures := f\<rparr>) = arena s"
  "arena (s\<lparr>dt_device_model := md\<rparr>) = arena s" "arena (s\<lparr>dt_resource_probe := rp\<rparr>) = arena s"
  "arena (s\<lparr>dt_registers := regs\<rparr>) = arena s"
  "arena (s\<lparr>dt_ambiguous_interrupt_vectors := vs\<rparr>) = arena s"
  "arena (log_op x s) = arena s"
  by (simp_all add: arena_def log_op_def)

lemma arena_edu_buffer [simp]:
  "length bs = length (dt_edu_buffer s) \<Longrightarrow> arena (s\<lparr>dt_edu_buffer := bs\<rparr>) = arena s"
  by (simp add: arena_def)

lemma get_dma_eq_Ok [simp]: "get_dma s i = Ok d \<longleftrightarrow> map_of (dt_dmas s) i = Some d"
  by (simp add: get_dma_def)

lemma get_dma_not_Panic [simp]: "get_dma s i \<noteq> Panic"
  by (cases "map_of (dt_dmas s) i") (auto simp: get_dma_def)

lemma arena_record_dma_write: "record_dma_write i r s = (x, s') \<Longrightarrow> arena s' = arena s \<and> dt_dmas s' = dt_dmas s"
  by (auto simp: record_dma_write_def split: res.splits option.splits)

lemma record_dma_write_inv:
  assumes "det_inv s" "map_of (dt_dmas s) i = Some d" "lo \<le> hi" "hi \<le> length (dm_bytes d)"
  shows "\<exists>s'. record_dma_write i (lo, hi) s = (Ok (), s') \<and> arena s' = arena s \<and> dt_dmas s' = dt_dmas s"
proof -
  have fits: "unat (dm_iova d) + hi < 2 ^ 64"
    using det_invD(3) [OF assms(1,2)] assms(4) unsigned_less [where w = "dt_next s" and 'b = 64 and 'a = nat] by simp
  then have "unat (of_nat lo :: u64) = lo" "unat (of_nat hi :: u64) = hi"
    using assms(3) by (auto simp: unat_of_nat)
  then have "\<exists>a b. checked_add_word (dm_iova d) (of_nat lo) = Some a \<and>
      checked_add_word (dm_iova d) (of_nat hi) = Some b"
    using fits assms(3) by (auto simp: checked_add_word_def)
  then show ?thesis
    using assms(2) by (auto simp: record_dma_write_def get_dma_def split: option.splits)
qed

lemma dma_holds_Some:
  "dma_holds address n d = Some r \<longleftrightarrow>
     dm_iova d \<le> address \<and> r = (unat address - unat (dm_iova d), unat address - unat (dm_iova d) + n)
     \<and> snd r \<le> length (dm_bytes d) \<and> snd r \<le> USIZE_MAX"
  by (auto simp: dma_holds_def unat_sub checked_add_def)

lemma find_dma_Some:
  "find_dma address n xs = Some (i, r) \<Longrightarrow> distinct (map fst xs) \<Longrightarrow>
     \<exists>d. map_of xs i = Some d \<and> dma_holds address n d = Some r"
proof (induction xs)
  case (Cons p xs)
  then show ?case
    by (cases p) (auto split: option.splits if_splits dest: map_of_SomeD)
qed simp

lemma safe_device_accessible:
  assumes "det_inv s" "map_of (dt_dmas s) i = Some d" "lo \<le> hi" "hi \<le> length (dm_bytes d)"
  shows "safe (device_accessible i (lo, hi) s)"
  using assms det_invD(2) [OF assms(1,2)]
  by (simp add: device_accessible_def get_dma_def slice_def)

text \<open>A device write lands in the one live allocation that holds its address range.\<close>

lemma device_write_arena:
  assumes "det_inv s" and "device_write address bs s = Ok s'"
  shows "arena s' = arena s"
proof -
  from assms(2) obtain i r d where f: "find_dma address (length bs) (dt_dmas s) = Some (i, r)"
    and d: "map_of (dt_dmas s) i = Some d"
    and s': "s' = put_dma i (d\<lparr>dm_bytes := overwrite (fst r) bs (dm_bytes d)\<rparr>) s"
    by (auto simp: device_write_def split: prod.splits if_splits)
  have "fst r + length bs \<le> length (dm_bytes d)"
    using find_dma_Some [OF f] assms(1) d by (auto simp: det_inv_def dma_holds_Some)
  then show ?thesis
    by (auto simp: s' dma_shape_def intro!: arena_put_dma [OF d])
qed

lemma safe_device_write:
  assumes "det_inv s"
  shows "safe (device_write address bs s)"
proof (cases "find_dma address (length bs) (dt_dmas s)")
  case (Some p)
  obtain i r where p: "p = (i, r)" by (cases p)
  obtain d where d: "map_of (dt_dmas s) i = Some d" "dma_holds address (length bs) d = Some r"
    using find_dma_Some [of address "length bs" "dt_dmas s" i r] Some assms
    by (auto simp: p det_inv_def)
  then have r: "fst r \<le> snd r" "snd r \<le> length (dm_bytes d)"
    by (auto simp: dma_holds_Some)
  show ?thesis
    using safe_device_accessible [OF assms d(1) r] d(1)
    by (cases "device_accessible i (fst r, snd r) s") (simp_all add: device_write_def Some p get_dma_def)
qed (simp add: device_write_def)

lemma apply_device_writes_from_inv:
  "det_inv s \<Longrightarrow> apply_device_writes_from md ws s = (r, s') \<Longrightarrow> arena s' = arena s \<and> r \<noteq> Panic"
proof (induction md ws s rule: apply_device_writes_from.induct)
  case (2 md address bs rest s)
  let ?s = "s\<lparr>dt_device_model := Some (md\<lparr>md_dma_writes := rest\<rparr>)\<rparr>"
  have inv: "det_inv ?s"
    using 2(2) by (rule det_inv_cong [rotated]) simp
  show ?case
  proof (cases "device_write address bs ?s")
    case (Ok s2)
    have "arena s2 = arena s"
      using device_write_arena [OF inv Ok] by simp
    then show ?thesis
      using 2(1) [OF refl Ok] 2(2,3) Ok by (simp add: det_inv_arena)
  next
    case (Err e)
    then show ?thesis using 2(3) by auto
  next
    case Panic
    then show ?thesis using safe_device_write [OF inv, of address bs] by simp
  qed
qed auto

lemma apply_device_writes_inv:
  assumes "det_inv s" "apply_device_writes s = (r, s')"
  shows "arena s' = arena s" "r \<noteq> Panic"
  using assms apply_device_writes_from_inv [OF assms(1)]
  by (auto simp: apply_device_writes_def split: option.splits)

lemma arena_lookup:
  assumes "arena s' = arena s" and "map_of (dt_dmas s) i = Some d"
  shows "\<exists>d'. map_of (dt_dmas s') i = Some d' \<and> dma_shape d' = dma_shape d"
proof -
  have eq: "map_of (map (\<lambda>p. (fst p, dma_shape (snd p))) xs) i = map_option dma_shape (map_of xs i)"
    for xs :: "(u64 \<times> dma) list"
    by (induction xs) auto
  have "map_option dma_shape (map_of (dt_dmas s') i) = map_option dma_shape (map_of (dt_dmas s) i)"
    using assms(1) by (simp add: arena_def flip: eq)
  then show ?thesis
    using assms(2) by auto
qed

lemma det_dma_read_inv:
  assumes "det_inv s" "map_of (dt_dmas s) i = Some d" "lo \<le> hi" "hi \<le> length (dm_bytes d)"
    and "det_dma_read i (lo, hi) s = (r, s')"
  shows "r \<noteq> Panic \<and> arena s' = arena s \<and>
    (\<exists>d'. map_of (dt_dmas s') i = Some d' \<and> length (dm_bytes d') = length (dm_bytes d) \<and>
      (\<forall>out. r = Ok out \<longrightarrow> out = take (hi - lo) (drop lo (dm_bytes d'))))"
proof -
  obtain a s1 where a: "apply_device_writes s = (a, s1)" by fastforce
  note A = apply_device_writes_inv [OF assms(1) a]
  obtain d' where d': "map_of (dt_dmas s1) i = Some d'" "dma_shape d' = dma_shape d"
    using arena_lookup [OF A(1) assms(2)] by auto
  have len: "length (dm_ownership d') = length (dm_bytes d')"
    using det_invD(2) [OF det_inv_cong [OF A(1) assms(1)] d'(1)] .
  have sh: "length (dm_bytes d') = length (dm_bytes d)"
    using d'(2) by (simp add: dma_shape_def)
  show ?thesis
  proof (cases a)
    case (Ok u)
    have s1: "s' = s1" and r: "r = (if dm_direction d' = ToDevice then Err Invalid
        else and_then (cpu_accessible d' (lo, hi) s1) (\<lambda>_. slice lo hi (dm_bytes d')))"
      using assms(5) a d'(1) Ok by (auto simp: det_dma_read_def get_dma_def)
    have "safe (cpu_accessible d' (lo, hi) s1)"
      using assms(3,4) len sh by (simp add: cpu_accessible_def slice_def)
    then show ?thesis
      using A(1) d' s1 r sh assms(3,4)
      by (cases "cpu_accessible d' (lo, hi) s1") (auto simp: slice_def split: if_splits)
  next
    case (Err e)
    then show ?thesis using assms(5) a A d' sh by (auto simp: det_dma_read_def)
  qed (use A in simp)
qed

lemma det_mem_put_dma:
  "map_of (dt_dmas s) i = Some d \<Longrightarrow> det_mem (put_dma i d' s) = (det_mem s)(i \<mapsto> dm_bytes d')"
  by (auto simp: det_mem_def put_dma_def fun_eq_iff)

lemma det_dma_write_inv:
  assumes "det_inv s" "map_of (dt_dmas s) i = Some d" "lo \<le> hi" "hi \<le> length (dm_bytes d)"
    and "length bs = hi - lo"
  shows "\<exists>s'. det_dma_write i (lo, hi) bs s = (Ok (), s') \<and> arena s' = arena s \<and>
    det_mem s' = (det_mem s)(i \<mapsto> overwrite lo bs (dm_bytes d))"
proof -
  obtain s1 where s1: "record_dma_write i (lo, hi) s = (Ok (), s1)" "arena s1 = arena s"
    "dt_dmas s1 = dt_dmas s"
    using record_dma_write_inv [OF assms(1-4)] by auto
  let ?d = "d\<lparr>dm_bytes := overwrite lo bs (dm_bytes d)\<rparr>"
  have "det_dma_write i (lo, hi) bs s = (Ok (), put_dma i ?d s1)"
    using s1 assms by (simp add: det_dma_write_def get_dma_def)
  moreover have "arena (put_dma i ?d s1) = arena s1"
    using assms s1(3) by (intro arena_put_dma [of s1 i d]) (auto simp: dma_shape_def)
  moreover have "det_mem (put_dma i ?d s1) = (det_mem s)(i \<mapsto> overwrite lo bs (dm_bytes d))"
    using det_mem_put_dma [of s1 i d ?d] assms(2) s1(3) by (simp add: det_mem_def fun_eq_iff)
  ultimately show ?thesis
    using s1(2) by auto
qed

lemma set_ownership_inv:
  assumes "map_of (dt_dmas s) i = Some d" "set_ownership i r x d s = (y, s')"
  shows "arena s' = arena s" "det_mem s' = det_mem s"
    "fst r \<le> snd r \<Longrightarrow> snd r \<le> length (dm_ownership d) \<Longrightarrow> y = Ok ()"
proof -
  have "s' = s \<or> fst r \<le> snd r \<and> snd r \<le> length (dm_ownership d) \<and> s' = put_dma i (d\<lparr>dm_ownership :=
      overwrite (fst r) (replicate (snd r - fst r) x) (dm_ownership d)\<rparr>) s"
    using assms(2) by (auto simp: set_ownership_def split: if_splits)
  then show "arena s' = arena s" "det_mem s' = det_mem s"
    using assms(1) det_mem_put_dma [OF assms(1)]
    by (auto simp: dma_shape_def det_mem_def fun_upd_idem intro!: arena_put_dma [OF assms(1)])
  show "fst r \<le> snd r \<Longrightarrow> snd r \<le> length (dm_ownership d) \<Longrightarrow> y = Ok ()"
    using assms(2) by (auto simp: set_ownership_def)
qed

lemma det_mem_log_op [simp]: "det_mem (log_op x s) = det_mem s"
  by (simp add: det_mem_def log_op_def fun_eq_iff)

lemma det_mem_failures [simp]: "det_mem (s\<lparr>dt_failures := f\<rparr>) = det_mem s"
  by (simp add: det_mem_def fun_eq_iff)

lemma slice_cases:
  obtains "slice lo hi xs = Panic" "\<not> (lo \<le> hi \<and> hi \<le> length xs)"
  | "slice lo hi xs = Ok (take (hi - lo) (drop lo xs))" "lo \<le> hi" "hi \<le> length xs"
  by (auto simp: slice_def)

lemma sync_set_inv:
  assumes "map_of (dt_dmas s) i = Some d"
    and "st_then (set_ownership i r x d) (\<lambda>_ s. (Ok (), log_op l s)) s = (y, s')"
  shows "arena s' = arena s \<and> det_mem s' = det_mem s \<and>
    (fst r \<le> snd r \<and> snd r \<le> length (dm_ownership d) \<longrightarrow> y \<noteq> Panic)"
proof -
  obtain z s1 where z: "set_ownership i r x d s = (z, s1)" by fastforce
  note Z = set_ownership_inv [OF assms(1) z]
  show ?thesis
    using assms(2) z Z by (cases z) auto
qed

lemma det_sync_for_device_inv:
  assumes "det_sync_for_device i (lo, hi) s = (r, s')"
  shows "arena s' = arena s" "det_mem s' = det_mem s"
    "det_inv s \<Longrightarrow> map_of (dt_dmas s) i = Some d \<Longrightarrow> lo \<le> hi \<Longrightarrow> hi \<le> length (dm_bytes d) \<Longrightarrow> r \<noteq> Panic"
proof -
  have *: "arena s' = arena s \<and> det_mem s' = det_mem s \<and>
     (det_inv s \<and> map_of (dt_dmas s) i = Some d \<and> lo \<le> hi \<and> hi \<le> length (dm_bytes d) \<longrightarrow> r \<noteq> Panic)"
  proof (cases "map_of (dt_dmas s) i")
    case None
    then show ?thesis
      using assms by (auto simp: det_sync_for_device_def get_dma_def split: if_splits)
  next
    case (Some e)
    show ?thesis
    proof (rule slice_cases [of lo hi "dm_ownership e"])
      assume "slice lo hi (dm_ownership e) = (Panic :: (hw_error, dma_ownership list) res)"
        "\<not> (lo \<le> hi \<and> hi \<le> length (dm_ownership e))"
      then show ?thesis
        using assms Some det_invD(2) [OF _ Some]
        by (auto simp: det_sync_for_device_def get_dma_def split: if_splits)
    next
      assume sl: "slice lo hi (dm_ownership e) = (Ok (take (hi - lo) (drop lo (dm_ownership e)))
          :: (hw_error, dma_ownership list) res)" "lo \<le> hi" "hi \<le> length (dm_ownership e)"
      obtain y s2 where y: "st_then (set_ownership i (lo, hi) Device e)
          (\<lambda>_ s. (Ok (), log_op (SyncForDevice i (lo, hi)) s)) s = (y, s2)" by fastforce
      show ?thesis
        using assms Some sl sync_set_inv [OF Some y] y
        by (auto simp: det_sync_for_device_def get_dma_def split: if_splits)
    qed
  qed
  then show "arena s' = arena s" "det_mem s' = det_mem s"
    "det_inv s \<Longrightarrow> map_of (dt_dmas s) i = Some d \<Longrightarrow> lo \<le> hi \<Longrightarrow> hi \<le> length (dm_bytes d) \<Longrightarrow> r \<noteq> Panic"
    by auto
qed


section \<open>Allocation\<close>

lemma align_down_le:
  fixes x m :: u64
  shows "unat (x AND NOT m) \<le> unat x" "unat x \<le> unat (x AND NOT m) + unat m"
proof -
  have sum: "(x AND m) + (x AND NOT m) = x"
    by (subst disjunctive_add_eq_or) (auto simp: bit_eq_iff bit_simps)
  show "unat (x AND NOT m) \<le> unat x"
    using word_and_le2 [of x "NOT m"] by (simp add: word_le_nat_alt ac_simps)
  have "unat x \<le> unat (x AND m) + unat (x AND NOT m)"
    by (subst (1) sum [symmetric], subst unat_word_ariths) (rule mod_less_eq_dividend)
  moreover have "unat (x AND m) \<le> unat m"
    using word_and_le2 [of m x] by (simp add: word_le_nat_alt ac_simps)
  ultimately show "unat x \<le> unat (x AND NOT m) + unat m" by simp
qed

lemma align_up_Ok:
  assumes "align_up x m = Ok y"
  shows "unat x \<le> unat y"
proof -
  from assms have y: "y = (x + m) AND NOT m" and nov: "unat (x + m) = unat x + unat m"
    by (auto simp: align_up_def checked_add_word_def unat_word_ariths split: if_splits)
  show ?thesis
    using align_down_le(2) [of "x + m" m] nov y by simp
qed

lemma is_power_of_two_exp: "is_power_of_two n \<Longrightarrow> \<exists>k. n = 2 ^ k"
proof (induction n rule: is_power_of_two.induct)
  case (1 n)
  show ?case
  proof (cases "n = 1")
    case False
    then have n: "n \<noteq> 0" "even n" "is_power_of_two (n div 2)"
      using "1.prems" by (auto simp: is_power_of_two.simps [of n] split: if_splits)
    then obtain k where "n div 2 = 2 ^ k"
      using "1.IH" False by blast
    then show ?thesis
      using n by (intro exI [of _ "Suc k"]) auto
  qed (auto intro: exI [of _ 0])
qed

lemma align_up_aligned:
  assumes "align_up x (of_nat a - 1) = Ok y" "is_power_of_two a" "a \<le> USIZE_MAX"
  shows "unat y mod a = 0"
proof -
  obtain k where a: "a = 2 ^ k" using is_power_of_two_exp [OF assms(2)] by auto
  have k: "k < 64"
    using assms(3) a power_increasing [of 64 k "2::nat"]
    by (cases "k < 64") (auto simp: USIZE_MAX_def)
  have m: "(of_nat a - 1 :: u64) = mask k"
    by (simp add: a mask_eq_exp_minus_1)
  have y: "y = (x + mask k) AND NOT (mask k)"
    using assms(1) by (auto simp: align_up_def m checked_add_word_def split: if_splits)
  have "take_bit k y = 0"
    by (rule bit_eqI) (auto simp: y bit_simps)
  then have "take_bit k (unat y) = 0"
    by (simp flip: unsigned_take_bit_eq)
  then show ?thesis
    by (simp add: a take_bit_eq_mod)
qed

lemma with_probe_frame:
  "with_probe f s = (r, s') \<Longrightarrow> arena s' = arena s \<and> dt_dmas s' = dt_dmas s \<and> r \<noteq> Panic \<and>
     dt_cache_coherent s' = dt_cache_coherent s"
  by (auto simp: with_probe_def probe_acquire_def Let_def split: option.splits if_splits)

definition fresh_dma :: "nat \<Rightarrow> u64 \<Rightarrow> dma_direction \<Rightarrow> bool \<Rightarrow> dma" where
  "fresh_dma sz start direction coherent =
     \<lparr>dm_bytes = replicate sz 0xa5, dm_iova = start, dm_direction = direction,
      dm_coherent = coherent, dm_ownership = replicate sz Cpu\<rparr>"

lemma det_alloc_dma_Ok:
  assumes "det_alloc_dma sz a dir coh s = (Ok i, s')"
  shows "\<exists>s1 start. arena s1 = arena s \<and> dt_dmas s1 = dt_dmas s \<and> i = dt_next_id s \<and>
    sz \<le> 1048576 \<and> align_up (dt_next s) (of_nat a - 1) = Ok start \<and>
    unat start + sz < 2 ^ 64 \<and> unat (dt_next_id s) + 1 < 2 ^ 64 \<and>
    s' = s1\<lparr>dt_next := start + of_nat sz, dt_next_id := dt_next_id s + 1,
            dt_dmas := assoc_put (dt_next_id s) (fresh_dma sz start dir coh) (dt_dmas s)\<rparr>"
proof -
  from assms obtain u s1 start next_id nxt where sz: "sz \<le> 1048576"
    and p: "with_probe (\<lambda>st. st\<lparr>rp_live_dmas := rp_live_dmas st + 1\<rparr>) s = (Ok u, s1)"
    and start: "align_up (dt_next s1) (of_nat a - 1) = Ok start"
    and n: "checked_add_word (dt_next_id s1) 1 = Some next_id"
      "checked_add_word start (of_nat sz) = Some nxt"
    and s': "i = dt_next_id s1" "s' = s1\<lparr>dt_next := nxt, dt_next_id := next_id,
      dt_dmas := assoc_put (dt_next_id s1) (fresh_dma sz start dir coh) (dt_dmas s1)\<rparr>"
    by (auto simp: det_alloc_dma_def st_then_eq_Ok fresh_dma_def
        split: if_splits res.splits option.splits)
  have f: "arena s1 = arena s" "dt_dmas s1 = dt_dmas s" "dt_next s1 = dt_next s"
    "dt_next_id s1 = dt_next_id s"
    using with_probe_frame [OF p] by (auto simp: arena_def)
  have "unat (of_nat sz :: u64) = sz"
    using sz by (simp add: unat_of_nat)
  then show ?thesis
    using sz start n s' f by (intro exI [of _ s1] exI [of _ start]) (auto simp: checked_add_word_def split: if_splits)
qed

lemma det_inv_add:
  assumes "det_inv s" "align_up (dt_next s) m = Ok start" "sz \<le> 1048576" "unat start + sz < 2 ^ 64" "unat (dt_next_id s) + 1 < 2 ^ 64"
    and f: "dt_dmas s' = (dt_next_id s, fresh_dma sz start dir coh) # dt_dmas s" "dt_next s' = start + of_nat sz"
      "dt_next_id s' = dt_next_id s + 1" "length (dt_edu_buffer s') = length (dt_edu_buffer s)"
  shows "det_inv s'"
proof -
  have fresh: "j < dt_next_id s" if "(j, d) \<in> set (dt_dmas s)" for j d
    using assms(1) that by (auto simp: det_inv_def)
  have new: "dt_next_id s \<notin> fst ` set (dt_dmas s)"
    using fresh by fastforce
  have nid: "unat (dt_next_id s + 1) = unat (dt_next_id s) + 1"
    and nxt: "unat (start + of_nat sz) = unat start + sz"
    using assms(3-5) by (simp_all add: unat_word_ariths unat_of_nat)
  have up: "j < dt_next_id s + 1 \<and> length (dm_ownership d) = length (dm_bytes d)
      \<and> unat (dm_iova d) + length (dm_bytes d) \<le> unat start
      \<and> unat (dm_iova d) + length (dm_bytes d) \<le> unat (start + of_nat sz)"
    if "(j, d) \<in> set (dt_dmas s)" for j d
    using assms(1) that fresh [OF that] align_up_Ok [OF assms(2)] nid nxt
    by (auto simp: det_inv_def word_less_nat_alt)
  have edu: "length (dt_edu_buffer s) = 4096"
    using assms(1) by (simp add: det_inv_def)
  have me: "dt_next_id s < dt_next_id s + 1"
    using nid by (simp add: word_less_nat_alt)
  have old: "iova_range_disjoint d (fresh_dma sz start dir coh)"
    "iova_range_disjoint (fresh_dma sz start dir coh) d" if "(j, d) \<in> set (dt_dmas s)" for j d
    using up [OF that] by (auto simp: fresh_dma_def iova_range_disjoint_def)
  have new_dma: "unat (dm_iova (fresh_dma sz start dir coh)) + length (dm_bytes (fresh_dma sz start dir coh))
      = unat start + sz" "length (dm_ownership (fresh_dma sz start dir coh))
      = length (dm_bytes (fresh_dma sz start dir coh))"
    by (simp_all add: fresh_dma_def)
  show ?thesis
    unfolding det_inv_def f
    using assms(1) new edu me nxt new_dma
    by (auto simp: det_inv_def dest: up old)
qed

lemma det_alloc_dma_inv:
  assumes "det_inv s" and "det_alloc_dma sz a dir coh s = (Ok i, s')"
  shows "det_inv s'" "map_of (dt_dmas s) i = None" "dt_generation s' = dt_generation s"
    "\<exists>start. align_up (dt_next s) (of_nat a - 1) = Ok start \<and>
       dt_dmas s' = (i, fresh_dma sz start dir coh) # dt_dmas s"
proof -
  obtain s1 start where A: "arena s1 = arena s" "dt_dmas s1 = dt_dmas s" "i = dt_next_id s"
    "align_up (dt_next s) (of_nat a - 1) = Ok start" "sz \<le> 1048576"
    "unat start + sz < 2 ^ 64" "unat (dt_next_id s) + 1 < 2 ^ 64"
    and s': "s' = s1\<lparr>dt_next := start + of_nat sz, dt_next_id := dt_next_id s + 1,
            dt_dmas := assoc_put (dt_next_id s) (fresh_dma sz start dir coh) (dt_dmas s)\<rparr>"
    using det_alloc_dma_Ok [OF assms(2)] by metis
  have fresh: "j < dt_next_id s" if "(j, d) \<in> set (dt_dmas s)" for j d
    using assms(1) that by (auto simp: det_inv_def)
  have keys: "assoc_put (dt_next_id s) (fresh_dma sz start dir coh) (dt_dmas s)
      = (dt_next_id s, fresh_dma sz start dir coh) # dt_dmas s"
    by (auto simp: assoc_put_def filter_id_conv dest: fresh)
  have "i \<notin> fst ` set (dt_dmas s)"
    using fresh A(3) by fastforce
  then show "map_of (dt_dmas s) i = None"
    by (simp add: map_of_eq_None_iff)
  show "dt_generation s' = dt_generation s"
    using A(1) by (simp add: s' arena_def)
  show "\<exists>start. align_up (dt_next s) (of_nat a - 1) = Ok start \<and>
       dt_dmas s' = (i, fresh_dma sz start dir coh) # dt_dmas s"
    using A(3,4) keys by (simp add: s')
  show "det_inv s'"
    by (rule det_inv_add [OF assms(1) A(4-7)]) (use A(1) in \<open>simp_all add: s' keys arena_def\<close>)
qed

lemma det_alloc_dma_not_Ok:
  assumes "det_alloc_dma sz a dir coh s = (r, s')" and "\<And>i. r \<noteq> Ok i"
  shows "arena s' = arena s \<and> dt_dmas s' = dt_dmas s"
proof (cases "sz > 1024 * 1024")
  case False
  obtain u s1 where p: "with_probe (\<lambda>st. st\<lparr>rp_live_dmas := rp_live_dmas st + 1\<rparr>) s = (u, s1)"
    by fastforce
  show ?thesis
    using assms False p with_probe_frame [OF p]
    by (cases u) (auto simp: det_alloc_dma_def split: res.splits option.splits if_splits)
qed (use assms in \<open>auto simp: det_alloc_dma_def\<close>)

lemma det_alloc_dma_constrained_cases:
  assumes "det_alloc_dma_constrained sz c dir coh s = (r, s')"
  shows "s' = s \<and> (\<forall>i. r \<noteq> Ok i) \<or>
    det_alloc_dma sz (dc_alignment c) dir coh s = (r, s') \<and> sz \<le> dc_max_segment_size c \<and> sz > 0 \<and>
    (\<exists>start. align_up (dt_next s) (of_nat (dc_alignment c - 1)) = Ok start \<and> dc_alignment c > 0 \<and>
       unat start + unat (of_nat sz - 1 :: u64) < 2 ^ 64 \<and>
       start + (of_nat sz - 1) \<le> dc_max_device_address c)"
  using assms
  by (auto simp: det_alloc_dma_constrained_def checked_sub_def checked_add_word_def
      split: if_splits res.splits)

lemma disable_failure_frame:
  "disable_failure s = (r, s') \<Longrightarrow> arena s' = arena s \<and> dt_dmas s' = dt_dmas s \<and> r \<noteq> Panic"
  by (auto simp: disable_failure_def split: if_splits)

lemma det_disable_interrupt_vector_frame:
  assumes "det_disable_interrupt_vector v s = (r, s')"
  shows "arena s' = arena s \<and> dt_dmas s' = dt_dmas s \<and> r \<noteq> Panic"
proof -
  let ?s = "s\<lparr>dt_ambiguous_interrupt_vectors := List.insert v (dt_ambiguous_interrupt_vectors s)\<rparr>"
  obtain u s1 where u: "disable_failure ?s = (u, s1)" by fastforce
  then show ?thesis
    using assms disable_failure_frame [OF u] by (cases u) (auto simp: det_disable_interrupt_vector_def)
qed

lemma disable_all_frame:
  "disable_all vs s = (r, s') \<Longrightarrow> arena s' = arena s \<and> dt_dmas s' = dt_dmas s \<and> r \<noteq> Panic"
proof (induction vs s arbitrary: r s' rule: disable_all.induct)
  case (2 v vs s)
  obtain u s1 where u: "det_disable_interrupt_vector v s = (u, s1)" by fastforce
  show ?case
    using 2 u det_disable_interrupt_vector_frame [OF u] by (cases u) auto
qed simp

lemma det_reset_cases:
  assumes "det_reset s = (r, s')"
  obtains (failed) "arena s' = arena s" "dt_dmas s' = dt_dmas s" "\<And>g. r \<noteq> Ok g"
  | (complete) "r = Ok (dt_generation s + 1)" "dt_generation s' = dt_generation s + 1"
      "unat (dt_generation s + 1) = unat (dt_generation s) + 1" "dt_dmas s' = []"
      "arena (s'\<lparr>dt_generation := dt_generation s, dt_dmas := dt_dmas s\<rparr>) = arena s"
proof -
  obtain u s1 where u: "disable_all (dt_ambiguous_interrupt_vectors s) s = (u, s1)" by fastforce
  note f = disable_all_frame [OF u]
  have g: "dt_generation s1 = dt_generation s" using f by (simp add: arena_def)
  show ?thesis
  proof (cases u)
    case (Ok x)
    show ?thesis
    proof (cases "unat (dt_generation s) + 1 < 2 ^ 64")
      case True
      have "arena (s1\<lparr>dt_generation := dt_generation s, dt_dmas := dt_dmas s\<rparr>) = arena s"
        using f by (simp add: arena_def)
      then show ?thesis
        using assms Ok u g True
        by (intro complete) (auto simp: det_reset_def checked_add_word_def unat_word_ariths arena_def)
    next
      case False
      then show ?thesis
        using assms Ok u g f by (intro failed) (auto simp: det_reset_def checked_add_word_def)
    qed
  next
    case (Err e)
    then show ?thesis
      using assms u f by (intro failed) (auto simp: det_reset_def)
  qed (use f in simp)
qed

lemma det_inv_no_dmas:
  "det_inv s \<Longrightarrow> arena (s'\<lparr>dt_generation := dt_generation s, dt_dmas := dt_dmas s\<rparr>) = arena s \<Longrightarrow>
     dt_dmas s' = [] \<Longrightarrow> det_inv s'"
  by (simp add: det_inv_def arena_def)

lemma det_release_dma_inv:
  "det_inv s \<Longrightarrow> det_inv (det_release_dma i s) \<and>
     det_mem (det_release_dma i s) = (det_mem s)(i := None)"
  by (auto simp: det_inv_def det_release_dma_def det_mem_def assoc_del_def [symmetric])
   (auto simp: assoc_del_def distinct_map_filter)


section \<open>The backend keeps the contract\<close>

lemma length_scripted_response [simp]: "length (scripted_response md response) = length response"
  by (simp add: scripted_response_def split: option.splits)

lemma edu_to_memory_arena:
  assumes "det_inv s" "edu_to_memory s = (r, s')"
  shows "arena s' = arena s"
proof (cases r)
  case (Ok u)
  with assms(2) obtain i off d where i: "dt_destination s = Some (i, off)"
    and d: "map_of (dt_dmas s) i = Some d"
    and le: "off + dt_count s \<le> length (dm_bytes d)" "dt_count s \<le> length (dt_edu_buffer s)"
    and s': "s' = put_dma i (let response = scripted_response (dt_device_model s)
                             (take (dt_count s) (dt_edu_buffer s));
                d' = d\<lparr>dm_bytes := overwrite off response (dm_bytes d)\<rparr>
            in if \<not> dt_cache_coherent s \<and> \<not> dm_coherent d
                       then d'\<lparr>dm_ownership := overwrite off
                              (replicate (dt_count s) DeviceDirty) (dm_ownership d')\<rparr>
                       else d') s"
    by (auto simp: edu_to_memory_def Let_def split: res.splits if_splits)
  show ?thesis
    using le det_invD(2) [OF assms(1) d]
    by (auto simp: s' Let_def dma_shape_def intro!: arena_put_dma [OF d])
qed (use assms(2) in \<open>auto simp: edu_to_memory_def split: res.splits\<close>)

lemma edu_from_memory_arena:
  assumes "edu_from_memory s = (r, s')"
  shows "arena s' = arena s"
proof (cases r)
  case (Ok u)
  with assms obtain i off d where d: "map_of (dt_dmas s) i = Some d"
    and le: "off + dt_count s \<le> length (dm_bytes d)" "dt_count s \<le> length (dt_edu_buffer s)"
    and s': "s' = s\<lparr>dt_edu_buffer :=
      overwrite 0 (take (dt_count s) (drop off (dm_bytes d))) (dt_edu_buffer s)\<rparr>"
    by (auto simp: edu_from_memory_def not_less split: res.splits if_splits)
  show ?thesis
    using le by (auto simp: s')
qed (use assms in \<open>auto simp: edu_from_memory_def split: res.splits\<close>)

lemma edu_write_arena:
  assumes "det_inv s" "edu_write off v s = (r, s')"
  shows "arena s' = arena s"
proof (cases "off = 0x98 \<and> v AND 1 \<noteq> 0")
  case True
  obtain x s1 where x: "(if v AND 2 \<noteq> 0 then edu_to_memory else edu_from_memory) s = (x, s1)"
    by fastforce
  then have "arena s1 = arena s"
    using edu_to_memory_arena [OF assms(1)] edu_from_memory_arena by (auto split: if_splits)
  then show ?thesis
    using True assms(2) x by (cases x) (auto simp: edu_write_def)
next
  case False
  then show ?thesis
    using assms by (auto simp: edu_write_def det_inv_def split: if_splits)
qed

lemma after_write_arena [simp]: "arena (after_write region off v s) = arena s"
  by (simp add: after_write_def Let_def)

lemma det_write_u32_arena:
  assumes "det_inv s" "det_write_u32 region off v s = (r, s')"
  shows "arena s' = arena s"
proof -
  obtain x s1 where x: "edu_write off v s = (x, s1)" by fastforce
  show ?thesis
    using assms(2) x edu_write_arena [OF assms(1) x]
    by (cases x) (auto simp: det_write_u32_def split: if_splits)
qed

lemma det_read_u32_arena: "det_read_u32 region off s = (r, s') \<Longrightarrow> arena s' = arena s"
  by (auto simp: det_read_u32_def split: option.splits list.splits if_splits)

lemma det_write_dma_address_arena:
  "det_write_dma_address region low high i off s = (r, s') \<Longrightarrow> arena s' = arena s"
  by (auto simp: det_write_dma_address_def Let_def split: res.splits if_splits)

lemma det_open_region_arena: "det_open_region i s = (r, s') \<Longrightarrow> arena s' = arena s"
proof -
  assume a: "det_open_region i s = (r, s')"
  obtain u s1 where u: "with_probe (\<lambda>st. st\<lparr>rp_live_regions := rp_live_regions st + 1\<rparr>) s = (u, s1)"
    by fastforce
  show ?thesis
    using a u with_probe_frame [OF u] by (cases u) (auto simp: det_open_region_def split: if_splits)
qed

lemma det_open_interrupt_arena: "det_open_interrupt v s = (r, s') \<Longrightarrow> arena s' = arena s"
proof -
  assume a: "det_open_interrupt v s = (r, s')"
  let ?s = "s\<lparr>dt_ambiguous_interrupt_vectors := List.insert v (dt_ambiguous_interrupt_vectors s)\<rparr>"
  obtain u s1 where u:
    "with_probe (\<lambda>st. st\<lparr>rp_live_interrupts := rp_live_interrupts st + 1\<rparr>) ?s = (u, s1)"
    by fastforce
  show ?thesis
    using a u with_probe_frame [OF u]
    by (cases u) (auto simp: det_open_interrupt_def Let_def split: if_splits)
qed

lemma det_wait_interrupt_arena: "det_wait_interrupt i dl s = (r, s') \<Longrightarrow> arena s' = arena s"
  by (auto simp: det_wait_interrupt_def Let_def split: option.splits if_splits prod.splits)

lemma det_wait_any_arena: "det_wait_any is dl s = (r, s') \<Longrightarrow> arena s' = arena s"
proof -
  assume a: "det_wait_any is dl s = (r, s')"
  show ?thesis
  proof (cases "List.find (\<lambda>i. i = 0) is")
    case (Some i)
    obtain u s1 where u: "det_wait_interrupt i dl s = (u, s1)" by fastforce
    show ?thesis
      using a u Some det_wait_interrupt_arena [OF u]
      by (cases u) (auto simp: det_wait_any_def split: if_splits)
  qed (use a in \<open>auto simp: det_wait_any_def split: if_splits\<close>)
qed

lemma det_streaming_cpu_dirty_arena:
  "det_streaming_cpu_dirty i rg s = (r, s') \<Longrightarrow> arena s' = arena s"
  by (auto simp: det_streaming_cpu_dirty_def split: if_splits res.splits dest: set_ownership_inv)

lemma det_sync_for_cpu_arena:
  assumes "det_sync_for_cpu i rg s = (r, s')"
  shows "arena s' = arena s"
proof (cases "map_of (dt_dmas s) i")
  case (Some e)
  obtain y s2 where y: "st_then (set_ownership i rg Cpu e)
      (\<lambda>_ s. (Ok (), log_op (SyncForCpu i rg) s)) s = (y, s2)" by fastforce
  show ?thesis
    using assms Some sync_set_inv [OF Some y] y
    by (auto simp: det_sync_for_cpu_def get_dma_def slice_def split: if_splits)
qed (use assms in \<open>auto simp: det_sync_for_cpu_def get_dma_def\<close>)

lemma det_dma_write_arena:
  assumes "det_dma_write i rg bs s = (r, s')"
  shows "arena s' = arena s"
proof -
  obtain u s1 where u: "record_dma_write i rg s = (u, s1)" by fastforce
  note f = arena_record_dma_write [OF u]
  show ?thesis
  proof (cases "u = Ok () \<and> (\<exists>d. map_of (dt_dmas s1) i = Some d \<and> fst rg \<le> snd rg
      \<and> snd rg \<le> length (dm_bytes d) \<and> length bs = snd rg - fst rg)")
    case True
    then obtain d where d: "map_of (dt_dmas s1) i = Some d" "snd rg \<le> length (dm_bytes d)"
      "fst rg \<le> snd rg" "length bs = snd rg - fst rg" by auto
    have "s' = put_dma i (d\<lparr>dm_bytes := overwrite (fst rg) bs (dm_bytes d)\<rparr>) s1"
      using assms u True d by (auto simp: det_dma_write_def get_dma_def)
    then show ?thesis
      using d f by (auto simp: dma_shape_def arena_put_dma [OF d(1)])
  next
    case False
    then show ?thesis
      using assms u f
      by (cases u) (auto simp: det_dma_write_def split: res.splits if_splits)
  qed
qed

lemma det_dma_write_once_arena:
  assumes "det_dma_write_once_u32 i off v s = (r, s')"
  shows "arena s' = arena s"
proof -
  obtain u s1 where u: "record_dma_write i (off, off + 4) s = (u, s1)" by fastforce
  note f = arena_record_dma_write [OF u]
  show ?thesis
  proof (cases "u = Ok () \<and> (\<exists>d. map_of (dt_dmas s1) i = Some d \<and> off + 4 \<le> length (dm_bytes d))")
    case True
    then obtain d where d: "map_of (dt_dmas s1) i = Some d" "off + 4 \<le> length (dm_bytes d)" by auto
    have "s' = put_dma i (d\<lparr>dm_bytes := overwrite off (le_bytes 4 v) (dm_bytes d)\<rparr>) s1"
      using assms u True d by (auto simp: det_dma_write_once_u32_def get_dma_def)
    then show ?thesis
      using d f by (auto simp: dma_shape_def arena_put_dma [OF d(1)])
  next
    case False
    then show ?thesis
      using assms u f
      by (cases u) (auto simp: det_dma_write_once_u32_def split: res.splits if_splits)
  qed
qed

lemma apply_then_reads_arena:
  assumes "det_inv s" "st_then apply_device_writes (\<lambda>_. st_reads f) s = (r, s')"
  shows "arena s' = arena s"
proof -
  obtain u s1 where u: "apply_device_writes s = (u, s1)" by fastforce
  show ?thesis
    using assms(2) u apply_device_writes_inv(1) [OF assms(1) u] by (cases u) auto
qed

interpretation det: hw_backend det_backend det_inv det_mem
proof unfold_locales
  fix s g s'
  assume r: "be_reset det_backend s = (Ok g, s')"
  show "be_generation det_backend s' = g \<and> g \<noteq> be_generation det_backend s"
    by (rule det_reset_cases [of s "Ok g" s']) (use r in auto)
next
  fix s sz c dir coh d s'
  assume "det_inv s"
    and "be_alloc_dma_constrained det_backend sz c dir coh s = (Ok d, s')"
  then have a: "det_inv s" "det_alloc_dma sz (dc_alignment c) dir coh s = (Ok d, s')"
    using det_alloc_dma_constrained_cases [of sz c dir coh s "Ok d" s'] by auto
  note A = det_alloc_dma_inv [OF a]
  show "det_inv s' \<and> be_generation det_backend s' = be_generation det_backend s \<and>
      det_mem s d = None \<and> (\<exists>m. length m = sz \<and> det_mem s' = (det_mem s)(d \<mapsto> m))"
    using A(1-3) A(4) by (auto simp: det_mem_def fresh_dma_def fun_eq_iff)
next
  fix s sz c dir coh e s'
  assume inv: "det_inv s" and al: "be_alloc_dma_constrained det_backend sz c dir coh s = (Err e, s')"
  then consider "s' = s" | "det_alloc_dma sz (dc_alignment c) dir coh s = (Err e, s')"
    using det_alloc_dma_constrained_cases [of sz c dir coh s "Err e" s'] by auto
  then show "det_inv s' \<and> det_mem s' = det_mem s"
  proof cases
    case 2
    then show ?thesis
      using det_alloc_dma_not_Ok [OF 2] inv by (auto simp: det_inv_arena det_mem_def fun_eq_iff)
  qed (use inv in simp)
next
  fix s d m lo hi bs r s'
  assume "det_inv s" "det_mem s d = Some m" "lo \<le> hi" "hi \<le> length m" "length bs = hi - lo"
    and "be_dma_write det_backend d (lo, hi) bs s = (r, s')"
  then show "r \<noteq> Panic \<and> det_inv s' \<and> be_generation det_backend s' = be_generation det_backend s \<and>
      det_mem s' = (if r = Ok () then (det_mem s)(d \<mapsto> overwrite lo bs m) else det_mem s)"
    using det_dma_write_inv [of s d _ lo hi bs] by (fastforce simp: det_mem_def det_inv_arena arena_def)
next
  fix s d m lo hi rb s'
  assume "det_inv s" "det_mem s d = Some m" "lo \<le> hi" "hi \<le> length m"
    and "be_dma_read det_backend d (lo, hi) s = (rb, s')"
  then show "rb \<noteq> Panic \<and> det_inv s' \<and> be_generation det_backend s' = be_generation det_backend s \<and>
      (\<exists>m'. det_mem s' d = Some m' \<and> length m' = length m \<and>
        (\<forall>out. rb = Ok out \<longrightarrow> out = take (hi - lo) (drop lo m')))"
    using det_dma_read_inv [of s d _ lo hi rb s'] by (fastforce simp: det_mem_def det_inv_arena arena_def)
next
  fix s d m lo hi r s'
  assume a: "det_inv s" "det_mem s d = Some m" "lo \<le> hi" "hi \<le> length m"
    and "be_sync_for_device det_backend d (lo, hi) s = (r, s')"
  then have y: "det_sync_for_device d (lo, hi) s = (r, s')" by simp
  show "r \<noteq> Panic \<and> det_inv s' \<and> be_generation det_backend s' = be_generation det_backend s \<and>
      det_mem s' = det_mem s"
    using det_sync_for_device_inv [OF y] a by (auto simp: det_mem_def det_inv_arena arena_def)
next
  fix s d
  assume "det_inv s"
  then show "det_inv (be_release_dma det_backend d s) \<and>
      det_mem (be_release_dma det_backend d s) = (det_mem s)(d := None)"
    using det_release_dma_inv by simp
qed


section \<open>Reachable states\<close>

text \<open>
  The states of a backend built by one of the constructors (they differ in the harness fields
  only), and one step: any call of the trait with any arguments, whether it succeeds or not, or
  the test changing its script, its injected failures or its assertions.
\<close>

definition det_initial :: "det \<Rightarrow> bool" where
  "det_initial s \<longleftrightarrow> dt_generation s = 1 \<and> dt_next s = 0x10000000 \<and> dt_next_id s = 1 \<and>
     dt_dmas s = [] \<and> dt_edu_buffer s = replicate 4096 0"

inductive det_step :: "det \<Rightarrow> det \<Rightarrow> bool" where
  open_region: "det_open_region i s = (r, s') \<Longrightarrow> det_step s s'"
| read_u32: "det_read_u32 region off s = (r, s') \<Longrightarrow> det_step s s'"
| write_u32: "det_write_u32 region off v s = (r, s') \<Longrightarrow> det_step s s'"
| write_dma_address: "det_write_dma_address region low high i off s = (r, s') \<Longrightarrow> det_step s s'"
| alloc_dma: "det_alloc_dma sz align dir coh s = (r, s') \<Longrightarrow> det_step s s'"
| alloc_dma_constrained: "det_alloc_dma_constrained sz c dir coh s = (r, s') \<Longrightarrow> det_step s s'"
| dma_read: "det_dma_read i rg s = (r, s') \<Longrightarrow> det_step s s'"
| dma_write: "det_dma_write i rg bs s = (r, s') \<Longrightarrow> det_step s s'"
| cpu_dirty: "det_streaming_cpu_dirty i rg s = (r, s') \<Longrightarrow> det_step s s'"
| cpu_read: "det_streaming_cpu_read i rg s = (r, s') \<Longrightarrow> det_step s s'"
| read_once: "det_dma_read_once_u32 i off s = (r, s') \<Longrightarrow> det_step s s'"
| write_once: "det_dma_write_once_u32 i off v s = (r, s') \<Longrightarrow> det_step s s'"
| sync_for_cpu: "det_sync_for_cpu i rg s = (r, s') \<Longrightarrow> det_step s s'"
| sync_for_device: "det_sync_for_device i rg s = (r, s') \<Longrightarrow> det_step s s'"
| open_interrupt: "det_open_interrupt v s = (r, s') \<Longrightarrow> det_step s s'"
| wait_interrupt: "det_wait_interrupt i dl s = (r, s') \<Longrightarrow> det_step s s'"
| wait_any: "det_wait_any is dl s = (r, s') \<Longrightarrow> det_step s s'"
| disable_interrupt: "det_disable_interrupt i s = (r, s') \<Longrightarrow> det_step s s'"
| disable_vector: "det_disable_interrupt_vector v s = (r, s') \<Longrightarrow> det_step s s'"
| reset: "det_reset s = (r, s') \<Longrightarrow> det_step s s'"
| release_region: "det_step s (det_release_region i s)"
| release_dma: "det_step s (det_release_dma i s)"
| release_interrupt: "det_step s (det_release_interrupt i s)"
| script: "det_step s (s\<lparr>dt_device_model := map_option f (dt_device_model s)\<rparr>)"
| inject: "det_step s (s\<lparr>dt_failures := map_option g (dt_failures s)\<rparr>)"
| expect: "det_step s (s\<lparr>dt_ordering := map_option h (dt_ordering s)\<rparr>)"

lemmas arena_frames =
  det_open_region_arena det_read_u32_arena det_write_dma_address_arena det_dma_write_arena
  det_streaming_cpu_dirty_arena det_dma_write_once_arena det_sync_for_cpu_arena
  det_open_interrupt_arena det_wait_interrupt_arena det_wait_any_arena

text \<open>A step leaves the arena alone, or it is an allocation, a release or a reset.\<close>

lemma det_step_cases:
  assumes "det_step s s'" and "det_inv s"
  shows "arena s' = arena s \<or> (\<exists>sz a dir coh i. det_alloc_dma sz a dir coh s = (Ok i, s'))
    \<or> (\<exists>i. s' = det_release_dma i s) \<or> (\<exists>g. det_reset s = (Ok g, s'))"
  using assms
proof (induction rule: det_step.induct)
  case (alloc_dma sz align dir coh s r s')
  then show ?case using det_alloc_dma_not_Ok [of sz align dir coh s r s'] by blast
next
  case (alloc_dma_constrained sz c dir coh s r s')
  then show ?case
    using det_alloc_dma_constrained_cases [of sz c dir coh s r s']
      det_alloc_dma_not_Ok [of sz "dc_alignment c" dir coh s r s'] by blast
next
  case (dma_read i rg s r s')
  then show ?case
    using apply_then_reads_arena [of s _ r s'] unfolding det_dma_read_def by blast
next
  case (read_once i off s r s')
  then show ?case
    using apply_then_reads_arena [of s _ r s'] unfolding det_dma_read_once_u32_def by blast
next
  case (sync_for_device i rg s r s')
  then show ?case
    using det_sync_for_device_inv(1) [of i "fst rg" "snd rg" s r s'] by simp
next
  case (disable_interrupt i s r s')
  then show ?case
    using disable_failure_frame [of s r s'] by (simp add: det_disable_interrupt_def)
next
  case (disable_vector v s r s')
  then show ?case using det_disable_interrupt_vector_frame [of v s r s'] by blast
next
  case (reset s r s')
  show ?case by (rule det_reset_cases [OF reset.hyps]) (use reset.hyps in auto)
next
  case (release_dma s i)
  then show ?case by blast
next
  case (cpu_read i rg s r s')
  then show ?case by (simp add: det_streaming_cpu_read_def)
next
  case (write_u32 region off v s r s')
  then show ?case using det_write_u32_arena by blast
qed (rule disjI1, erule arena_frames
  | rule disjI1, simp add: det_release_region_def det_release_interrupt_def)+

lemma det_step_inv:
  assumes "det_step s s'" and "det_inv s"
  shows "det_inv s' \<and> unat (dt_generation s) \<le> unat (dt_generation s')"
proof -
  from det_step_cases [OF assms] consider (frame) "arena s' = arena s"
    | (alloc) sz a dir coh i where "det_alloc_dma sz a dir coh s = (Ok i, s')"
    | (release) i where "s' = det_release_dma i s" | (reset) g where "det_reset s = (Ok g, s')"
    by blast
  then show ?thesis
  proof cases
    case frame
    then show ?thesis using assms(2) by (simp add: det_inv_arena) (simp add: arena_def)
  next
    case alloc
    then show ?thesis using det_alloc_dma_inv [OF assms(2)] by auto
  next
    case release
    then show ?thesis using det_release_dma_inv [OF assms(2)] by (simp add: det_release_dma_def)
  next
    case reset
    show ?thesis
      by (rule det_reset_cases [OF reset]) (use assms(2) in \<open>auto intro: det_inv_no_dmas\<close>)
  qed
qed

lemma det_steps_inv:
  "det_step\<^sup>*\<^sup>* s s' \<Longrightarrow> det_inv s \<Longrightarrow>
     det_inv s' \<and> unat (dt_generation s) \<le> unat (dt_generation s')"
  by (induction rule: rtranclp_induct) (auto dest: det_step_inv intro: order_trans)

definition det_reachable :: "det \<Rightarrow> bool" where
  "det_reachable s \<longleftrightarrow> (\<exists>s0. det_initial s0 \<and> det_step\<^sup>*\<^sup>* s0 s)"

lemma det_initial_inv: "det_initial s \<Longrightarrow> det_inv s"
  by (simp add: det_initial_def det_inv_def)

lemma det_reachable_inv: "det_reachable s \<Longrightarrow> det_inv s"
  by (auto simp: det_reachable_def dest: det_steps_inv [OF _ det_initial_inv])

lemma det_default_reachable: "det_reachable det_default" "det_reachable noncoherent_default"
  by (auto simp: det_reachable_def det_initial_def det_default_def noncoherent_default_def
      intro!: exI)

text \<open>No two allocations hold the same address, so the search order does not matter.\<close>

lemma dma_holds_unique:
  assumes "det_inv s" "0 < n"
    and "map_of (dt_dmas s) i = Some d" "dma_holds address n d = Some r"
    and "map_of (dt_dmas s) j = Some e" "dma_holds address n e = Some q"
  shows "i = j"
proof (rule ccontr)
  assume "i \<noteq> j"
  then have "iova_range_disjoint d e"
    using assms(1) map_of_SomeD [OF assms(3)] map_of_SomeD [OF assms(5)]
    by (fastforce simp: det_inv_def)
  then show False
    using assms(2,4,6) by (auto simp: iova_range_disjoint_def dma_holds_Some word_le_nat_alt)
qed

lemma find_dma_None:
  "find_dma address n xs = None \<Longrightarrow> map_of xs i = Some d \<Longrightarrow> dma_holds address n d = None"
proof (induction xs)
  case (Cons p xs)
  then show ?case by (cases p) (auto split: option.splits if_splits)
qed simp

lemma find_dma_iff:
  assumes "det_inv s" "0 < n"
  shows "find_dma address n (dt_dmas s) = Some (i, r) \<longleftrightarrow>
    (\<exists>d. map_of (dt_dmas s) i = Some d \<and> dma_holds address n d = Some r)"
proof
  assume "find_dma address n (dt_dmas s) = Some (i, r)"
  then show "\<exists>d. map_of (dt_dmas s) i = Some d \<and> dma_holds address n d = Some r"
    using find_dma_Some assms(1) by (auto simp: det_inv_def)
next
  assume "\<exists>d. map_of (dt_dmas s) i = Some d \<and> dma_holds address n d = Some r"
  then obtain d where d: "map_of (dt_dmas s) i = Some d" "dma_holds address n d = Some r" by auto
  show "find_dma address n (dt_dmas s) = Some (i, r)"
  proof (cases "find_dma address n (dt_dmas s)")
    case None
    then show ?thesis using find_dma_None [OF None d(1)] d(2) by simp
  next
    case (Some p)
    obtain j q where p: "p = (j, q)" by (cases p)
    obtain e where e: "map_of (dt_dmas s) j = Some e" "dma_holds address n e = Some q"
      using find_dma_Some [of address n "dt_dmas s" j q] Some assms(1) by (auto simp: p det_inv_def)
    have "i = j" by (rule dma_holds_unique [OF assms d e])
    then show ?thesis using Some p d e by simp
  qed
qed

end
