(* ===== verification/Backend_Guarantees.thy ===== *)
theory Backend_Guarantees
  imports Deterministic_Backend
begin

text \<open>
  What the hardware interface guarantees to a driver on the deterministic backend: confinement
  of register access, revocation by reset, zeroed and aligned allocations, data round trips,
  the hand-over protocol of streaming buffers, and the edu DMA sequence
  (\<open>run_edu_sequence\<close> of \<open>crates/platform/hardware-backends/src/lib.rs\<close>) run to its end.
\<close>

section \<open>The edu sequence\<close>

text \<open>A handle dropped at the end of its scope, on every path.\<close>

definition dropping :: "('s \<Rightarrow> 's) \<Rightarrow> ('s, 'e, 'a) op \<Rightarrow> ('s, 'e, 'a) op" where
  "dropping f m s = (let (r, s') = m s in (r, f s'))"

definition expect_error ::
  "hw_error \<Rightarrow> ('s, hw_error, u32) op \<Rightarrow> ('s, hw_error, unit) op" where
  "expect_error e m s = (let (r, s') = m s in (if r \<noteq> Err e then Err DeviceFault else Ok (), s'))"

definition edu_set_address ::
  "('s, 'r, 'd, 'i) backend \<Rightarrow> 'r mmio_region \<Rightarrow> nat \<Rightarrow> nat \<Rightarrow> nat \<Rightarrow>
     ('d dma_buffer \<times> 's, hw_error, unit) op" where
  "edu_set_address B bar low high off =
     st_then (st_reads (\<lambda>ds. device_address_at B (fst ds) off (snd ds)))
       (\<lambda>address. on_backend (\<lambda>_. write_device_address B bar low (Some high) address))"

definition edu_poke ::
  "('s, 'r, 'd, 'i) backend \<Rightarrow> 'r mmio_region \<Rightarrow> nat \<Rightarrow> u32 \<Rightarrow> ('d dma_buffer \<times> 's, hw_error, unit) op"
where
  "edu_poke B bar off v = on_backend (\<lambda>_. write_u32 B bar off v)"

definition edu_wait ::
  "('s, 'r, 'd, 'i) backend \<Rightarrow> 'i interrupt \<Rightarrow> ('d dma_buffer \<times> 's, hw_error, unit) op" where
  "edu_wait B irq =
     st_then (on_backend (\<lambda>_. interrupt_wait_until B irq 0xffffffffffffffff))
       (\<lambda>ev. st_return (and_then (ok_or ev Timeout) (\<lambda>_. Ok ())))"

definition edu_transfer ::
  "('s, 'r, 'd, 'i) backend \<Rightarrow> 'r mmio_region \<Rightarrow> 'i interrupt \<Rightarrow>
     ('d dma_buffer \<times> 's, hw_error, bytes) op" where
  "edu_transfer B bar irq =
     st_then (edu_poke B bar 0x98 (1 OR 4)) (\<lambda>_.
     st_then (edu_wait B irq) (\<lambda>_.
     st_then (edu_poke B bar 0x64 0x100) (\<lambda>_.
     st_then (edu_poke B bar 0x80 0x40000) (\<lambda>_.
     st_then (edu_poke B bar 0x84 0) (\<lambda>_.
     st_then (edu_set_address B bar 0x88 0x8c 2048) (\<lambda>_.
     st_then (edu_poke B bar 0x98 (1 OR 2 OR 4)) (\<lambda>_.
     st_then (edu_wait B irq) (\<lambda>_.
     st_then (streaming_sync_for_cpu B 2048 4) (\<lambda>_.
     st_then (streaming_read B 2048 4) (\<lambda>destination.
     st_then (on_backend (\<lambda>_. expect_error OutOfBounds (read_u32 B bar (mr_len bar)))) (\<lambda>_.
     st_then (on_backend (\<lambda>_. device_reset B)) (\<lambda>_.
     st_then (on_backend (\<lambda>_. expect_error StaleHandle (read_u32 B bar 0))) (\<lambda>_.
       st_return (Ok destination))))))))))))))"

definition edu_with_buffer ::
  "('s, 'r, 'd, 'i) backend \<Rightarrow> device \<Rightarrow> 'r mmio_region \<Rightarrow> ('d dma_buffer \<times> 's, hw_error, bytes) op"
where
  "edu_with_buffer B dev bar =
     st_then (streaming_write B 0 [1, 2, 3, 4]) (\<lambda>_.
     st_then (streaming_sync_for_device B 0 4) (\<lambda>_.
     st_then (edu_set_address B bar 0x80 0x84 0) (\<lambda>_.
     st_then (edu_poke B bar 0x88 0x40000) (\<lambda>_.
     st_then (edu_poke B bar 0x8c 0) (\<lambda>_.
     st_then (edu_poke B bar 0x90 4) (\<lambda>_.
     st_then (on_backend (\<lambda>_. open_interrupt B dev 0)) (\<lambda>irq.
       dropping (\<lambda>ds. (fst ds, drop_interrupt B irq (snd ds))) (edu_transfer B bar irq))))))))"

definition run_edu_sequence ::
  "('s, 'r, 'd, 'i) backend \<Rightarrow> device \<Rightarrow> ('s, hw_error, bytes) op" where
  "run_edu_sequence B dev =
     st_then (open_region B dev 0) (\<lambda>bar. dropping (drop_region B bar)
       (st_then (alloc_streaming B dev Bidirectional 4096 4096) (\<lambda>dma s.
          let (r, (dma', s')) = edu_with_buffer B dev bar (dma, s)
          in (r, drop_dma B dma' s'))))"


lemmas edu_program_defs =
  run_edu_sequence_def edu_with_buffer_def edu_transfer_def edu_poke_def edu_wait_def
  edu_set_address_def dropping_def expect_error_def drop_region_def drop_dma_def
  drop_interrupt_def

lemmas api_defs =
  alloc_streaming_def alloc_streaming_with_constraints_def dma_constraints_new_def dma_allocate_def release_on_error_def
  open_region_def open_interrupt_def read_u32_def write_u32_def mapped_offset_def
  current_def checked_range_def write_device_address_def device_address_at_def
  streaming_write_def streaming_sync_for_device_def streaming_sync_for_cpu_def
  streaming_acquire_for_cpu_def streaming_refresh_for_cpu_def streaming_read_def
  buf_range_def dma_range_def backend_range_def shadow_put_def on_backend_def
  when_noncoherent_def interrupt_wait_until_def device_reset_def

lemmas det_op_defs =
  det_open_region_def with_probe_def det_read_u32_def det_write_u32_def failing_def
  register_default_def edu_write_def edu_to_memory_def edu_from_memory_def after_write_def
  scripted_response_def det_write_dma_address_def det_dma_device_address_def
  det_alloc_dma_constrained_def det_alloc_dma_def det_dma_read_def apply_device_writes_def
  cpu_accessible_def cpu_owned_def det_dma_write_def record_dma_write_def
  det_streaming_cpu_dirty_def det_streaming_cpu_read_def set_ownership_def
  det_sync_for_cpu_def det_sync_for_device_def det_open_interrupt_def det_wait_interrupt_def
  det_reset_def det_release_region_def det_release_dma_def det_release_interrupt_def
  device_accessible_def get_dma_def put_dma_def assoc_put_def assoc_del_def log_op_def

lemmas word_check_defs =
  checked_add_word_def checked_add_def checked_sub_def USIZE_MAX_def slice_def overwrite_def

lemma align_up_first: "align_up 0x10000000 4095 = Ok 0x10000000"
  by (simp add: align_up_def checked_add_word_def)

lemma is_power_of_two_4096: "is_power_of_two 4096"
  by (simp add: is_power_of_two.simps)

lemmas edu_run =
  edu_program_defs api_defs det_op_defs word_check_defs det_default_def align_up_first
  is_power_of_two_4096 Let_def list_all_iff

section \<open>Transfers on the backend\<close>

lemma window_det:
  assumes "window (det_mem s) b = Some w"
  shows "\<exists>d. map_of (dt_dmas s) (db_token b) = Some d \<and>
    db_offset b + length (db_bytes b) \<le> length (dm_bytes d) \<and>
    w = take (length (db_bytes b)) (drop (db_offset b) (dm_bytes d))"
  using assms by (auto simp: window_eq_Some det_mem_def)

lemma record_dma_write_model: "record_dma_write i r s = (x, s') \<Longrightarrow>
    dt_device_model s' = dt_device_model s \<and> dt_cache_coherent s' = dt_cache_coherent s"
  by (auto simp: record_dma_write_def split: res.splits option.splits)

lemma det_dma_write_eq:
  assumes "det_inv s" "map_of (dt_dmas s) i = Some d" "lo \<le> hi" "hi \<le> length (dm_bytes d)"
    and "length bs = hi - lo"
  shows "\<exists>s'. det_dma_write i (lo, hi) bs s = (Ok (), s') \<and> det_inv s' \<and>
    dt_generation s' = dt_generation s \<and> dt_device_model s' = dt_device_model s \<and>
    dt_cache_coherent s' = dt_cache_coherent s \<and>
    map_of (dt_dmas s') = (map_of (dt_dmas s))(i \<mapsto> d\<lparr>dm_bytes := overwrite lo bs (dm_bytes d)\<rparr>)"
proof -
  obtain s1 where s1: "record_dma_write i (lo, hi) s = (Ok (), s1)" "arena s1 = arena s"
    "dt_dmas s1 = dt_dmas s"
    using record_dma_write_inv [OF assms(1-4)] by auto
  let ?d = "d\<lparr>dm_bytes := overwrite lo bs (dm_bytes d)\<rparr>"
  have w: "det_dma_write i (lo, hi) bs s = (Ok (), put_dma i ?d s1)"
    using s1 assms by (simp add: det_dma_write_def get_dma_def)
  have "det_inv (put_dma i ?d s1)" "dt_generation s1 = dt_generation s"
    using det_dma_write_arena [OF w] s1(2) assms(1) by (simp_all add: det_inv_arena arena_def)
  then show ?thesis
    using w record_dma_write_model [OF s1(1)] s1(3) assms(2) by (simp add: put_dma_def)
qed

lemma det_dma_read_eq:
  assumes "dt_device_model s = None" "map_of (dt_dmas s) i = Some d" "dm_direction d \<noteq> ToDevice"
    and "dm_coherent d \<or> dt_cache_coherent s \<or> list_all cpu_owned (take (hi - lo) (drop lo (dm_ownership d)))"
    and "lo \<le> hi" "hi \<le> length (dm_bytes d)" "length (dm_ownership d) = length (dm_bytes d)"
  shows "det_dma_read i (lo, hi) s = (Ok (take (hi - lo) (drop lo (dm_bytes d))), s)"
  using assms
  by (auto simp: det_dma_read_def apply_device_writes_def get_dma_def cpu_accessible_def slice_def)

lemma coherent_round_trip_det:
  assumes "det_inv s" and "map_of (dt_dmas s) (db_token b) = Some d"
    and "dm_coherent d" "dm_direction d \<noteq> ToDevice" "dt_device_model s = None"
    and "db_generation b = dt_generation s"
    and "db_offset b + length (db_bytes b) \<le> length (dm_bytes d)"
    and "off + length bs \<le> length (db_bytes b)" "length (dm_bytes d) \<le> USIZE_MAX"
  shows "\<exists>b' s'. coherent_write det_backend off bs (b, s) = (Ok (), (b', s')) \<and>
    coherent_read det_backend off (length bs) (b', s') = (Ok bs, (b', s'))"
proof -
  let ?lo = "db_offset b + off" and ?b = "b\<lparr>db_bytes := overwrite off bs (db_bytes b)\<rparr>"
  have le: "?lo \<le> ?lo + length bs" "?lo + length bs \<le> length (dm_bytes d)"
    using assms(7,8) by auto
  obtain s' where w: "det_dma_write (db_token b) (?lo, ?lo + length bs) bs s = (Ok (), s')"
    "dt_generation s' = dt_generation s" "dt_device_model s' = None"
    "map_of (dt_dmas s') (db_token b) =
       Some (d\<lparr>dm_bytes := overwrite ?lo bs (dm_bytes d)\<rparr>)"
    using det_dma_write_eq [OF assms(1,2) le, of bs] assms(5) by auto
  have rg: "dma_range det_backend b off (length bs) s = Ok (off, off + length bs)"
    "dma_range det_backend ?b off (length bs) s' = Ok (off, off + length bs)"
    using assms(6-9) w(2) by (auto simp: dma_range_def)
  have cw: "coherent_write det_backend off bs (b, s) = (Ok (), (?b, s'))"
    using coherent_write_eq [OF rg(1), of "Ok ()" s'] w(1) by (simp add: backend_range_def add.assoc)
  have "det_dma_read (db_token b) (?lo, ?lo + length bs) s' = (Ok bs, s')"
    using det_dma_read_eq [OF w(3,4), of "?lo + length bs" ?lo] assms(3,4) le det_invD(2) [OF assms(1,2)]
    by (simp add: overwrite_same)
  then have "coherent_read det_backend off (length bs) (?b, s') =
      (Ok bs, (?b\<lparr>db_bytes := overwrite off bs (db_bytes ?b)\<rparr>, s'))"
    using coherent_read_eq [OF rg(2), of "Ok bs" s'] by (simp add: backend_range_def add.assoc)
  moreover have "overwrite off bs (overwrite off bs (db_bytes b)) = overwrite off bs (db_bytes b)"
    using assms(8) by (simp add: overwrite_def)
  ultimately show ?thesis
    using cw by (metis dma_buffer.surjective dma_buffer.update_convs(6) dma_buffer.select_convs(6))
qed


lemma device_write_lands:
  assumes "det_inv s" "bs \<noteq> []" "device_write address bs s = Ok s'"
  shows "\<exists>i d lo. map_of (dt_dmas s) i = Some d \<and> unat (dm_iova d) + lo = unat address \<and>
    lo + length bs \<le> length (dm_bytes d) \<and> dm_direction d \<noteq> ToDevice \<and>
    (dt_cache_coherent s \<or> dm_coherent d
      \<or> list_all (\<lambda>x. x = Device) (take (length bs) (drop lo (dm_ownership d)))) \<and>
    det_mem s' = (det_mem s)(i \<mapsto> overwrite lo bs (dm_bytes d)) \<and>
    (\<forall>j e. map_of (dt_dmas s) j = Some e \<longrightarrow> j \<noteq> i \<longrightarrow> dma_holds address (length bs) e = None)"
proof -
  from assms(3) obtain i r d where f: "find_dma address (length bs) (dt_dmas s) = Some (i, r)"
    and acc: "device_accessible i r s = Ok ()"
    and d: "map_of (dt_dmas s) i = Some d" "dm_direction d \<noteq> ToDevice"
    and s': "s' = put_dma i (d\<lparr>dm_bytes := overwrite (fst r) bs (dm_bytes d)\<rparr>) s"
    by (auto simp: device_write_def split: prod.splits if_splits)
  have h: "dma_holds address (length bs) d = Some r"
    using find_dma_Some [OF f] assms(1) d by (auto simp: det_inv_def)
  then have r: "unat (dm_iova d) + fst r = unat address" "snd r = fst r + length bs"
    "fst r + length bs \<le> length (dm_bytes d)"
    by (auto simp: dma_holds_Some word_le_nat_alt)
  have "dma_holds address (length bs) e = None" if "map_of (dt_dmas s) j = Some e" "j \<noteq> i" for j e
    using dma_holds_unique [OF assms(1) _ d(1) h that(1)] that(2) assms(2)
    by (cases "dma_holds address (length bs) e") auto
  moreover have "dt_cache_coherent s \<or> dm_coherent d
      \<or> list_all (\<lambda>x. x = Device) (take (length bs) (drop (fst r) (dm_ownership d)))"
    using acc d r by (auto simp: device_accessible_def get_dma_def split: if_splits)
  moreover have "det_mem s' = (det_mem s)(i \<mapsto> overwrite (fst r) bs (dm_bytes d))"
    using det_mem_put_dma [OF d(1)] by (simp add: s')
  ultimately show ?thesis
    using d r by blast
qed

lemma set_ownership_eq:
  "fst r \<le> snd r \<Longrightarrow> snd r \<le> length (dm_ownership d) \<Longrightarrow> set_ownership i r x d s =
     (Ok (), put_dma i (d\<lparr>dm_ownership :=
        overwrite (fst r) (replicate (snd r - fst r) x) (dm_ownership d)\<rparr>) s)"
  by (simp add: set_ownership_def)

lemma list_all_take_nonempty:
  "\<not> p x \<Longrightarrow> 0 < n \<Longrightarrow> \<not> list_all p (replicate n x)"
  by (cases n) auto

lemma det_sync_for_device_eq:
  assumes "det_sync_for_device i (lo, hi) s = (Ok (), s')" "map_of (dt_dmas s) i = Some d"
  shows "lo \<le> hi" "hi \<le> length (dm_ownership d)" "\<not> dm_coherent d"
    "map_of (dt_dmas s') i =
       Some (d\<lparr>dm_ownership := overwrite lo (replicate (hi - lo) Device) (dm_ownership d)\<rparr>)"
    "dt_cache_coherent s' = dt_cache_coherent s" "dt_device_model s' = dt_device_model s"
    "dt_generation s' = dt_generation s"
proof -
  have "\<not> failing fi_sync_for_device s \<and> \<not> dm_coherent d \<and> lo \<le> hi \<and> hi \<le> length (dm_ownership d) \<and>
    s' = log_op (SyncForDevice i (lo, hi)) (put_dma i (d\<lparr>dm_ownership :=
        overwrite lo (replicate (hi - lo) Device) (dm_ownership d)\<rparr>) s)"
    using assms
    by (auto simp: det_sync_for_device_def get_dma_def slice_def set_ownership_def split: if_splits)
  then show "lo \<le> hi" "hi \<le> length (dm_ownership d)" "\<not> dm_coherent d"
    "map_of (dt_dmas s') i =
       Some (d\<lparr>dm_ownership := overwrite lo (replicate (hi - lo) Device) (dm_ownership d)\<rparr>)"
    "dt_cache_coherent s' = dt_cache_coherent s" "dt_device_model s' = dt_device_model s"
    "dt_generation s' = dt_generation s"
    using assms(2) by (auto simp: log_op_def put_dma_def)
qed

lemma device_owned_blocks_cpu:
  assumes "map_of (dt_dmas s) i = Some d" "\<not> dt_cache_coherent s" "\<not> dm_coherent d"
    and "take n (drop lo (dm_ownership d)) = replicate n Device"
    and "lo + n \<le> length (dm_ownership d)" "0 < n"
  shows "det_streaming_cpu_read i (lo, lo + n) s = (Err DeviceFault, s)"
    "device_accessible i (lo, lo + n) s = Ok ()"
  using assms list_all_take_nonempty [of cpu_owned Device n]
  by (simp_all add: det_streaming_cpu_read_def cpu_accessible_def device_accessible_def get_dma_def
      slice_def cpu_owned_def list_all_iff)


text \<open>A scripted device write changes bytes, never who owns them.\<close>

definition dma_meta :: "dma \<Rightarrow> dma_ownership list \<times> bool \<times> dma_direction" where
  "dma_meta d = (dm_ownership d, dm_coherent d, dm_direction d)"

lemma device_write_meta:
  "device_write address bs s = Ok s' \<Longrightarrow>
     map_option dma_meta (map_of (dt_dmas s') i) = map_option dma_meta (map_of (dt_dmas s) i) \<and>
     dt_cache_coherent s' = dt_cache_coherent s"
  by (auto simp: device_write_def put_dma_def dma_meta_def split: prod.splits if_splits)

lemma apply_device_writes_from_meta:
  "apply_device_writes_from md ws s = (r, s') \<Longrightarrow>
     map_option dma_meta (map_of (dt_dmas s') i) = map_option dma_meta (map_of (dt_dmas s) i) \<and>
     dt_cache_coherent s' = dt_cache_coherent s"
proof (induction md ws s rule: apply_device_writes_from.induct)
  case (2 md address bs rest s)
  let ?s = "s\<lparr>dt_device_model := Some (md\<lparr>md_dma_writes := rest\<rparr>)\<rparr>"
  show ?case
  proof (cases "device_write address bs ?s")
    case (Ok t)
    then have "apply_device_writes_from md rest t = (r, s')"
      using 2(2) by simp
    then show ?thesis
      using 2(1) [OF refl Ok] device_write_meta [OF Ok, of i] by simp
  qed (use 2(2) in auto)
qed auto

lemma apply_device_writes_meta:
  assumes "apply_device_writes s = (r, s')"
  shows "map_option dma_meta (map_of (dt_dmas s') i) = map_option dma_meta (map_of (dt_dmas s) i)"
    "dt_cache_coherent s' = dt_cache_coherent s"
  using assms apply_device_writes_from_meta [of _ _ s r s' i]
  by (auto simp: apply_device_writes_def split: option.splits)

lemma det_sync_for_cpu_eq:
  assumes "det_sync_for_cpu i (lo, hi) s = (Ok (), s')"
  shows "\<exists>d. map_of (dt_dmas s) i = Some d \<and> lo \<le> hi \<and> hi \<le> length (dm_ownership d) \<and>
    \<not> dm_coherent d \<and> dm_direction d \<noteq> ToDevice \<and>
    map_of (dt_dmas s') i =
       Some (d\<lparr>dm_ownership := overwrite lo (replicate (hi - lo) Cpu) (dm_ownership d)\<rparr>) \<and>
    dt_cache_coherent s' = dt_cache_coherent s \<and> dt_generation s' = dt_generation s \<and>
    arena s' = arena s"
proof -
  from assms obtain d where d: "map_of (dt_dmas s) i = Some d"
    by (cases "map_of (dt_dmas s) i") (auto simp: det_sync_for_cpu_def get_dma_def)
  have "\<not> dm_coherent d \<and> dm_direction d \<noteq> ToDevice \<and> lo \<le> hi \<and> hi \<le> length (dm_ownership d) \<and>
    s' = log_op (SyncForCpu i (lo, hi)) (put_dma i (d\<lparr>dm_ownership :=
        overwrite lo (replicate (hi - lo) Cpu) (dm_ownership d)\<rparr>) s)"
    using assms d
    by (auto simp: det_sync_for_cpu_def get_dma_def slice_def set_ownership_def split: if_splits)
  then show ?thesis
    using d det_sync_for_cpu_arena [OF assms] by (auto simp: log_op_def put_dma_def)
qed

lemma cpu_owned_blocks_device:
  assumes "map_of (dt_dmas s) i = Some d" "\<not> dt_cache_coherent s" "\<not> dm_coherent d"
    and "take n (drop lo (dm_ownership d)) = replicate n Cpu"
    and "lo + n \<le> length (dm_ownership d)" "0 < n"
  shows "det_streaming_cpu_read i (lo, lo + n) s = (Ok (), s)"
    "device_accessible i (lo, lo + n) s = Err DeviceFault"
  using assms list_all_take_nonempty [of "\<lambda>x. x = Device" Cpu n]
  by (simp_all add: det_streaming_cpu_read_def cpu_accessible_def device_accessible_def get_dma_def
      slice_def cpu_owned_def list_all_iff)

lemma streaming_sync_for_device_Ok:
  assumes "streaming_sync_for_device B off n (b, s) = (Ok (), (b', s'))"
    and "\<not> be_is_cache_coherent B s"
    and "\<And>r t. be_dma_write B (db_token b) (db_offset b + off, db_offset b + off + n)
           (take n (drop off (db_bytes b))) s = (r, t) \<Longrightarrow> \<not> be_is_cache_coherent B t"
  shows "\<exists>t. dma_range B b off n s = Ok (off, off + n) \<and> b' = b \<and>
    be_dma_write B (db_token b) (db_offset b + off, db_offset b + off + n)
      (take n (drop off (db_bytes b))) s = (Ok (), t) \<and>
    be_sync_for_device B (db_token b) (db_offset b + off, db_offset b + off + n) t = (Ok (), s')"
proof -
  from assms(1) obtain rg where "dma_range B b off n s = Ok rg"
    by (auto simp: streaming_sync_for_device_def st_then_eq_Ok buf_range_def)
  then have rg: "dma_range B b off n s = Ok (off, off + n)"
    using dma_range_Ok by metis
  obtain r t where w: "be_dma_write B (db_token b) (db_offset b + off, db_offset b + off + n)
      (take n (drop off (db_bytes b))) s = (r, t)" by fastforce
  obtain y u where y:
    "be_sync_for_device B (db_token b) (db_offset b + off, db_offset b + off + n) t = (y, u)"
    by fastforce
  show ?thesis
    using assms(1) assms(3) [OF w] rg w y
    by (cases r) (auto simp: streaming_sync_for_device_def buf_range_def on_backend_def
        when_noncoherent_def backend_range_def add.assoc st_then_def)
qed

lemma streaming_sync_for_cpu_Ok:
  assumes "streaming_sync_for_cpu B off n (b, s) = (Ok (), (b', s'))"
    and "\<not> be_is_cache_coherent B s"
  shows "\<exists>t out. off + n \<le> length (db_bytes b) \<and> off + n \<le> USIZE_MAX \<and>
    be_sync_for_cpu B (db_token b) (db_offset b + off, db_offset b + off + n) s = (Ok (), t) \<and>
    be_dma_read B (db_token b) (db_offset b + off, db_offset b + off + n) t = (Ok out, s') \<and>
    b' = b\<lparr>db_bytes := overwrite off out (db_bytes b)\<rparr>"
proof -
  obtain r t where y:
    "be_sync_for_cpu B (db_token b) (db_offset b + off, db_offset b + off + n) s = (r, t)"
    by fastforce
  obtain x u where x:
    "be_dma_read B (db_token b) (db_offset b + off, db_offset b + off + n) t = (x, u)"
    by fastforce
  from assms(1) obtain rg where "dma_range B b off n s = Ok rg"
    by (auto simp: streaming_sync_for_cpu_def streaming_acquire_for_cpu_def st_then_eq_Ok buf_range_def)
  then have rg: "dma_range B b off n s = Ok (off, off + n)" "off + n \<le> length (db_bytes b)"
    "off + n \<le> USIZE_MAX"
    by (auto simp: dma_range_def)
  have a: "streaming_acquire_for_cpu B off n (b, s) = (r, (b, t))"
    using rg(1) y assms(2) by (simp add: streaming_acquire_for_cpu_def buf_range_def
        when_noncoherent_def on_backend_def backend_range_def add.assoc)
  then have r: "r = Ok ()" and f: "streaming_refresh_for_cpu B off n (b, t) = (Ok (), (b', s'))"
    using assms(1) by (cases r; simp add: streaming_sync_for_cpu_def)+
  from f obtain rg2 where "dma_range B b off n t = Ok rg2"
    by (auto simp: streaming_refresh_for_cpu_def st_then_eq_Ok buf_range_def)
  then have "dma_range B b off n t = Ok (off, off + n)"
    using dma_range_Ok by metis
  then show ?thesis
    using f r y x rg
    by (cases x) (auto simp: streaming_refresh_for_cpu_def buf_range_def on_backend_def
        backend_range_def shadow_put_def add.assoc)
qed


section \<open>Properties\<close>

text \<open>C1: register access is confined. Whatever sub-windows and offset translations a driver makes
  of a region handle, a read, a write or a programmed device address either fails and changes
  nothing, or is one call of the backend with that region's token at offsets inside the window
  of the handle, and a programmed address belongs to a current buffer of the same device.\<close>

theorem register_access_confined:
  assumes "view_of B m v"
  shows "((\<exists>e. read_u32 B v off s = (Err e, s))
      \<or> (\<exists>a. in_window m a \<and> read_u32 B v off s = be_read_u32 B (mr_token m) a s))
    \<and> ((\<exists>e. write_u32 B v off x s = (Err e, s))
      \<or> (\<exists>a. in_window m a \<and> write_u32 B v off x s = be_write_u32 B (mr_token m) a x s))
    \<and> ((\<exists>e. write_device_address B v low high da s = (Err e, s))
      \<or> (\<exists>a h. in_window m a \<and> (\<forall>b. h = Some b \<longrightarrow> in_window m b)
         \<and> db_generation (da_dma da) = be_generation B s \<and> db_shared (da_dma da) = mr_shared m
         \<and> write_device_address B v low high da s =
             be_write_dma_address B (mr_token m) a h (db_token (da_dma da)) (da_offset da) s))"
  using read_u32_confined [OF assms] write_u32_confined [OF assms]
    write_device_address_confined [OF assms] by blast

definition sample_region :: "u8 mmio_region" where
  "sample_region = \<lparr>mr_shared = 0, mr_token = 0, mr_generation = 1, mr_offset = 0x100,
     mr_len = 0x40, mr_mapper = None\<rparr>"

definition sample_view :: "u8 mmio_region" where
  "sample_view = sample_region\<lparr>mr_offset := 0x110, mr_len := 0x10\<rparr>"

theorem register_access_confined_witness:
  "view_of det_backend sample_region sample_view \<and>
   (\<exists>a. in_window sample_region a \<and>
      read_u32 det_backend sample_view 4 det_default = be_read_u32 det_backend 0 a det_default)"
proof -
  have "mmio_slice det_backend sample_region 0x10 0x10 det_default = Ok sample_view"
    by (simp add: mmio_slice_def sample_region_def sample_view_def current_def det_default_def
        checked_range_def checked_add_def USIZE_MAX_def)
  then have v: "view_of det_backend sample_region sample_view"
    by (rule view_of.slice [OF view_of.whole])
  have "fst (read_u32 det_backend sample_view 4 det_default) = Ok 0"
    by (simp add: read_u32_def sample_view_def sample_region_def mapped_offset_def current_def
        det_default_def checked_range_def checked_add_def USIZE_MAX_def det_read_u32_def
        register_default_def)
  then show ?thesis
    using v register_access_confined [OF v, of 4 det_default 0 0 None undefined]
    by (auto simp: sample_region_def)
qed

lemma reset_then_steps_generation:
  assumes "det_reachable s" "device_reset det_backend s = (Ok g, s1)" "det_step\<^sup>*\<^sup>* s1 s2"
  shows "dt_generation s2 \<noteq> dt_generation s"
proof -
  have r: "det_reset s = (Ok g, s1)"
    using assms(2) by (simp add: device_reset_def)
  have "det_inv s1 \<and> unat (dt_generation s) < unat (dt_generation s1)"
    by (rule det_reset_cases [OF r])
      (use det_reachable_inv [OF assms(1)] in \<open>auto intro: det_inv_no_dmas\<close>)
  then show ?thesis
    using det_steps_inv [OF assms(3)] by auto
qed

text \<open>C2: reset revokes. Once a reset has succeeded, every handle issued before it is refused in
  every state reached afterwards, by every operation and without an effect: register access,
  programming the address of an old buffer through any region, every transfer of a coherent or
  a streaming buffer, and waiting for or disabling an interrupt.\<close>

theorem reset_revokes_handles:
  assumes "det_reachable s" and "device_reset det_backend s = (Ok g, s1)"
    and "det_step\<^sup>*\<^sup>* s1 s2"
    and "mr_generation m = dt_generation s" and "db_generation b = dt_generation s"
    and "in_generation i = dt_generation s"
  shows "read_u32 det_backend m off s2 = (Err StaleHandle, s2)
    \<and> write_u32 det_backend m off x s2 = (Err StaleHandle, s2)
    \<and> (\<exists>e. write_device_address det_backend m' low high
             \<lparr>da_dma = b, da_offset = k, da_bits = bits\<rparr> s2 = (Err e, s2))
    \<and> coherent_write det_backend off bs (b, s2) = (Err StaleHandle, (b, s2))
    \<and> coherent_read det_backend off n (b, s2) = (Err StaleHandle, (b, s2))
    \<and> (\<exists>e. coherent_write_pod det_backend al off bs (b, s2) = (Err e, (b, s2)))
    \<and> (\<exists>e. coherent_read_pod det_backend sz al off (b, s2) = (Err e, (b, s2)))
    \<and> (\<exists>e. coherent_read_once det_backend off (b, s2) = (Err e, (b, s2)))
    \<and> (\<exists>e. coherent_write_once det_backend off x (b, s2) = (Err e, (b, s2)))
    \<and> streaming_write det_backend off bs (b, s2) = (Err StaleHandle, (b, s2))
    \<and> streaming_sync_for_device det_backend off n (b, s2) = (Err StaleHandle, (b, s2))
    \<and> streaming_sync_for_cpu det_backend off n (b, s2) = (Err StaleHandle, (b, s2))
    \<and> streaming_read det_backend off n (b, s2) = (Err StaleHandle, (b, s2))
    \<and> streaming_prepare_for_device det_backend off n (b, s2) = (Err StaleHandle, (b, s2))
    \<and> (\<exists>e. streaming_write_pod det_backend al off bs (b, s2) = (Err e, (b, s2)))
    \<and> (\<exists>e. streaming_write_once det_backend off x (b, s2) = (Err e, (b, s2)))
    \<and> (\<exists>e. streaming_read_pod det_backend sz al off (b, s2) = (Err e, (b, s2)))
    \<and> (\<exists>e. streaming_read_once det_backend off (b, s2) = (Err e, (b, s2)))
    \<and> interrupt_wait_until det_backend i deadline s2 = (Err StaleHandle, s2)
    \<and> interrupt_disable det_backend i s2 = (Err StaleHandle, s2)"
proof -
  have ne: "dt_generation s2 \<noteq> dt_generation s"
    by (rule reset_then_steps_generation [OF assms(1-3)])
  have buf: "buf_range det_backend p q (b, s2) = (Err StaleHandle, (b, s2))" for p q
    using ne assms(5) by (intro buf_range_stale) simp
  have pod: "\<exists>e. pod_range det_backend p q r (b, s2) = (Err e, (b, s2))" for p q r
    using ne assms(5) by (intro pod_range_stale) simp
  have reg: "mapped_offset det_backend m p q s2 = Err StaleHandle" for p q
    using ne assms(4) by (intro mapped_offset_stale) simp
  have addr: "\<exists>e. write_device_address det_backend m' low high
             \<lparr>da_dma = b, da_offset = k, da_bits = bits\<rparr> s2 = (Err e, s2)"
    using write_device_address_confined [OF view_of.whole, of det_backend m' low high
        "\<lparr>da_dma = b, da_offset = k, da_bits = bits\<rparr>" s2] ne assms(5) by auto
  have pods: "\<exists>e. st_then (pod_range det_backend p q r) f (b, s2) = (Err e, (b, s2))"
    for p q r and f :: "range \<Rightarrow> (u64 dma_buffer \<times> det, hw_error, 'z) op"
    using pod [of p q r] by auto
  have irq: "current det_backend s2 (in_generation i) = Err StaleHandle"
    using ne assms(6) by (simp add: current_def)
  show ?thesis
    by (intro conjI addr)
      (simp_all add: transfer_defs pod_transfer_defs pods buf reg irq read_u32_def write_u32_def
        interrupt_wait_until_def interrupt_disable_def)
qed

definition sample_buffer :: "u64 dma_buffer" where
  "sample_buffer = \<lparr>db_shared = 0, db_token = 1, db_generation = 1, db_offset = 0,
     db_alignment = 4096, db_bytes = replicate 4096 0\<rparr>"

theorem reset_revokes_handles_witness:
  "det_reachable det_default \<and> fst (device_reset det_backend det_default) = Ok 2 \<and>
   read_u32 det_backend sample_region 0 (snd (device_reset det_backend det_default)) =
     (Err StaleHandle, snd (device_reset det_backend det_default))"
proof -
  have r: "device_reset det_backend det_default = (Ok 2, det_default\<lparr>dt_generation := 2\<rparr>)"
    by (simp add: device_reset_def det_reset_def det_default_def checked_add_word_def)
  have "read_u32 det_backend sample_region 0 (det_default\<lparr>dt_generation := 2\<rparr>) =
      (Err StaleHandle, det_default\<lparr>dt_generation := 2\<rparr>)"
    using reset_revokes_handles [OF det_default_reachable(1) r rtranclp.rtrancl_refl,
        of sample_region sample_buffer "\<lparr>in_shared = 0, in_token = 0, in_generation = 1\<rparr>"]
    by (simp add: sample_region_def sample_buffer_def det_default_def)
  then show ?thesis
    using r det_default_reachable(1) by simp
qed


lemma allocated_address:
  assumes "det_inv s" "det_alloc_dma_constrained sz c dir coh s = (Ok i, s')"
    and "is_power_of_two (dc_alignment c)" "dc_alignment c \<le> USIZE_MAX"
  shows "\<exists>d. map_of (dt_dmas s') i = Some d \<and> length (dm_bytes d) = sz \<and>
    unat (dm_iova d) mod dc_alignment c = 0 \<and>
    unat (dm_iova d) + sz \<le> unat (dc_max_device_address c) + 1"
proof -
  have a: "det_alloc_dma sz (dc_alignment c) dir coh s = (Ok i, s')" "sz > 0" "dc_alignment c > 0"
    and last: "\<exists>start. align_up (dt_next s) (of_nat (dc_alignment c - 1)) = Ok start \<and>
       unat start + unat (of_nat sz - 1 :: u64) < 2 ^ 64 \<and>
       start + (of_nat sz - 1) \<le> dc_max_device_address c"
    using det_alloc_dma_constrained_cases [OF assms(2)] by auto
  have m: "of_nat (dc_alignment c - 1) = (of_nat (dc_alignment c) - 1 :: u64)"
    using a(3) by (simp add: of_nat_diff)
  obtain start where start: "align_up (dt_next s) (of_nat (dc_alignment c) - 1) = Ok start"
    "dt_dmas s' = (i, fresh_dma sz start dir coh) # dt_dmas s"
    using det_alloc_dma_inv(4) [OF assms(1) a(1)] by auto
  have sz: "sz \<le> 1048576"
    using a(1) by (auto simp: det_alloc_dma_def split: if_splits)
  have n: "unat (of_nat sz - 1 :: u64) = sz - 1"
  proof -
    have "(of_nat sz - 1 :: u64) = of_nat (sz - 1)"
      using a(2) by (simp add: of_nat_diff)
    then show ?thesis
      using sz by (simp add: unat_of_nat)
  qed
  from last m start(1) n have "unat start + (sz - 1) < 2 ^ 64"
    "start + (of_nat sz - 1) \<le> dc_max_device_address c" by auto
  then have "unat start + (sz - 1) \<le> unat (dc_max_device_address c)"
    using n by (simp add: word_le_nat_alt unat_word_ariths)
  then show ?thesis
    using start align_up_aligned [OF start(1) assms(3,4)] a(2) by (simp add: fresh_dma_def)
qed

text \<open>C3: an allocation is fresh, zeroed, aligned and within its constraints. A successful
  allocation returns a token that was not live, leaves every other allocation as it was, shows
  zeros to the CPU and to the device, and its device addresses are aligned as requested and at
  most the requested maximum.\<close>

theorem allocation_fresh_zeroed:
  assumes "det_reachable s" and "dc_alignment c \<le> USIZE_MAX"
    and "dma_allocate det_backend dev sz c dir coh s = (Ok b, s')"
  shows "det_mem s (db_token b) = None
    \<and> det_mem s' = (det_mem s)(db_token b \<mapsto> replicate sz 0)
    \<and> db_bytes b = replicate sz 0 \<and> db_generation b = dt_generation s'
    \<and> (\<exists>base. det_dma_device_address s' (db_token b) 0 = Ok base \<and>
         unat base mod dc_alignment c = 0 \<and>
         unat base + sz \<le> unat (dc_max_device_address c) + 1)"
proof -
  note inv = det_reachable_inv [OF assms(1)]
  note Z = det.allocate_zeroed [OF inv assms(3)]
  from dma_allocate_Ok [OF assms(3)] obtain i s1 s2
    where pw: "is_power_of_two (dc_alignment c)"
    and "be_alloc_dma_constrained det_backend sz c dir coh s = (Ok i, s1)"
    and w: "release_on_error det_backend i (be_dma_write det_backend i (0, sz) (replicate sz 0)) s1
      = (Ok (), s2)"
    and y: "release_on_error det_backend i (\<lambda>s. if \<not> coh \<and> \<not> be_is_cache_coherent det_backend s
           then be_sync_for_device det_backend i (0, sz) s else (Ok (), s)) s2 = (Ok (), s')"
    and b: "b = \<lparr>db_shared = dev_shared dev, db_token = i, db_generation = be_generation det_backend s,
      db_offset = 0, db_alignment = dc_alignment c, db_bytes = replicate sz 0\<rparr>"
    by blast
  then have al: "det_alloc_dma_constrained sz c dir coh s = (Ok i, s1)" and i: "db_token b = i"
    by simp_all
  obtain d where d: "map_of (dt_dmas s1) i = Some d" "unat (dm_iova d) mod dc_alignment c = 0"
    "unat (dm_iova d) + sz \<le> unat (dc_max_device_address c) + 1"
    using allocated_address [OF inv al pw assms(2)] by auto
  have "arena s2 = arena s1"
    using w by (auto simp: release_on_error_def split: prod.splits res.splits
        dest: det_dma_write_arena)
  moreover have "arena s' = arena s2"
    using y by (auto simp: release_on_error_def split: prod.splits res.splits if_splits
        dest: det_sync_for_device_inv(1))
  ultimately obtain d' where d': "map_of (dt_dmas s') i = Some d'" "dma_shape d' = dma_shape d"
    using arena_lookup [of s' s1 i d] d(1) by auto
  have "det_dma_device_address s' i 0 = Ok (dm_iova d)"
    using d' unsigned_less [where w = "dm_iova d" and 'a = nat]
    by (simp add: det_dma_device_address_def get_dma_def checked_add_word_def dma_shape_def)
  then show ?thesis
    using Z d i by auto
qed

theorem allocation_fresh_zeroed_witness:
  "det_reachable det_default \<and> (\<exists>b s'.
     dma_allocate det_backend \<lparr>dev_shared = 0\<rparr> 16 (dma_constraints_new 4096) FromDevice True det_default
       = (Ok b, s') \<and> det_mem s' (db_token b) = Some (replicate 16 0))"
proof -
  let ?run = "dma_allocate det_backend \<lparr>dev_shared = 0\<rparr> 16 (dma_constraints_new 4096) FromDevice
    True det_default"
  have ok: "\<exists>b. fst ?run = Ok b"
    by (simp add: edu_run)
  then obtain b s' where run: "?run = (Ok b, s')"
    by (cases ?run) auto
  have "det_mem s' (db_token b) = Some (replicate 16 0)"
    using allocation_fresh_zeroed [OF det_default_reachable(1) _ run]
    by (simp add: dma_constraints_new_def USIZE_MAX_def)
  then show ?thesis
    using run det_default_reachable(1) by auto
qed

text \<open>C4: a failed allocation leaks nothing. When an allocation fails, be it in the backend, while
  it is zeroed or while it is handed to the device, the live allocations and their contents are
  those of before.\<close>

theorem failed_allocation_no_leak:
  assumes "det_reachable s" and "dma_allocate det_backend dev sz c dir coh s = (Err e, s')"
  shows "det_mem s' = det_mem s \<and> det_inv s'"
  using det.allocate_no_leak [OF det_reachable_inv [OF assms(1)] assms(2)] by blast

definition failing_default :: det where
  "failing_default =
     noncoherent_default\<lparr>dt_failures := Some (fail_next_sync_for_device no_failures)\<rparr>"

theorem failed_allocation_no_leak_witness:
  "det_reachable failing_default \<and>
   fst (dma_allocate det_backend \<lparr>dev_shared = 0\<rparr> 16 (dma_constraints_new 4096) FromDevice False
     failing_default) = Err DeviceFault \<and>
   det_mem (snd (dma_allocate det_backend \<lparr>dev_shared = 0\<rparr> 16 (dma_constraints_new 4096) FromDevice
     False failing_default)) = det_mem failing_default"
proof -
  let ?run = "dma_allocate det_backend \<lparr>dev_shared = 0\<rparr> 16 (dma_constraints_new 4096) FromDevice
    False failing_default"
  have "det_initial failing_default"
    by (simp add: det_initial_def failing_default_def noncoherent_default_def det_default_def)
  then have r: "det_reachable failing_default"
    by (auto simp: det_reachable_def)
  have e: "fst ?run = Err DeviceFault"
    by (simp add: edu_run failing_default_def noncoherent_default_def fail_next_sync_for_device_def
        no_failures_def)
  then have "?run = (Err DeviceFault, snd ?run)"
    by (metis prod.collapse)
  then show ?thesis
    using r e failed_allocation_no_leak [OF r] by blast
qed



definition sample_dma :: dma where
  "sample_dma = \<lparr>dm_bytes = replicate 16 0xa5, dm_iova = 0x10000000, dm_direction = FromDevice,
     dm_coherent = True, dm_ownership = replicate 16 Cpu\<rparr>"

definition sample_state :: det where
  "sample_state = det_default\<lparr>dt_dmas := [(1, sample_dma)], dt_next := 0x10000010, dt_next_id := 2\<rparr>"

lemma sample_state_reachable: "det_reachable sample_state"
proof -
  have "det_alloc_dma 16 16 FromDevice True det_default = (Ok 1, sample_state)"
    by (simp add: det_alloc_dma_def with_probe_def det_default_def align_up_def checked_add_word_def
        assoc_put_def sample_state_def sample_dma_def)
  then have "det_step det_default sample_state"
    by (rule det_step.alloc_dma)
  moreover have "det_initial det_default"
    by (simp add: det_initial_def det_default_def)
  ultimately show ?thesis
    unfolding det_reachable_def by blast
qed


text \<open>C6: splitting a buffer partitions it. The two halves are disjoint, together they are the
  buffer for the CPU and for the device, and when the buffer starts at an aligned device
  address both halves do.\<close>

theorem split_partitions:
  assumes "split_at B b off s = Ok (l, r)" and "window mem b = Some w"
  shows "disjoint_buffers l r \<and> db_bytes l @ db_bytes r = db_bytes b \<and>
    (\<exists>u v. window mem l = Some u \<and> window mem r = Some v \<and> u @ v = w \<and> u \<noteq> [] \<and> v \<noteq> []) \<and>
    (\<forall>base. (base + db_offset b) mod db_alignment b = 0 \<longrightarrow>
       (base + db_offset l) mod db_alignment l = 0 \<and> (base + db_offset r) mod db_alignment r = 0)"
proof -
  note S = split_at_Ok [OF assms(1)]
  have w: "length w = length (db_bytes b)"
    using assms(2) by (auto simp: window_eq_Some)
  have "(base + db_offset r) mod db_alignment r = 0" if "(base + db_offset b) mod db_alignment b = 0"
    for base
    using that S(4,9,11) by (metis add.assoc add_0 mod_add_left_eq)
  then show ?thesis
    using split_at_disjoint [OF assms(1)] split_at_window [OF assms] S w by auto
qed

theorem split_partitions_witness:
  "\<exists>l r. split_at det_backend (sample_buffer\<lparr>db_bytes := replicate 16 0, db_alignment := 4\<rparr>) 4 sample_state
     = Ok (l, r) \<and> disjoint_buffers l r"
proof -
  let ?b = "sample_buffer\<lparr>db_bytes := replicate 16 0, db_alignment := 4\<rparr>"
  have "\<exists>l r. split_at det_backend ?b 4 sample_state = Ok (l, r)"
    by (simp add: split_at_def current_def sample_buffer_def sample_state_def det_default_def)
  then obtain l r where s: "split_at det_backend ?b 4 sample_state = Ok (l, r)" by auto
  have "window (det_mem sample_state) ?b = Some (replicate 16 0xa5)"
    by (simp add: window_def det_mem_def sample_state_def sample_dma_def sample_buffer_def)
  from split_partitions [OF s this] s show ?thesis by auto
qed

text \<open>C7: in every reachable state of the backend the live allocations have distinct tokens, lie
  below the next free address without wrapping around, and no two of them share a device
  address.\<close>

theorem reachable_arena:
  assumes "det_reachable s"
    and "(i, d) \<in> set (dt_dmas s)" and "(j, e) \<in> set (dt_dmas s)" and "i \<noteq> j"
  shows "distinct (map fst (dt_dmas s))
    \<and> unat (dm_iova d) + length (dm_bytes d) \<le> unat (dt_next s)
    \<and> {unat (dm_iova d) ..< unat (dm_iova d) + length (dm_bytes d)}
        \<inter> {unat (dm_iova e) ..< unat (dm_iova e) + length (dm_bytes e)} = {}"
proof -
  note inv = det_reachable_inv [OF assms(1)]
  have "iova_range_disjoint d e"
    using inv assms(2-4) by (fastforce simp: det_inv_def)
  then show ?thesis
    using inv assms(2) by (auto simp: det_inv_def iova_range_disjoint_def)
qed

definition second_state :: det where
  "second_state = snd (det_alloc_dma 8 4096 ToDevice True sample_state)"

theorem reachable_arena_witness:
  "\<exists>d e. dt_dmas second_state = [(2, d), (1, e)] \<and>
     {unat (dm_iova d) ..< unat (dm_iova d) + length (dm_bytes d)}
       \<inter> {unat (dm_iova e) ..< unat (dm_iova e) + length (dm_bytes e)} = {}"
proof -
  obtain r where "det_alloc_dma 8 4096 ToDevice True sample_state = (r, second_state)"
    unfolding second_state_def by (metis prod.collapse)
  then have "det_step sample_state second_state"
    by (rule det_step.alloc_dma)
  then have r: "det_reachable second_state"
    using sample_state_reachable unfolding det_reachable_def
    by (meson rtranclp.rtrancl_into_rtrancl)
  have "\<exists>d. dt_dmas second_state = [(2, d), (1, sample_dma)]"
    by (simp add: second_state_def det_alloc_dma_def with_probe_def sample_state_def det_default_def
        align_up_def checked_add_word_def assoc_put_def)
  then obtain d where d: "dt_dmas second_state = [(2, d), (1, sample_dma)]" by auto
  from reachable_arena [OF r, of 2 d 1 sample_dma] d show ?thesis by auto
qed


text \<open>C8: device DMA is confined. A write by the modelled device lands inside exactly one live
  allocation, the only one that holds the address range; that allocation is not one the device
  may only read; on a non-coherent host every byte of the range was handed to the device; and
  no other allocation changes.\<close>

theorem device_write_confined:
  assumes "det_reachable s" and "bs \<noteq> []" and "device_write address bs s = Ok s'"
  shows "\<exists>i d lo. map_of (dt_dmas s) i = Some d \<and> unat (dm_iova d) + lo = unat address \<and>
    lo + length bs \<le> length (dm_bytes d) \<and> dm_direction d \<noteq> ToDevice \<and>
    (dt_cache_coherent s \<or> dm_coherent d
      \<or> list_all (\<lambda>x. x = Device) (take (length bs) (drop lo (dm_ownership d)))) \<and>
    det_mem s' = (det_mem s)(i \<mapsto> overwrite lo bs (dm_bytes d)) \<and>
    (\<forall>j e. map_of (dt_dmas s) j = Some e \<longrightarrow> j \<noteq> i \<longrightarrow> dma_holds address (length bs) e = None)"
  by (rule device_write_lands [OF det_reachable_inv [OF assms(1)] assms(2,3)])

theorem device_write_confined_witness:
  "\<exists>s' i d lo. device_write 0x10000004 [9] sample_state = Ok s' \<and>
     map_of (dt_dmas sample_state) i = Some d \<and>
     det_mem s' = (det_mem sample_state)(i \<mapsto> overwrite lo [9] (dm_bytes d))"
proof -
  have "\<exists>s'. device_write 0x10000004 [9] sample_state = Ok s'"
    by (simp add: device_write_def sample_state_def sample_dma_def dma_holds_def checked_add_def
        USIZE_MAX_def device_accessible_def get_dma_def det_default_def)
  then obtain s' where w: "device_write 0x10000004 [9] sample_state = Ok s'" by auto
  from device_write_confined [OF sample_state_reachable _ w] w show ?thesis by blast
qed

text \<open>The part of a buffer's window at an offset is the part of the allocation at the sum of the offsets.\<close>

lemma window_part: "off + n \<le> len \<Longrightarrow> take n (drop off (take len (drop start xs))) = take n (drop (start + off) xs)"
  by (simp add: drop_take min_absorb1 ac_simps)

lemma sync_for_device_gives:
  assumes "det_reachable s" and "\<not> dt_cache_coherent s" and "window (det_mem s) b = Some w"
    and "streaming_sync_for_device det_backend off n (b, s) = (Ok (), (b1, s1))"
  shows "\<exists>d. map_of (dt_dmas s1) (db_token b) =
      Some (d\<lparr>dm_bytes := overwrite (db_offset b + off) (take n (drop off (db_bytes b))) (dm_bytes d),
        dm_ownership := overwrite (db_offset b + off) (replicate n Device) (dm_ownership d)\<rparr>)
    \<and> b1 = b \<and> db_offset b + length (db_bytes b) \<le> length (dm_bytes d) \<and> db_offset b + off + n \<le> length (dm_ownership d)
    \<and> \<not> dm_coherent d \<and> \<not> dt_cache_coherent s1 \<and> off + n \<le> length (db_bytes b)
    \<and> dma_range det_backend b off n s1 = Ok (off, off + n)"
proof -
  let ?lo = "db_offset b + off" and ?bs = "take n (drop off (db_bytes b))"
  note inv = det_reachable_inv [OF assms(1)]
  obtain d where d: "map_of (dt_dmas s) (db_token b) = Some d"
    "db_offset b + length (db_bytes b) \<le> length (dm_bytes d)"
    using window_det [OF assms(3)] by auto
  have keep: "\<not> dt_cache_coherent t" if "det_dma_write i r xs s = (x, t)" for i r xs x t
    using that assms(2) record_dma_write_model
    by (fastforce simp: det_dma_write_def st_then_def put_dma_def split: prod.splits res.splits if_splits)
  obtain t where t: "dma_range det_backend b off n s = Ok (off, off + n)" "b1 = b"
    "det_dma_write (db_token b) (?lo, ?lo + n) ?bs s = (Ok (), t)"
    "det_sync_for_device (db_token b) (?lo, ?lo + n) t = (Ok (), s1)"
    using streaming_sync_for_device_Ok [OF assms(4)] assms(2) keep by auto
  have le: "off + n \<le> length (db_bytes b)" "db_generation b = dt_generation s" "off + n \<le> USIZE_MAX"
    using t(1) by (auto simp: dma_range_def)
  then have in_d: "?lo \<le> ?lo + n" "?lo + n \<le> length (dm_bytes d)" "length ?bs = ?lo + n - ?lo"
    using d(2) by auto
  obtain t' where "det_dma_write (db_token b) (?lo, ?lo + n) ?bs s = (Ok (), t')" "det_inv t'"
    "dt_generation t' = dt_generation s" "dt_cache_coherent t' = dt_cache_coherent s"
    "map_of (dt_dmas t') = (map_of (dt_dmas s))(db_token b \<mapsto> d\<lparr>dm_bytes := overwrite ?lo ?bs (dm_bytes d)\<rparr>)"
    using det_dma_write_eq [OF inv d(1) in_d] by blast
  then have T: "det_inv t" "dt_generation t = dt_generation s" "\<not> dt_cache_coherent t"
    "map_of (dt_dmas t) (db_token b) = Some (d\<lparr>dm_bytes := overwrite ?lo ?bs (dm_bytes d)\<rparr>)"
    using t(3) assms(2) by auto
  note Y = det_sync_for_device_eq [OF t(4) T(4)]
  have s1: "map_of (dt_dmas s1) (db_token b) = Some (d\<lparr>dm_bytes := overwrite ?lo ?bs (dm_bytes d),
      dm_ownership := overwrite ?lo (replicate n Device) (dm_ownership d)\<rparr>)"
    using Y(4) by simp
  have rg: "dma_range det_backend b off n s1 = Ok (off, off + n)"
    using le Y(7) T(2) by (auto simp: dma_range_def)
  show ?thesis using s1 t(2) d(2) Y(2,3,5) T(3) le(1) rg by auto
qed

text \<open>C9: handing a streaming range to the device takes it from the CPU. On a non-coherent host,
  after \<open>sync_for_device\<close> the device sees the bytes of the CPU view and may access the range,
  and a CPU read of it faults.\<close>

theorem streaming_handover:
  assumes "det_reachable s" and "\<not> dt_cache_coherent s" and "0 < n"
    and "window (det_mem s) b = Some w"
    and "streaming_sync_for_device det_backend off n (b, s) = (Ok (), (b1, s1))"
  shows "b1 = b
    \<and> streaming_read det_backend off n (b1, s1) = (Err DeviceFault, (b1, s1))
    \<and> device_accessible (db_token b) (db_offset b + off, db_offset b + off + n) s1 = Ok ()
    \<and> (\<exists>w1. window (det_mem s1) b1 = Some w1 \<and> take n (drop off w1) = take n (drop off (db_bytes b)))"
proof -
  let ?lo = "db_offset b + off" and ?bs = "take n (drop off (db_bytes b))"
  from sync_for_device_gives [OF assms(1,2,4,5)] obtain d where
    s1: "map_of (dt_dmas s1) (db_token b) = Some (d\<lparr>dm_bytes := overwrite ?lo ?bs (dm_bytes d),
      dm_ownership := overwrite ?lo (replicate n Device) (dm_ownership d)\<rparr>)"
    and d: "b1 = b" "db_offset b + length (db_bytes b) \<le> length (dm_bytes d)" "?lo + n \<le> length (dm_ownership d)"
      "\<not> dm_coherent d" "\<not> dt_cache_coherent s1" "off + n \<le> length (db_bytes b)"
      "dma_range det_backend b off n s1 = Ok (off, off + n)" by blast
  have own: "take n (drop ?lo (overwrite ?lo (replicate n Device) (dm_ownership d))) = replicate n Device"
    using overwrite_same [of ?lo "replicate n Device" "dm_ownership d"] d(3) by simp
  have P: "det_streaming_cpu_read (db_token b) (?lo, ?lo + n) s1 = (Err DeviceFault, s1)"
    "device_accessible (db_token b) (?lo, ?lo + n) s1 = Ok ()"
    using device_owned_blocks_cpu [OF s1 _ _ _ _ assms(3), of ?lo] own d(3-5) by simp_all
  have "streaming_read det_backend off n (b, s1) = (Err DeviceFault, (b, s1))"
    using d(7) P(1) by (simp add: streaming_read_def buf_range_def on_backend_def backend_range_def add.assoc)
  moreover have "window (det_mem s1) b = Some (take (length (db_bytes b)) (drop (db_offset b) (overwrite ?lo ?bs (dm_bytes d))))"
    using s1 d(2,6) by (simp add: window_def det_mem_def)
  moreover have "take n (drop off (take (length (db_bytes b)) (drop (db_offset b) (overwrite ?lo ?bs (dm_bytes d))))) = ?bs"
    using overwrite_same [of ?lo ?bs "dm_bytes d"] d(2,6) by (simp add: window_part)
  ultimately show ?thesis using d(1) P(2) by simp
qed


definition stream_buffer :: "u64 dma_buffer" where
  "stream_buffer = \<lparr>db_shared = 0, db_token = 1, db_generation = 1, db_offset = 0,
     db_alignment = 16, db_bytes = replicate 16 3\<rparr>"

definition stream_dma :: "dma_ownership \<Rightarrow> dma" where
  "stream_dma x = \<lparr>dm_bytes = replicate 16 0xa5, dm_iova = 0x10000000, dm_direction = Bidirectional,
     dm_coherent = False, dm_ownership = replicate 16 x\<rparr>"

definition stream_state :: "dma_ownership \<Rightarrow> det" where
  "stream_state x = noncoherent_default\<lparr>dt_dmas := [(1, stream_dma x)], dt_next := 0x10000010,
     dt_next_id := 2\<rparr>"

lemma stream_state_reachable: "det_reachable (stream_state Cpu)" "det_reachable (stream_state Device)"
proof -
  have "det_alloc_dma 16 16 Bidirectional False noncoherent_default = (Ok 1, stream_state Cpu)"
    by (simp add: det_alloc_dma_def with_probe_def det_default_def align_up_def checked_add_word_def
        assoc_put_def stream_state_def stream_dma_def noncoherent_default_def)
  then have a: "det_step noncoherent_default (stream_state Cpu)"
    by (rule det_step.alloc_dma)
  have "det_sync_for_device 1 (0, 16) (stream_state Cpu) = (Ok (), stream_state Device)"
    by (simp add: det_sync_for_device_def failing_def stream_state_def stream_dma_def get_dma_def
        slice_def set_ownership_def put_dma_def overwrite_def log_op_def cpu_owned_def list_all_iff
        noncoherent_default_def det_default_def)
  then have b: "det_step (stream_state Cpu) (stream_state Device)"
    by (rule det_step.sync_for_device)
  have i: "det_initial noncoherent_default"
    by (simp add: det_initial_def det_default_def noncoherent_default_def)
  show "det_reachable (stream_state Cpu)"
    using a i unfolding det_reachable_def by blast
  show "det_reachable (stream_state Device)"
    using a b i unfolding det_reachable_def by (meson converse_rtranclp_into_rtranclp r_into_rtranclp)
qed

lemmas stream_run =
  stream_buffer_def stream_dma_def stream_state_def noncoherent_default_def edu_run

theorem streaming_handover_witness:
  "\<exists>s1. streaming_sync_for_device det_backend 4 8 (stream_buffer, stream_state Cpu)
       = (Ok (), (stream_buffer, s1)) \<and>
     streaming_read det_backend 4 8 (stream_buffer, s1) = (Err DeviceFault, (stream_buffer, s1))"
proof -
  have "\<exists>b1 s1. streaming_sync_for_device det_backend 4 8 (stream_buffer, stream_state Cpu)
      = (Ok (), (b1, s1))"
    by (simp add: stream_run)
  then obtain b1 s1 where y: "streaming_sync_for_device det_backend 4 8
      (stream_buffer, stream_state Cpu) = (Ok (), (b1, s1))" by blast
  have "window (det_mem (stream_state Cpu)) stream_buffer = Some (replicate 16 0xa5)"
    by (simp add: window_def det_mem_def stream_state_def stream_dma_def stream_buffer_def)
  from streaming_handover [OF stream_state_reachable(1) _ _ this y] y show ?thesis
    by (auto simp: stream_state_def noncoherent_default_def)
qed

lemma sync_for_cpu_takes:
  assumes "det_reachable s" and "\<not> dt_cache_coherent s" and "window (det_mem s) b = Some w"
    and "streaming_sync_for_cpu det_backend off n (b, s) = (Ok (), (b1, s1))"
  shows "\<exists>e out. map_of (dt_dmas s1) (db_token b) = Some e \<and> db_offset b + length (db_bytes b) \<le> length (dm_bytes e)
    \<and> \<not> dm_coherent e \<and> \<not> dt_cache_coherent s1
    \<and> take n (drop (db_offset b + off) (dm_ownership e)) = replicate n Cpu \<and> db_offset b + off + n \<le> length (dm_ownership e)
    \<and> out = take n (drop (db_offset b + off) (dm_bytes e)) \<and> length out = n
    \<and> b1 = b\<lparr>db_bytes := overwrite off out (db_bytes b)\<rparr> \<and> off + n \<le> length (db_bytes b)
    \<and> dma_range det_backend b1 off n s1 = Ok (off, off + n)"
proof -
  let ?lo = "db_offset b + off" and ?i = "db_token b"
  note inv = det_reachable_inv [OF assms(1)]
  have ro: "off + n \<le> length (db_bytes b)" and gen: "db_generation b = dt_generation s"
    using assms(4) by (auto simp: streaming_sync_for_cpu_def streaming_acquire_for_cpu_def
        st_then_eq_Ok buf_range_def dma_range_def)
  obtain t out where t: "off + n \<le> USIZE_MAX"
    "det_sync_for_cpu ?i (?lo, ?lo + n) s = (Ok (), t)"
    "det_dma_read ?i (?lo, ?lo + n) t = (Ok out, s1)"
    "b1 = b\<lparr>db_bytes := overwrite off out (db_bytes b)\<rparr>"
    using streaming_sync_for_cpu_Ok [OF assms(4)] assms(2) by auto
  obtain d where d: "map_of (dt_dmas s) ?i = Some d" "?lo + n \<le> length (dm_ownership d)"
    "\<not> dm_coherent d" "map_of (dt_dmas t) ?i =
       Some (d\<lparr>dm_ownership := overwrite ?lo (replicate n Cpu) (dm_ownership d)\<rparr>)"
    "dt_cache_coherent t = dt_cache_coherent s" "arena t = arena s"
    using det_sync_for_cpu_eq [OF t(2)] by auto
  have it: "det_inv t" using d(6) inv by (simp add: det_inv_arena)
  obtain d' where "map_of (dt_dmas s) ?i = Some d'"
    "db_offset b + length (db_bytes b) \<le> length (dm_bytes d')"
    using window_det [OF assms(3)] by auto
  then have ext: "db_offset b + length (db_bytes b) \<le> length (dm_bytes d)"
    using d(1) by simp
  then have hi: "?lo + n \<le> length (dm_bytes d)" using ro by simp
  from det_dma_read_inv [OF it d(4) _ _ t(3)] hi obtain e where e: "arena s1 = arena t"
    "map_of (dt_dmas s1) ?i = Some e" "length (dm_bytes e) = length (dm_bytes d)"
    "out = take n (drop ?lo (dm_bytes e))"
    by auto
  obtain x where x: "apply_device_writes t = (x, s1)"
    using t(3) by (auto simp: det_dma_read_def st_then_eq_Ok)
  have meta: "dm_ownership e = overwrite ?lo (replicate n Cpu) (dm_ownership d)" "\<not> dm_coherent e"
    "\<not> dt_cache_coherent s1"
    using apply_device_writes_meta(1) [OF x, of ?i] apply_device_writes_meta(2) [OF x] d e(2) assms(2) by (simp_all add: dma_meta_def)
  have own: "take n (drop ?lo (dm_ownership e)) = replicate n Cpu" "?lo + n \<le> length (dm_ownership e)"
    using overwrite_same [of ?lo "replicate n Cpu" "dm_ownership d"] d(2) meta(1) by simp_all
  have len: "length out = n" using e(3,4) hi by simp
  have rg: "dma_range det_backend b1 off n s1 = Ok (off, off + n)"
    using ro t(1,4) gen e(1) d(6) len by (auto simp: dma_range_def arena_def)
  show ?thesis using e ext meta(2,3) own len t(4) ro rg by auto
qed

text \<open>C10: taking a streaming range back gives the CPU what the device left there. On a
  non-coherent host, after \<open>sync_for_cpu\<close> a CPU read of the range returns the device-visible
  bytes, and the device may no longer access the range.\<close>

theorem streaming_return:
  assumes "det_reachable s" and "\<not> dt_cache_coherent s" and "0 < n"
    and "window (det_mem s) b = Some w"
    and "streaming_sync_for_cpu det_backend off n (b, s) = (Ok (), (b1, s1))"
  shows "(\<exists>w1. window (det_mem s1) b1 = Some w1
      \<and> streaming_read det_backend off n (b1, s1) = (Ok (take n (drop off w1)), (b1, s1)))
    \<and> device_accessible (db_token b) (db_offset b + off, db_offset b + off + n) s1 = Err DeviceFault"
proof -
  let ?lo = "db_offset b + off"
  from sync_for_cpu_takes [OF assms(1,2,4,5)] obtain e out where
    e: "map_of (dt_dmas s1) (db_token b) = Some e" "db_offset b + length (db_bytes b) \<le> length (dm_bytes e)" "\<not> dm_coherent e"
      "\<not> dt_cache_coherent s1" "take n (drop ?lo (dm_ownership e)) = replicate n Cpu" "?lo + n \<le> length (dm_ownership e)"
    and out: "out = take n (drop ?lo (dm_bytes e))" "length out = n"
    and b1: "b1 = b\<lparr>db_bytes := overwrite off out (db_bytes b)\<rparr>" "off + n \<le> length (db_bytes b)"
      "dma_range det_backend b1 off n s1 = Ok (off, off + n)" by blast
  note C = cpu_owned_blocks_device [OF e(1,4,3,5,6) assms(3)]
  have "streaming_read det_backend off n (b1, s1) = (Ok (take n (drop off (db_bytes b1))), (b1, s1))"
    using b1(1,3) C(1) by (simp add: streaming_read_def buf_range_def on_backend_def backend_range_def add.assoc)
  moreover have "take n (drop off (db_bytes b1)) = out"
    using overwrite_same [of off out "db_bytes b"] out(2) b1(1,2) by simp
  moreover have "window (det_mem s1) b1 = Some (take (length (db_bytes b)) (drop (db_offset b) (dm_bytes e)))"
    using e(1,2) out(2) b1(1,2) by (simp add: window_def det_mem_def)
  moreover have "take n (drop off (take (length (db_bytes b)) (drop (db_offset b) (dm_bytes e)))) = out"
    using out(1) b1(2) by (simp add: window_part)
  ultimately show ?thesis using C(2) by simp
qed

theorem streaming_return_witness:
  "\<exists>b1 s1 out. streaming_sync_for_cpu det_backend 4 8 (stream_buffer, stream_state Device)
       = (Ok (), (b1, s1)) \<and>
     streaming_read det_backend 4 8 (b1, s1) = (Ok out, (b1, s1))"
proof -
  have "\<exists>b1 s1. streaming_sync_for_cpu det_backend 4 8 (stream_buffer, stream_state Device)
      = (Ok (), (b1, s1))"
    by (simp add: stream_run)
  then obtain b1 s1 where y: "streaming_sync_for_cpu det_backend 4 8
      (stream_buffer, stream_state Device) = (Ok (), (b1, s1))" by blast
  have "window (det_mem (stream_state Device)) stream_buffer = Some (replicate 16 0xa5)"
    by (simp add: window_def det_mem_def stream_state_def stream_dma_def stream_buffer_def)
  from streaming_return [OF stream_state_reachable(2) _ _ this y] y show ?thesis
    by (auto simp: stream_state_def noncoherent_default_def)
qed


end
