(* ===== verification/Dma_Pool.thy ===== *)
theory Dma_Pool
  imports Backend_Guarantees
begin

text \<open>
  Pools of fixed-size streaming DMA segments (\<open>crates/platform/dma-pool/src/lib.rs\<close>): a page is
  allocated, split into segments, and segments return to the pool when they are dropped, up to a
  high-watermark.

  The state of a pool operation is the pair of the pool and the backend. The system of a pool
  and its clients is a step relation; the backing allocation of a page ends when no segment of
  it is left, which is the step \<open>reclaim\<close>. The proofs are over the interface \<open>pool_backend\<close>,
  an extension of \<open>hw_backend\<close>, and hold for the deterministic backend by interpretation.
\<close>

section \<open>Pools and segments\<close>

record 'd pool =
  pl_device :: device
  pl_segment_size :: nat
  pl_page_size :: nat
  pl_alignment :: nat
  pl_high_watermark :: nat
  pl_free :: "'d dma_buffer list"

record 'd segment =
  sg_dma :: "'d dma_buffer"
  sg_reusable :: bool

definition dma_pool_new ::
  "device \<Rightarrow> nat \<Rightarrow> nat \<Rightarrow> nat \<Rightarrow> nat \<Rightarrow> (hw_error, 'd pool) res" where
  "dma_pool_new dev segment_size page_size alignment high_watermark =
     (if segment_size = 0 \<or> page_size < segment_size \<or> page_size mod segment_size \<noteq> 0
         \<or> alignment = 0 \<or> \<not> is_power_of_two alignment \<or> segment_size mod alignment \<noteq> 0
      then Err Invalid
      else Ok \<lparr>pl_device = dev, pl_segment_size = segment_size, pl_page_size = page_size,
               pl_alignment = alignment, pl_high_watermark = high_watermark, pl_free = []\<rparr>)"

definition push_free :: "'d dma_buffer \<Rightarrow> 'd pool \<Rightarrow> 'd pool" where
  "push_free b p =
     (if length (pl_free p) < pl_high_watermark p then p\<lparr>pl_free := pl_free p @ [b]\<rparr> else p)"

fun refill_loop ::
  "('s, 'r, 'd, 'i) backend \<Rightarrow> nat \<Rightarrow> 'd dma_buffer \<Rightarrow> ('d pool \<times> 's, hw_error, 'd dma_buffer) op"
where
  "refill_loop B 0 remainder ps = (Ok remainder, ps)"
| "refill_loop B (Suc k) remainder ps =
     (case split_at B remainder (pl_segment_size (fst ps)) (snd ps) of
        Ok (seg, rest) \<Rightarrow> refill_loop B k rest (push_free seg (fst ps), snd ps)
      | Err e \<Rightarrow> (Err e, ps) | Panic \<Rightarrow> (Panic, ps))"

definition refill ::
  "('s, 'r, 'd, 'i) backend \<Rightarrow> dma_direction \<Rightarrow> ('d pool \<times> 's, hw_error, 'd dma_buffer) op" where
  "refill B direction ps =
     (let p = fst ps in
      case alloc_streaming B (pl_device p) direction (pl_page_size p) (pl_alignment p) (snd ps) of
        (Ok page, s) \<Rightarrow> refill_loop B (pl_page_size p div pl_segment_size p - 1) page (p, s)
      | (Err e, s) \<Rightarrow> (Err e, (p, s)) | (Panic, s) \<Rightarrow> (Panic, (p, s)))"

definition pool_allocate ::
  "('s, 'r, 'd, 'i) backend \<Rightarrow> dma_direction \<Rightarrow> ('d pool \<times> 's, hw_error, 'd segment) op" where
  "pool_allocate B direction =
     st_then (\<lambda>ps. if pl_free (fst ps) \<noteq> []
                   then (Ok (last (pl_free (fst ps))),
                         ((fst ps)\<lparr>pl_free := butlast (pl_free (fst ps))\<rparr>, snd ps))
                   else refill B direction ps)
       (\<lambda>b. st_return (Ok \<lparr>sg_dma = b, sg_reusable = True\<rparr>))"

definition free_segments :: "'d pool \<Rightarrow> nat" where
  "free_segments p = length (pl_free p)"

text \<open>An operation of the buffer inside a segment; it marks the segment when it succeeds.\<close>

definition on_segment ::
  "('d dma_buffer \<times> 's, hw_error, unit) op \<Rightarrow> bool \<Rightarrow> ('d segment \<times> 's, hw_error, unit) op" where
  "on_segment m mark gs =
     (let (r, (b, s)) = m (sg_dma (fst gs), snd gs) in
      (r, (\<lparr>sg_dma = b, sg_reusable = (if r = Ok () then mark else sg_reusable (fst gs))\<rparr>, s)))"

definition segment_write ::
  "('s, 'r, 'd, 'i) backend \<Rightarrow> nat \<Rightarrow> bytes \<Rightarrow> ('d segment \<times> 's, hw_error, unit) op" where
  "segment_write B off bs = on_segment (streaming_write B off bs) False"

definition segment_sync_for_device ::
  "('s, 'r, 'd, 'i) backend \<Rightarrow> nat \<Rightarrow> nat \<Rightarrow> ('d segment \<times> 's, hw_error, unit) op" where
  "segment_sync_for_device B off n = on_segment (streaming_sync_for_device B off n) True"

definition segment_sync_for_cpu ::
  "('s, 'r, 'd, 'i) backend \<Rightarrow> nat \<Rightarrow> nat \<Rightarrow> ('d segment \<times> 's, hw_error, unit) op" where
  "segment_sync_for_cpu B off n = on_segment (streaming_sync_for_cpu B off n) False"

definition segment_prepare_for_device ::
  "('s, 'r, 'd, 'i) backend \<Rightarrow> ('d segment \<times> 's, hw_error, unit) op" where
  "segment_prepare_for_device B gs =
     on_segment (streaming_prepare_for_device B 0 (length (db_bytes (sg_dma (fst gs))))) True gs"

definition segment_read ::
  "('s, 'r, 'd, 'i) backend \<Rightarrow> nat \<Rightarrow> nat \<Rightarrow> ('d segment \<times> 's, hw_error, bytes) op" where
  "segment_read B off n gs =
     (let (r, (b, s)) = streaming_read B off n (sg_dma (fst gs), snd gs)
      in (r, ((fst gs)\<lparr>sg_dma := b\<rparr>, s)))"

definition drop_segment :: "'d segment \<Rightarrow> 'd pool \<Rightarrow> 'd pool" where
  "drop_segment g p = (if sg_reusable g then push_free (sg_dma g) p else p)"

section \<open>The pool and its clients\<close>

record ('d, 's) pool_sys =
  ps_pool :: "'d pool"
  ps_out :: "'d segment list"
  ps_backend :: 's

definition buffers :: "('d, 's) pool_sys \<Rightarrow> 'd dma_buffer list" where
  "buffers S = map sg_dma (ps_out S) @ pl_free (ps_pool S)"

definition segment_ops ::
  "('s, 'r, 'd, 'i) backend \<Rightarrow> ('d segment \<times> 's, hw_error, unit) op set" where
  "segment_ops B =
     {segment_write B off bs | off bs. True} \<union> {segment_sync_for_device B off n | off n. True}
     \<union> {segment_sync_for_cpu B off n | off n. True} \<union> {segment_prepare_for_device B}"

inductive pool_step ::
  "('s, 'r, 'd, 'i) backend \<Rightarrow> dma_direction \<Rightarrow> ('d, 's) pool_sys \<Rightarrow> ('d, 's) pool_sys \<Rightarrow> bool"
  for B :: "('s, 'r, 'd, 'i) backend" and dir :: dma_direction where
  allocate: "pool_allocate B dir (ps_pool S, ps_backend S) = (Ok g, (p, s)) \<Longrightarrow>
     pool_step B dir S \<lparr>ps_pool = p, ps_out = g # ps_out S, ps_backend = s\<rparr>"
| allocate_failed: "pool_allocate B dir (ps_pool S, ps_backend S) = (Err e, (p, s)) \<Longrightarrow>
     pool_step B dir S \<lparr>ps_pool = p, ps_out = ps_out S, ps_backend = s\<rparr>"
| operate: "ps_out S = xs @ g # ys \<Longrightarrow> m \<in> segment_ops B \<Longrightarrow>
     m (g, ps_backend S) = (r, (g', s)) \<Longrightarrow>
     pool_step B dir S (S\<lparr>ps_out := xs @ g' # ys, ps_backend := s\<rparr>)"
| dropped: "ps_out S = xs @ g # ys \<Longrightarrow>
     pool_step B dir S (S\<lparr>ps_pool := drop_segment g (ps_pool S), ps_out := xs @ ys\<rparr>)"
| reclaim: "d \<notin> db_token ` set (buffers S) \<Longrightarrow>
     pool_step B dir S (S\<lparr>ps_backend := be_release_dma B d (ps_backend S)\<rparr>)"


section \<open>Carving a page\<close>

definition piece :: "nat \<Rightarrow> 'd dma_buffer \<Rightarrow> nat \<Rightarrow> 'd dma_buffer" where
  "piece n b j = b\<lparr>db_offset := db_offset b + j * n, db_bytes := take n (drop (j * n) (db_bytes b))\<rparr>"

lemma piece_rest:
  "piece n (b\<lparr>db_offset := db_offset b + n, db_bytes := drop n (db_bytes b)\<rparr>) j = piece n b (Suc j)"
  by (simp add: piece_def ac_simps)

lemma piece_0: "piece n b 0 = b\<lparr>db_bytes := take n (db_bytes b)\<rparr>"
  by (simp add: piece_def)

lemma piece_simps [simp]:
  "db_token (piece n b j) = db_token b" "db_generation (piece n b j) = db_generation b"
  "db_alignment (piece n b j) = db_alignment b" "db_offset (piece n b j) = db_offset b + j * n"
  "db_bytes (piece n b j) = take n (drop (j * n) (db_bytes b))"
  by (simp_all add: piece_def)

lemma push_free_take:
  "push_free x p = p\<lparr>pl_free := pl_free p @ take (pl_high_watermark p - length (pl_free p)) [x]\<rparr>"
  by (cases "pl_high_watermark p - length (pl_free p)") (auto simp: push_free_def)

lemma refill_loop_eq:
  assumes "0 < pl_segment_size p" "pl_segment_size p mod db_alignment b = 0"
    and "db_generation b = be_generation B s" "length (db_bytes b) = Suc k * pl_segment_size p"
  shows "refill_loop B k b (p, s) = (Ok (piece (pl_segment_size p) b k),
    (p\<lparr>pl_free := pl_free p @ take (pl_high_watermark p - length (pl_free p))
         (map (piece (pl_segment_size p) b) [0..<k])\<rparr>, s))"
  using assms
proof (induction k arbitrary: b p)
  case 0
  then show ?case by (simp add: piece_0)
next
  case (Suc k)
  let ?n = "pl_segment_size p"
  let ?r = "b\<lparr>db_offset := db_offset b + ?n, db_bytes := drop ?n (db_bytes b)\<rparr>"
  let ?p = "push_free (piece ?n b 0) p"
  have sp: "split_at B b ?n s = Ok (piece ?n b 0, ?r)"
    using Suc.prems by (simp add: split_at_def current_def piece_0)
  have n: "pl_segment_size ?p = ?n" by (simp add: push_free_def)
  have "refill_loop B k ?r (?p, s) = (Ok (piece ?n ?r k), (?p\<lparr>pl_free := pl_free ?p @
      take (pl_high_watermark ?p - length (pl_free ?p)) (map (piece ?n ?r) [0..<k])\<rparr>, s))"
    using Suc.IH [of ?p ?r] Suc.prems n by simp
  moreover have "map (piece ?n b) [0..<Suc k] = piece ?n b 0 # map (piece ?n ?r) [0..<k]"
    by (simp add: upt_conv_Cons piece_rest comp_def del: upt_Suc flip: map_Suc_upt)
  ultimately show ?case
  proof (cases "pl_high_watermark p - length (pl_free p)")
    case room: (Suc m)
    then have "pl_high_watermark p - Suc (length (pl_free p)) = m" by simp
    with room sp \<open>refill_loop B k ?r (?p, s) = _\<close> \<open>map (piece ?n b) [0..<Suc k] = _\<close>
    show ?thesis by (simp add: piece_rest push_free_take del: upt_Suc)
  qed (simp add: sp piece_rest push_free_take del: upt_Suc)
qed

section \<open>The pool over a backend\<close>

locale pool_backend = hw_backend +
  assumes cpu_dirty: "inv s \<Longrightarrow> mem s d = Some m \<Longrightarrow> lo \<le> hi \<Longrightarrow> hi \<le> length m \<Longrightarrow>
        be_streaming_cpu_dirty B d (lo, hi) s = (r, s') \<Longrightarrow>
        inv s' \<and> be_generation B s' = be_generation B s \<and> mem s' = mem s"
    and sync_for_cpu: "inv s \<Longrightarrow> mem s d = Some m \<Longrightarrow> lo \<le> hi \<Longrightarrow> hi \<le> length m \<Longrightarrow>
        be_sync_for_cpu B d (lo, hi) s = (r, s') \<Longrightarrow>
        inv s' \<and> be_generation B s' = be_generation B s \<and> mem s' = mem s"
    and dma_read_extents: "inv s \<Longrightarrow> be_dma_read B d rg s = (rb, s') \<Longrightarrow>
        map_option length (mem s' e) = map_option length (mem s e)"
    and alloc_err_generation: "be_alloc_dma_constrained B sz c dir coh s = (Err x, s') \<Longrightarrow>
        be_generation B s' = be_generation B s"
    and release_generation: "be_generation B (be_release_dma B d s) = be_generation B s"
begin

text \<open>What a client operation keeps of the backend: its invariant, its generation, its extents.\<close>

definition same_backend :: "'a \<Rightarrow> 'a \<Rightarrow> bool" where
  "same_backend s s' \<longleftrightarrow> inv s' \<and> be_generation B s' = be_generation B s \<and>
     (\<forall>e. map_option length (mem s' e) = map_option length (mem s e))"

definition holds :: "'a \<Rightarrow> 'c dma_buffer \<Rightarrow> bool" where
  "holds s b \<longleftrightarrow> db_generation b = be_generation B s \<and>
     (\<exists>m. mem s (db_token b) = Some m \<and> db_offset b + length (db_bytes b) \<le> length m)"

lemma same_backend_refl: "inv s \<Longrightarrow> same_backend s s"
  by (simp add: same_backend_def)

lemma same_backend_trans: "same_backend s t \<Longrightarrow> same_backend t u \<Longrightarrow> same_backend s u"
  by (simp add: same_backend_def)

lemma same_backend_mem:
  "inv s' \<Longrightarrow> be_generation B s' = be_generation B s \<Longrightarrow> mem s' = mem s \<Longrightarrow> same_backend s s'"
  by (simp add: same_backend_def)

lemma holds_same:
  assumes "same_backend s s'" "holds s b" and "db_token b' = db_token b" "db_offset b' = db_offset b"
    and "db_generation b' = db_generation b" "length (db_bytes b') = length (db_bytes b)"
  shows "holds s' b'"
proof -
  obtain m where m: "mem s (db_token b) = Some m" "db_offset b + length (db_bytes b) \<le> length m"
    using assms(2) by (auto simp: holds_def)
  have "map_option length (mem s' (db_token b)) = map_option length (mem s (db_token b))"
    using assms(1) by (simp add: same_backend_def)
  with m obtain m' where "mem s' (db_token b) = Some m'" "length m' = length m" by auto
  then show ?thesis
    using m(2) assms by (simp add: holds_def same_backend_def)
qed


text \<open>A transfer on a buffer of at least \<open>N\<close> bytes keeps the backend and the buffer's extent.\<close>

definition keeps :: "nat \<Rightarrow> ('c dma_buffer \<times> 'a, hw_error, 'z) op \<Rightarrow> bool" where
  "keeps N m \<longleftrightarrow> (\<forall>b s r b' s'. inv s \<longrightarrow> holds s b \<longrightarrow> N \<le> length (db_bytes b) \<longrightarrow>
     m (b, s) = (r, (b', s')) \<longrightarrow>
     same_backend s s' \<and> db_token b' = db_token b \<and> db_offset b' = db_offset b \<and>
     db_generation b' = db_generation b \<and> db_alignment b' = db_alignment b \<and>
     length (db_bytes b') = length (db_bytes b))"

lemma keepsD:
  assumes "keeps N m" "inv s" "holds s b" "N \<le> length (db_bytes b)" "m (b, s) = (r, (b', s'))"
  shows "same_backend s s'" "db_token b' = db_token b" "db_offset b' = db_offset b"
    "db_generation b' = db_generation b" "db_alignment b' = db_alignment b"
    "length (db_bytes b') = length (db_bytes b)" "holds s' b'"
proof -
  have "same_backend s s' \<and> db_token b' = db_token b \<and> db_offset b' = db_offset b \<and>
     db_generation b' = db_generation b \<and> db_alignment b' = db_alignment b \<and>
     length (db_bytes b') = length (db_bytes b)"
    using assms unfolding keeps_def by blast
  then show "same_backend s s'" "db_token b' = db_token b" "db_offset b' = db_offset b"
    "db_generation b' = db_generation b" "db_alignment b' = db_alignment b"
    "length (db_bytes b') = length (db_bytes b)" "holds s' b'"
    using holds_same [OF _ assms(3)] by auto
qed

lemma keeps_then:
  assumes "keeps N m" and "\<And>x. keeps N (k x)"
  shows "keeps N (st_then m k)"
  unfolding keeps_def
proof (intro allI impI)
  fix b s r b' s'
  assume a: "inv s" "holds s b" "N \<le> length (db_bytes b)" "st_then m k (b, s) = (r, b', s')"
  obtain x b1 s1 where m: "m (b, s) = (x, (b1, s1))"
    by (metis surj_pair)
  note M = keepsD [OF assms(1) a(1-3) m]
  have i: "inv s1" "N \<le> length (db_bytes b1)"
    using M(1,6) a(3) by (simp_all add: same_backend_def)
  show "same_backend s s' \<and> db_token b' = db_token b \<and> db_offset b' = db_offset b \<and>
     db_generation b' = db_generation b \<and> db_alignment b' = db_alignment b \<and>
     length (db_bytes b') = length (db_bytes b)"
  proof (cases x)
    case (Ok y)
    then have "k y (b1, s1) = (r, (b', s'))" using a(4) m by simp
    from keepsD [OF assms(2) i(1) M(7) i(2) this] M show ?thesis
      using same_backend_trans by metis
  qed (use a(4) m M in auto)
qed

lemma keeps_range:
  assumes "keeps (off + n) (k (off, off + n))"
  shows "keeps 0 (st_then (buf_range B off n) k)"
  unfolding keeps_def
proof (intro allI impI)
  fix b s r b' s'
  assume a: "inv s" "holds s b" "st_then (buf_range B off n) k (b, s) = (r, b', s')"
  show "same_backend s s' \<and> db_token b' = db_token b \<and> db_offset b' = db_offset b \<and>
     db_generation b' = db_generation b \<and> db_alignment b' = db_alignment b \<and>
     length (db_bytes b') = length (db_bytes b)"
  proof (cases "dma_range B b off n s")
    case (Ok rg)
    then have "rg = (off, off + n)" "off + n \<le> length (db_bytes b)"
      by (auto dest: dma_range_Ok)
    then show ?thesis
      using keepsD [OF assms a(1,2)] a(3) Ok by (auto simp: buf_range_def)
  next
    case (Err e)
    then show ?thesis
      using a by (auto simp: buf_range_def same_backend_refl st_then_def)
  qed simp
qed

lemma keeps_on_backend:
  assumes "\<And>b s m r s'. inv s \<Longrightarrow> mem s (db_token b) = Some m \<Longrightarrow> N \<le> length (db_bytes b) \<Longrightarrow>
    db_offset b + length (db_bytes b) \<le> length m \<Longrightarrow> f b s = (r, s') \<Longrightarrow> same_backend s s'"
  shows "keeps N (on_backend f)"
  unfolding keeps_def on_backend_def
  by (auto simp: holds_def split: prod.splits dest: assms)

lemma keeps_when_noncoherent: "keeps N (on_backend f) \<Longrightarrow> keeps N (when_noncoherent B f)"
  by (auto simp: keeps_def when_noncoherent_def same_backend_refl)

lemma keeps_shadow_put: "lo + length bs \<le> N \<Longrightarrow> keeps N (shadow_put lo bs)"
  by (auto simp: keeps_def shadow_put_def same_backend_refl)

lemma keeps_dma_write:
  "keeps (off + n) (on_backend (\<lambda>d. be_dma_write B (db_token d) (backend_range d (off, off + n))
     (take n (drop off (db_bytes d)))))"
proof (rule keeps_on_backend)
  fix b s m r s'
  assume a: "inv s" "mem s (db_token b) = Some m" "off + n \<le> length (db_bytes b)"
    "db_offset b + length (db_bytes b) \<le> length m"
    "be_dma_write B (db_token b) (backend_range b (off, off + n)) (take n (drop off (db_bytes b))) s = (r, s')"
  have "r \<noteq> Panic \<and> inv s' \<and> be_generation B s' = be_generation B s \<and>
    mem s' = (if r = Ok () then (mem s)(db_token b \<mapsto>
      overwrite (db_offset b + off) (take n (drop off (db_bytes b))) m) else mem s)"
    by (rule dma_write [OF a(1,2), of "db_offset b + off" "db_offset b + (off + n)"])
      (use a in \<open>auto simp: backend_range_def\<close>)
  then show "same_backend s s'"
    using a by (auto simp: same_backend_def)
qed

lemma keeps_on_range:
  assumes law: "\<And>s d m lo hi r s'. inv s \<Longrightarrow> mem s d = Some m \<Longrightarrow> lo \<le> hi \<Longrightarrow> hi \<le> length m \<Longrightarrow>
    f d (lo, hi) s = (r, s') \<Longrightarrow> inv s' \<and> be_generation B s' = be_generation B s \<and> mem s' = mem s"
  shows "keeps (off + n) (on_backend (\<lambda>d. f (db_token d) (backend_range d (off, off + n))))"
proof (rule keeps_on_backend)
  fix b s m r s'
  assume a: "inv s" "mem s (db_token b) = Some m" "off + n \<le> length (db_bytes b)"
    "db_offset b + length (db_bytes b) \<le> length m"
    "f (db_token b) (backend_range b (off, off + n)) s = (r, s')"
  have "inv s' \<and> be_generation B s' = be_generation B s \<and> mem s' = mem s"
    by (rule law [OF a(1,2), of "db_offset b + off" "db_offset b + (off + n)"])
      (use a in \<open>auto simp: backend_range_def\<close>)
  then show "same_backend s s'"
    by (simp add: same_backend_mem)
qed

lemma keeps_cpu_dirty:
  "keeps (off + n) (on_backend (\<lambda>d. be_streaming_cpu_dirty B (db_token d) (backend_range d (off, off + n))))"
  by (rule keeps_on_range) (rule cpu_dirty)

lemma keeps_sync_for_cpu:
  "keeps (off + n) (on_backend (\<lambda>d. be_sync_for_cpu B (db_token d) (backend_range d (off, off + n))))"
  by (rule keeps_on_range) (rule sync_for_cpu)

lemma keeps_sync_for_device:
  "keeps (off + n) (on_backend (\<lambda>d. be_sync_for_device B (db_token d) (backend_range d (off, off + n))))"
  by (rule keeps_on_range) (use sync_for_device in blast)

lemma keeps_refresh:
  "keeps (off + n) (st_then (on_backend (\<lambda>d. be_dma_read B (db_token d) (backend_range d (off, off + n))))
     (\<lambda>out. shadow_put off out))"
  unfolding keeps_def
proof (intro allI impI)
  fix b s r b' s'
  assume a: "inv s" "holds s b" "off + n \<le> length (db_bytes b)"
    "st_then (on_backend (\<lambda>d. be_dma_read B (db_token d) (backend_range d (off, off + n))))
     (\<lambda>out. shadow_put off out) (b, s) = (r, b', s')"
  obtain m where m: "mem s (db_token b) = Some m" "db_offset b + length (db_bytes b) \<le> length m"
    using a(2) by (auto simp: holds_def)
  obtain x t where x: "be_dma_read B (db_token b) (db_offset b + off, db_offset b + off + n) s = (x, t)"
    by fastforce
  have le: "db_offset b + off \<le> db_offset b + off + n" "db_offset b + off + n \<le> length m"
    using a(3) m(2) by auto
  note R = dma_read [OF a(1) m(1) le x]
  have st: "same_backend s t"
    using R dma_read_extents [OF a(1) x] by (simp add: same_backend_def)
  show "same_backend s s' \<and> db_token b' = db_token b \<and> db_offset b' = db_offset b \<and>
     db_generation b' = db_generation b \<and> db_alignment b' = db_alignment b \<and>
     length (db_bytes b') = length (db_bytes b)"
  proof (cases x)
    case (Ok out)
    then have "length out = n" using R le(2) by auto
    then show ?thesis
      using a(3,4) st Ok x
      by (auto simp: on_backend_def backend_range_def shadow_put_def add.assoc)
  qed (use a(4) x st R in \<open>auto simp: on_backend_def backend_range_def add.assoc st_then_def\<close>)
qed

lemma keeps_segment_transfers:
  "keeps 0 (streaming_write B off bs)" "keeps 0 (streaming_sync_for_device B off n)"
  "keeps 0 (streaming_sync_for_cpu B off n)" "keeps 0 (streaming_prepare_for_device B off n)"
proof -
  show "keeps 0 (streaming_write B off bs)"
    unfolding streaming_write_def
    by (intro keeps_range keeps_then keeps_shadow_put keeps_cpu_dirty) simp
  show "keeps 0 (streaming_sync_for_device B off n)"
    unfolding streaming_sync_for_device_def
    by (intro keeps_range keeps_then keeps_dma_write keeps_when_noncoherent keeps_sync_for_device)
  have "keeps 0 (streaming_acquire_for_cpu B off n)"
    unfolding streaming_acquire_for_cpu_def
    by (intro keeps_range keeps_when_noncoherent keeps_sync_for_cpu)
  moreover have "keeps 0 (streaming_refresh_for_cpu B off n)"
    unfolding streaming_refresh_for_cpu_def
    by (rule keeps_range) (use keeps_refresh in simp)
  ultimately show "keeps 0 (streaming_sync_for_cpu B off n)"
    unfolding streaming_sync_for_cpu_def by (intro keeps_then)
  show "keeps 0 (streaming_prepare_for_device B off n)"
    unfolding streaming_prepare_for_device_def
    by (intro keeps_range keeps_when_noncoherent keeps_sync_for_device)
qed


lemma on_segment_keeps:
  assumes "keeps 0 m" "inv s" "holds s (sg_dma g)" "on_segment m mark (g, s) = (r, (g', s'))"
  shows "same_backend s s'" "db_token (sg_dma g') = db_token (sg_dma g)"
    "db_offset (sg_dma g') = db_offset (sg_dma g)"
    "db_alignment (sg_dma g') = db_alignment (sg_dma g)"
    "length (db_bytes (sg_dma g')) = length (db_bytes (sg_dma g))" "holds s' (sg_dma g')"
proof -
  obtain x b t where x: "m (sg_dma g, s) = (x, (b, t))" by (metis surj_pair)
  then have "s' = t" "sg_dma g' = b"
    using assms(4) by (auto simp: on_segment_def)
  then show "same_backend s s'" "db_token (sg_dma g') = db_token (sg_dma g)"
    "db_offset (sg_dma g') = db_offset (sg_dma g)"
    "db_alignment (sg_dma g') = db_alignment (sg_dma g)"
    "length (db_bytes (sg_dma g')) = length (db_bytes (sg_dma g))" "holds s' (sg_dma g')"
    using keepsD [OF assms(1-3) _ x] by auto
qed

lemma segment_ops_keep:
  assumes "m \<in> segment_ops B" "inv s" "holds s (sg_dma g)" "m (g, s) = (r, (g', s'))"
  shows "same_backend s s' \<and> db_token (sg_dma g') = db_token (sg_dma g) \<and>
    db_offset (sg_dma g') = db_offset (sg_dma g) \<and>
    db_alignment (sg_dma g') = db_alignment (sg_dma g) \<and>
    length (db_bytes (sg_dma g')) = length (db_bytes (sg_dma g)) \<and> holds s' (sg_dma g')"
proof -
  from assms(1) consider (wr) off bs where "m = segment_write B off bs"
    | (dev) off n where "m = segment_sync_for_device B off n"
    | (cpu) off n where "m = segment_sync_for_cpu B off n" | (prep) "m = segment_prepare_for_device B"
    by (auto simp: segment_ops_def)
  then show ?thesis
  proof cases
    case wr
    show ?thesis
      using on_segment_keeps [OF keeps_segment_transfers(1) assms(2,3)
          assms(4) [unfolded wr segment_write_def]] by blast
  next
    case dev
    show ?thesis
      using on_segment_keeps [OF keeps_segment_transfers(2) assms(2,3)
          assms(4) [unfolded dev segment_sync_for_device_def]] by blast
  next
    case cpu
    show ?thesis
      using on_segment_keeps [OF keeps_segment_transfers(3) assms(2,3)
          assms(4) [unfolded cpu segment_sync_for_cpu_def]] by blast
  next
    case prep
    show ?thesis
      using on_segment_keeps [OF keeps_segment_transfers(4) assms(2,3)
          assms(4) [unfolded prep segment_prepare_for_device_def fst_conv]] by blast
  qed
qed

text \<open>
  The invariant of the pool and its clients: every segment, handed out or free, has the size,
  the alignment and a place of its own in a live allocation of the current generation.
\<close>

definition config_ok :: "'c pool \<Rightarrow> bool" where
  "config_ok p \<longleftrightarrow> 0 < pl_segment_size p \<and> pl_segment_size p \<le> pl_page_size p \<and>
     pl_page_size p mod pl_segment_size p = 0 \<and> is_power_of_two (pl_alignment p) \<and>
     pl_segment_size p mod pl_alignment p = 0"

definition fits :: "'c pool \<Rightarrow> 'a \<Rightarrow> 'c dma_buffer \<Rightarrow> bool" where
  "fits p s b \<longleftrightarrow> holds s b \<and> length (db_bytes b) = pl_segment_size p \<and>
     db_alignment b = pl_alignment p \<and> db_offset b mod pl_segment_size p = 0"

definition place :: "'c dma_buffer \<Rightarrow> 'c \<times> nat" where
  "place b = (db_token b, db_offset b)"

definition pool_inv :: "('c, 'a) pool_sys \<Rightarrow> bool" where
  "pool_inv S \<longleftrightarrow> inv (ps_backend S) \<and> config_ok (ps_pool S) \<and>
     length (pl_free (ps_pool S)) \<le> pl_high_watermark (ps_pool S) \<and>
     (\<forall>b \<in> set (buffers S). fits (ps_pool S) (ps_backend S) b) \<and>
     distinct (map place (buffers S))"

lemma fits_disjoint:
  assumes "fits p s b" "fits p s b'" "place b \<noteq> place b'"
  shows "disjoint_buffers b b'"
proof (cases "db_token b = db_token b'")
  case True
  then have ne: "db_offset b \<noteq> db_offset b'"
    using assms(3) by (simp add: place_def)
  let ?n = "pl_segment_size p"
  obtain i j where o: "db_offset b = ?n * i" "db_offset b' = ?n * j"
    using assms(1,2) by (auto simp: fits_def elim!: dvdE simp flip: dvd_eq_mod_eq_0)
  have "i < j \<or> j < i" using ne o by (metis linorder_neqE_nat)
  then have "?n * i + ?n \<le> ?n * j \<or> ?n * j + ?n \<le> ?n * i"
    by (metis Suc_leI mult_Suc_right add.commute mult_le_mono2)
  then show ?thesis
    using assms(1,2) o by (simp add: disjoint_buffers_def fits_def)
qed (simp add: disjoint_buffers_def)


lemma release_on_error_generation:
  "release_on_error B d m s = (r, s') \<Longrightarrow>
     (\<And>r2 t. m s = (r2, t) \<Longrightarrow> be_generation B t = be_generation B s) \<Longrightarrow>
     be_generation B s' = be_generation B s"
  by (auto simp: release_on_error_def release_generation split: prod.splits res.splits)

lemma allocate_err_same:
  assumes "inv s" "dma_allocate B dev sz c dir coh s = (Err e, s')"
  shows "same_backend s s'"
proof -
  note L = allocate_no_leak [OF assms]
  have "be_generation B s' = be_generation B s"
  proof (cases "sz = 0 \<or> dc_alignment c = 0 \<or> \<not> is_power_of_two (dc_alignment c)")
    case True
    then show ?thesis using assms by (auto simp: dma_allocate_def)
  next
    case False
    then have sz: "sz > 0" "is_power_of_two (dc_alignment c)" by auto
    obtain a s1 where a: "be_alloc_dma_constrained B sz c dir coh s = (a, s1)" by fastforce
    show ?thesis
    proof (cases a)
      case (Err x)
      then show ?thesis
        using assms(2) False a alloc_err_generation by (auto simp: dma_allocate_def st_then_eq_Err)
    next
      case (Ok d)
      with a obtain m where s1: "inv s1" "be_generation B s1 = be_generation B s"
        "mem s1 d = Some m" "length m = sz"
        using alloc_ok [OF assms(1) sz] by fastforce
      obtain w s2 where w: "release_on_error B d (be_dma_write B d (0, sz) (replicate sz 0)) s1 = (w, s2)"
        by fastforce
      have g2: "be_generation B s2 = be_generation B s1"
        using dma_write [OF s1(1,3), of 0 sz "replicate sz 0"] s1(4)
        by (intro release_on_error_generation [OF w]) auto
      show ?thesis
      proof (cases w)
        case (Ok u)
        have i2: "inv s2" "mem s2 d = Some (replicate sz 0)"
          using zero_fill [OF s1(1,3,4) w] Ok by auto
        obtain y s3 where y: "release_on_error B d (\<lambda>s. if \<not> coh \<and> \<not> be_is_cache_coherent B s
           then be_sync_for_device B d (0, sz) s else (Ok (), s)) s2 = (y, s3)" by fastforce
        have "be_generation B s3 = be_generation B s2"
          using sync_for_device [OF i2, of 0 sz]
          by (intro release_on_error_generation [OF y]) (auto split: if_splits)
        moreover have "s' = s3"
          using assms(2) False a \<open>a = Ok d\<close> w Ok y
          by (cases y) (auto simp: dma_allocate_def)
        ultimately show ?thesis using g2 s1(2) by simp
      qed (use assms(2) False a Ok w g2 s1(2) in \<open>auto simp: dma_allocate_def\<close>)
    qed (use assms(2) False a in \<open>auto simp: dma_allocate_def\<close>)
  qed
  then show ?thesis
    using L by (simp add: same_backend_mem)
qed

lemma fits_same: "same_backend s s' \<Longrightarrow> fits p s b \<Longrightarrow> fits p s' b"
  using holds_same by (auto simp: fits_def)

lemma refill_spec:
  assumes "inv s" "config_ok p" "refill B dir (p, s) = (r, (p', s'))"
  shows "(\<exists>e. r = Err e \<and> p' = p \<and> same_backend s s') \<or> r = Panic \<or>
    (\<exists>page k. r = Ok (piece (pl_segment_size p) page k) \<and>
       Suc k * pl_segment_size p = pl_page_size p \<and>
       inv s' \<and> be_generation B s' = be_generation B s \<and> mem s (db_token page) = None \<and>
       mem s' = (mem s)(db_token page \<mapsto> replicate (pl_page_size p) 0) \<and>
       db_bytes page = replicate (pl_page_size p) 0 \<and> db_offset page = 0 \<and>
       db_alignment page = pl_alignment p \<and> db_generation page = be_generation B s \<and>
       p' = p\<lparr>pl_free := pl_free p @ take (pl_high_watermark p - length (pl_free p))
              (map (piece (pl_segment_size p) page) [0..<k])\<rparr>)"
proof -
  obtain a s1 where a: "alloc_streaming B (pl_device p) dir (pl_page_size p) (pl_alignment p) s = (a, s1)"
    by fastforce
  then have al: "dma_allocate B (pl_device p) (pl_page_size p) (dma_constraints_new (pl_alignment p))
      dir False s = (a, s1)"
    by (simp add: alloc_streaming_def alloc_streaming_with_constraints_def)
  show ?thesis
  proof (cases a)
    case (Err e)
    then show ?thesis
      using assms(3) a allocate_err_same [OF assms(1)] al by (auto simp: refill_def)
  next
    case (Ok page)
    note Z = allocate_zeroed [OF assms(1) al [unfolded Ok]]
    define k where "k = pl_page_size p div pl_segment_size p - 1"
    have "0 < pl_page_size p div pl_segment_size p"
      using assms(2) by (simp add: config_ok_def div_greater_zero_iff)
    then have k: "Suc k * pl_segment_size p = pl_page_size p"
      using assms(2) by (simp add: config_ok_def k_def) (metis mod_div_trivial mult.commute mult_div_mod_eq add.right_neutral)
    have "refill_loop B k page (p, s1) = (r, (p', s'))"
      using assms(3) a Ok by (simp add: refill_def k_def)
    then show ?thesis
      using refill_loop_eq [of p page B s1 k] Z k assms(2)
      by (auto simp: config_ok_def dma_constraints_new_def)
  qed (use assms(3) a in \<open>auto simp: refill_def\<close>)
qed


lemma pieces_fit:
  assumes "Suc k * n = N" "j \<le> k" "0 < n" "pl_segment_size p = n"
    and "db_bytes page = replicate N x" "db_offset page = 0" "db_alignment page = pl_alignment p"
    and "db_generation page = be_generation B s" "mem s (db_token page) = Some (replicate N 0)"
  shows "fits p s (piece n page j)"
proof -
  have le: "j * n + n \<le> N"
    using assms(1,2) by (metis add.commute mult_Suc mult_le_mono1 Suc_le_mono)
  then show ?thesis
    using assms by (simp add: fits_def holds_def)
qed

lemma pool_inv_allocated:
  assumes "pool_inv S" "pool_allocate B dir (ps_pool S, ps_backend S) = (Ok g, (p, s))"
  shows "pool_inv \<lparr>ps_pool = p, ps_out = g # ps_out S, ps_backend = s\<rparr>"
proof (cases "pl_free (ps_pool S) = []")
  case False
  then obtain fs x where f: "pl_free (ps_pool S) = fs @ [x]" by (metis rev_exhaust)
  then have "g = \<lparr>sg_dma = x, sg_reusable = True\<rparr>" "p = (ps_pool S)\<lparr>pl_free := fs\<rparr>"
    "s = ps_backend S"
    using assms(2) by (auto simp: pool_allocate_def st_then_def)
  then show ?thesis
    using assms(1) f by (auto simp: pool_inv_def buffers_def fits_def config_ok_def)
next
  case True
  obtain r q t where r: "refill B dir (ps_pool S, ps_backend S) = (r, (q, t))" by (metis surj_pair)
  let ?p = "ps_pool S" and ?n = "pl_segment_size (ps_pool S)"
  have I: "inv (ps_backend S)" "config_ok ?p" using assms(1) by (auto simp: pool_inv_def)
  obtain page k where A: "g = \<lparr>sg_dma = piece ?n page k, sg_reusable = True\<rparr>"
    "Suc k * ?n = pl_page_size ?p" "inv s" "be_generation B s = be_generation B (ps_backend S)"
    "mem (ps_backend S) (db_token page) = None"
    "mem s = (mem (ps_backend S))(db_token page \<mapsto> replicate (pl_page_size ?p) 0)"
    "db_bytes page = replicate (pl_page_size ?p) 0" "db_offset page = 0"
    "db_alignment page = pl_alignment ?p" "db_generation page = be_generation B (ps_backend S)"
    "p = ?p\<lparr>pl_free := take (pl_high_watermark ?p) (map (piece ?n page) [0..<k])\<rparr>"
    using refill_spec [OF I r] assms(2) r True by (auto simp: pool_allocate_def)
  have n: "0 < ?n" using I(2) by (simp add: config_ok_def)
  have cfg: "fits p t = fits ?p t" "config_ok p" for t
    using I(2) by (auto simp: A(11) fits_def config_ok_def fun_eq_iff)
  have new: "fits p s (piece ?n page j)" if "j \<le> k" for j
    unfolding cfg by (rule pieces_fit [OF A(2) that n refl A(7-9)]) (use A in auto)
  have old: "fits p s b \<and> db_token b \<noteq> db_token page" if "b \<in> set (map sg_dma (ps_out S))" for b
  proof -
    have "fits ?p (ps_backend S) b"
      using assms(1) that by (auto simp: pool_inv_def buffers_def)
    then show ?thesis
      unfolding cfg using A(4-6) by (auto simp: fits_def holds_def)
  qed
  have "distinct (map place (map (piece ?n page) [0..<Suc k]))"
    using n by (auto simp: distinct_map inj_on_def place_def simp del: upt_Suc)
  then have "distinct (place (piece ?n page k) #
      map place (take (pl_high_watermark ?p) (map (piece ?n page) [0..<k])))"
    by (auto simp flip: take_map dest: in_set_takeD)
  moreover have "set (take (pl_high_watermark ?p) (map (piece ?n page) [0..<k])) \<subseteq> piece ?n page ` {0..<k}"
    using set_take_subset by fastforce
  moreover have "db_token page \<noteq> db_token (sg_dma x)" if "x \<in> set (ps_out S)" for x
    using old [of "sg_dma x"] that by auto
  ultimately show ?thesis
    using assms(1) A(1,3) cfg(2) new old
    by (auto simp: pool_inv_def buffers_def A(11) place_def subset_iff)
qed


lemma pool_inv_failed:
  assumes "pool_inv S" "pool_allocate B dir (ps_pool S, ps_backend S) = (Err e, (p, s))"
  shows "pool_inv \<lparr>ps_pool = p, ps_out = ps_out S, ps_backend = s\<rparr>"
proof -
  have I: "inv (ps_backend S)" "config_ok (ps_pool S)" using assms(1) by (auto simp: pool_inv_def)
  have r: "refill B dir (ps_pool S, ps_backend S) = (Err e, (p, s))"
    using assms(2) by (auto simp: pool_allocate_def st_then_eq_Err split: if_splits)
  have p: "p = ps_pool S" "same_backend (ps_backend S) s"
    using refill_spec [OF I r] by auto
  then have "inv s" by (simp add: same_backend_def)
  then show ?thesis
    using assms(1) p(1) fits_same [OF p(2)] by (auto simp: pool_inv_def buffers_def)
qed

lemma pool_inv_operate:
  assumes "pool_inv S" "ps_out S = xs @ g # ys" "m \<in> segment_ops B"
    and "m (g, ps_backend S) = (r, (g', s))"
  shows "pool_inv (S\<lparr>ps_out := xs @ g' # ys, ps_backend := s\<rparr>)"
proof -
  have g: "fits (ps_pool S) (ps_backend S) (sg_dma g)" and i: "inv (ps_backend S)"
    using assms(1,2) by (auto simp: pool_inv_def buffers_def)
  then have h: "holds (ps_backend S) (sg_dma g)" by (simp add: fits_def)
  note K = segment_ops_keep [OF assms(3) i h assms(4)]
  have "fits (ps_pool S) s (sg_dma g')" "place (sg_dma g') = place (sg_dma g)"
    using K g by (auto simp: fits_def place_def)
  moreover have "fits (ps_pool S) s b" if "fits (ps_pool S) (ps_backend S) b" for b
    using that K fits_same by blast
  moreover have "inv s" using K by (simp add: same_backend_def)
  ultimately show ?thesis
    using assms(1,2) by (auto simp: pool_inv_def buffers_def)
qed

lemma pool_inv_dropped:
  assumes "pool_inv S" "ps_out S = xs @ g # ys"
  shows "pool_inv (S\<lparr>ps_pool := drop_segment g (ps_pool S), ps_out := xs @ ys\<rparr>)"
  using assms
  by (auto simp: pool_inv_def buffers_def drop_segment_def push_free_def config_ok_def fits_def)

lemma pool_inv_reclaim:
  assumes "pool_inv S" "d \<notin> db_token ` set (buffers S)"
  shows "pool_inv (S\<lparr>ps_backend := be_release_dma B d (ps_backend S)\<rparr>)"
proof -
  have i: "inv (ps_backend S)" using assms(1) by (simp add: pool_inv_def)
  have "fits (ps_pool S) (be_release_dma B d (ps_backend S)) b" if "b \<in> set (buffers S)" for b
  proof -
    have "db_token b \<noteq> d" "fits (ps_pool S) (ps_backend S) b"
      using that assms by (auto simp: pool_inv_def)
    then show ?thesis
      using release_dma [OF i, of d] by (auto simp: fits_def holds_def release_generation)
  qed
  then show ?thesis
    using assms(1) release_dma [OF i, of d] by (simp add: pool_inv_def buffers_def)
qed

lemma pool_step_inv: "pool_step B dir S S' \<Longrightarrow> pool_inv S \<Longrightarrow> pool_inv S'"
  by (induction rule: pool_step.induct)
    (auto intro: pool_inv_allocated pool_inv_failed pool_inv_operate pool_inv_dropped pool_inv_reclaim)

lemma pool_steps_inv: "(pool_step B dir)\<^sup>*\<^sup>* S S' \<Longrightarrow> pool_inv S \<Longrightarrow> pool_inv S'"
  by (induction rule: rtranclp_induct) (auto intro: pool_step_inv)

lemma pool_new_inv:
  "dma_pool_new dev segsize pagesize alignment hw = Ok p \<Longrightarrow> inv s \<Longrightarrow>
     pool_inv \<lparr>ps_pool = p, ps_out = [], ps_backend = s\<rparr>"
  by (auto simp: dma_pool_new_def pool_inv_def buffers_def config_ok_def split: if_splits)

lemma pool_inv_disjoint:
  assumes "pool_inv S" "i < length (buffers S)" "j < length (buffers S)" "i \<noteq> j"
  shows "disjoint_buffers (buffers S ! i) (buffers S ! j)"
proof (rule fits_disjoint)
  show "fits (ps_pool S) (ps_backend S) (buffers S ! i)" "fits (ps_pool S) (ps_backend S) (buffers S ! j)"
    using assms(1-3) by (auto simp: pool_inv_def)
  have "distinct (map place (buffers S))" using assms(1) by (simp add: pool_inv_def)
  then show "place (buffers S ! i) \<noteq> place (buffers S ! j)"
    using assms(2-4) by (metis distinct_conv_nth length_map nth_map)
qed

end

section \<open>The deterministic backend provides the interface\<close>

lemma arena_extents:
  assumes "arena s' = arena s"
  shows "map_option length (det_mem s' e) = map_option length (det_mem s e)"
proof (cases "map_of (dt_dmas s) e")
  case (Some d)
  then show ?thesis
    using arena_lookup [OF assms Some] by (auto simp: det_mem_def dma_shape_def)
next
  case None
  have "map_of (dt_dmas s') e = None"
  proof (rule ccontr)
    assume "map_of (dt_dmas s') e \<noteq> None"
    then obtain d where "map_of (dt_dmas s') e = Some d" by auto
    then show False
      using arena_lookup [OF assms [symmetric]] None by fastforce
  qed
  then show ?thesis using None by (simp add: det_mem_def)
qed

lemma det_streaming_cpu_dirty_mem:
  "det_streaming_cpu_dirty i rg s = (r, s') \<Longrightarrow> det_mem s' = det_mem s"
  by (auto simp: det_streaming_cpu_dirty_def split: if_splits res.splits dest: set_ownership_inv)

lemma det_sync_for_cpu_mem:
  assumes "det_sync_for_cpu i rg s = (r, s')"
  shows "det_mem s' = det_mem s"
proof (cases "map_of (dt_dmas s) i")
  case (Some e)
  obtain y s2 where y: "st_then (set_ownership i rg Cpu e)
      (\<lambda>_ s. (Ok (), log_op (SyncForCpu i rg) s)) s = (y, s2)" by fastforce
  show ?thesis
    using assms Some sync_set_inv [OF Some y] y
    by (auto simp: det_sync_for_cpu_def get_dma_def slice_def split: if_splits)
qed (use assms in \<open>auto simp: det_sync_for_cpu_def get_dma_def\<close>)

interpretation det_pool: pool_backend det_backend det_inv det_mem
proof unfold_locales
  fix s d m lo hi r s'
  assume i: "det_inv s" and "be_streaming_cpu_dirty det_backend d (lo, hi) s = (r, s')"
  then have y: "det_streaming_cpu_dirty d (lo, hi) s = (r, s')" by simp
  show "det_inv s' \<and> be_generation det_backend s' = be_generation det_backend s \<and> det_mem s' = det_mem s"
    using det_streaming_cpu_dirty_arena [OF y] det_streaming_cpu_dirty_mem [OF y] i
    by (simp add: det_inv_arena) (simp add: arena_def)
next
  fix s d m lo hi r s'
  assume i: "det_inv s" and "be_sync_for_cpu det_backend d (lo, hi) s = (r, s')"
  then have y: "det_sync_for_cpu d (lo, hi) s = (r, s')" by simp
  show "det_inv s' \<and> be_generation det_backend s' = be_generation det_backend s \<and> det_mem s' = det_mem s"
    using det_sync_for_cpu_arena [OF y] det_sync_for_cpu_mem [OF y] i
    by (simp add: det_inv_arena) (simp add: arena_def)
next
  fix s d rg rb s' e
  assume i: "det_inv s" and "be_dma_read det_backend d rg s = (rb, s')"
  then have y: "det_dma_read d rg s = (rb, s')" by simp
  show "map_option length (det_mem s' e) = map_option length (det_mem s e)"
    by (rule arena_extents [OF apply_then_reads_arena [OF i y [unfolded det_dma_read_def]]])
next
  fix sz c dir coh s x s'
  assume "be_alloc_dma_constrained det_backend sz c dir coh s = (Err x, s')"
  then have y: "det_alloc_dma_constrained sz c dir coh s = (Err x, s')" by simp
  show "be_generation det_backend s' = be_generation det_backend s"
    using det_alloc_dma_constrained_cases [OF y] det_alloc_dma_not_Ok [of sz "dc_alignment c" dir coh s "Err x" s']
    by (auto simp: arena_def)
next
  fix d s
  show "be_generation det_backend (be_release_dma det_backend d s) = be_generation det_backend s"
    by (simp add: det_release_dma_def)
qed

section \<open>Properties\<close>

text \<open>C12: pool segments never alias. However clients allocate, write, synchronise and drop
  segments of a pool, every segment, handed out or free, has the pool's segment size and lies in
  a live allocation of the device, no two of them overlap, and the pool never keeps more free
  segments than its high-watermark.\<close>

theorem pool_segments_disjoint:
  assumes "det_reachable s" and "dma_pool_new dev segment_size page_size alignment high_watermark = Ok p"
    and "(pool_step det_backend dir)\<^sup>*\<^sup>* \<lparr>ps_pool = p, ps_out = [], ps_backend = s\<rparr> S"
  shows "free_segments (ps_pool S) \<le> pl_high_watermark (ps_pool S)
    \<and> (\<forall>b \<in> set (buffers S). length (db_bytes b) = pl_segment_size (ps_pool S)
         \<and> window (det_mem (ps_backend S)) b \<noteq> None)
    \<and> (\<forall>i j. i < length (buffers S) \<longrightarrow> j < length (buffers S) \<longrightarrow> i \<noteq> j \<longrightarrow>
         disjoint_buffers (buffers S ! i) (buffers S ! j))"
proof -
  have I: "det_pool.pool_inv S"
    by (rule det_pool.pool_steps_inv [OF assms(3) det_pool.pool_new_inv
          [OF assms(2) det_reachable_inv [OF assms(1)]]])
  then have "\<forall>b \<in> set (buffers S). length (db_bytes b) = pl_segment_size (ps_pool S)
         \<and> window (det_mem (ps_backend S)) b \<noteq> None"
    by (auto simp: det_pool.pool_inv_def det_pool.fits_def det_pool.holds_def window_def)
  then show ?thesis
    using I det_pool.pool_inv_disjoint [OF I]
    by (auto simp: det_pool.pool_inv_def free_segments_def)
qed

definition sample_pool :: "u64 pool" where
  "sample_pool = \<lparr>pl_device = \<lparr>dev_shared = 0\<rparr>, pl_segment_size = 64, pl_page_size = 128,
     pl_alignment = 16, pl_high_watermark = 8, pl_free = []\<rparr>"

lemma is_power_of_two_16: "is_power_of_two 16"
  by (simp add: is_power_of_two.simps)

lemma align_up_first_16: "align_up 0x10000000 15 = Ok 0x10000000"
  by (simp add: align_up_def checked_add_word_def)

lemmas pool_run =
  pool_allocate_def refill_def sample_pool_def split_at_def push_free_def st_then_def
  is_power_of_two_16 align_up_first_16 noncoherent_default_def edu_run

lemma sample_pool_new: "dma_pool_new \<lparr>dev_shared = 0\<rparr> 64 128 16 8 = Ok sample_pool"
  by (simp add: dma_pool_new_def sample_pool_def is_power_of_two_16)

lemma sample_pool_allocates:
  "\<exists>g p' s'. pool_allocate det_backend Bidirectional (sample_pool, det_default) = (Ok g, (p', s'))"
  by (simp add: pool_run)

theorem pool_segments_disjoint_witness:
  "\<exists>S. (pool_step det_backend Bidirectional)\<^sup>*\<^sup>*
       \<lparr>ps_pool = sample_pool, ps_out = [], ps_backend = det_default\<rparr> S \<and> ps_out S \<noteq> [] \<and>
     free_segments (ps_pool S) \<le> pl_high_watermark (ps_pool S)"
proof -
  let ?S = "\<lparr>ps_pool = sample_pool, ps_out = [], ps_backend = det_default\<rparr>"
  obtain g p' s' where
    "pool_allocate det_backend Bidirectional (ps_pool ?S, ps_backend ?S) = (Ok g, (p', s'))"
    using sample_pool_allocates by auto
  from pool_step.allocate [of det_backend Bidirectional, OF this]
  have st: "(pool_step det_backend Bidirectional)\<^sup>*\<^sup>* ?S
      \<lparr>ps_pool = p', ps_out = [g], ps_backend = s'\<rparr>"
    by auto
  from pool_segments_disjoint [OF det_default_reachable(1) sample_pool_new st] st show ?thesis
    by fastforce
qed

text \<open>C13: an empty pool carves one zeroed page. When a pool without free segments serves a
  request, the request gets the last segment of a fresh page, the others become free in the
  order of their offsets as far as the high-watermark allows, and all of them read as zero.\<close>

theorem pool_refill_carves:
  assumes "det_reachable s" and "dma_pool_new dev n page_size alignment hw = Ok p"
    and "pool_allocate det_backend dir (p, s) = (Ok g, (p', s'))"
  shows "\<exists>page. det_mem s (db_token page) = None
    \<and> det_mem s' = (det_mem s)(db_token page \<mapsto> replicate page_size 0)
    \<and> db_bytes page = replicate page_size 0 \<and> db_offset page = 0
    \<and> g = \<lparr>sg_dma = piece n page (page_size div n - 1), sg_reusable = True\<rparr>
    \<and> pl_free p' = take hw (map (piece n page) [0..<page_size div n - 1])"
proof -
  have P: "det_pool.config_ok p" "pl_free p = []" "pl_segment_size p = n"
    "pl_page_size p = page_size" "pl_high_watermark p = hw" "0 < n"
    using assms(2) by (auto simp: dma_pool_new_def det_pool.config_ok_def split: if_splits)
  obtain r q t where r: "refill det_backend dir (p, s) = (r, (q, t))" by (metis surj_pair)
  obtain page k where A: "g = \<lparr>sg_dma = piece n page k, sg_reusable = True\<rparr>" "Suc k * n = page_size"
    "det_mem s (db_token page) = None"
    "det_mem s' = (det_mem s)(db_token page \<mapsto> replicate page_size 0)"
    "db_bytes page = replicate page_size 0" "db_offset page = 0"
    "p' = p\<lparr>pl_free := take hw (map (piece n page) [0..<k])\<rparr>"
    using det_pool.refill_spec [OF det_reachable_inv [OF assms(1)] P(1) r] assms(3) r P
    by (auto simp: pool_allocate_def)
  have "page_size div n = Suc k"
    using A(2) P(6) by (metis nonzero_mult_div_cancel_right not_less_zero)
  then show ?thesis
    using A by (intro exI [of _ page]) simp
qed

theorem pool_refill_carves_witness:
  "\<exists>g p' s' page. pool_allocate det_backend Bidirectional (sample_pool, det_default) = (Ok g, (p', s'))
     \<and> pl_free p' = take 8 (map (piece 64 page) [0..<1])"
proof -
  obtain g p' s' where
    a: "pool_allocate det_backend Bidirectional (sample_pool, det_default) = (Ok g, (p', s'))"
    using sample_pool_allocates by auto
  from pool_refill_carves [OF det_default_reachable(1) sample_pool_new a] a show ?thesis by auto
qed

definition dirty_run :: "(u64 pool \<times> det, hw_error, u64 segment) op" where
  "dirty_run =
     st_then (pool_allocate det_backend Bidirectional) (\<lambda>g ps.
       let (_, (g1, s1)) = segment_write det_backend 0 [1, 2] (g, snd ps);
           (_, (g2, s2)) = segment_sync_for_device det_backend 0 1 (g1, s1)
       in pool_allocate det_backend Bidirectional (drop_segment g2 (fst ps), s2))"


end
