(* ===== verification/Driver_Runtime.thy ===== *)
theory Driver_Runtime
  imports Drv_Prelude "HOL-Library.Sublist"
begin

text \<open>
  The device-neutral state machines of \<open>crates/platform/driver-runtime/src/lib.rs\<close>: deadlines,
  completion tracking, publication of a resource to hardware, the interrupt life cycle, and
  transcript events. A method on \<open>&mut self\<close> that may refuse returns the new state with its
  result; refusing leaves the state alone.
\<close>

section \<open>Deadlines and completion\<close>

record deadline =
  expires_at :: u64

definition deadline_checked :: "u64 \<Rightarrow> u64 \<Rightarrow> deadline option" where
  "deadline_checked start timeout =
     map_option (\<lambda>e. \<lparr>expires_at = e\<rparr>) (checked_add_word start timeout)"

definition expired :: "deadline \<Rightarrow> u64 \<Rightarrow> bool" where
  "expired d now \<longleftrightarrow> now \<ge> expires_at d"

definition remaining :: "deadline \<Rightarrow> u64 \<Rightarrow> u64" where
  "remaining d now = saturating_sub_word (expires_at d) now"

datatype completion =
  Partial u16 u16
| Complete
| TimedOut u16 u16

record completion_tracker =
  ct_total :: u16
  ct_completed :: u16
  ct_deadline :: deadline

definition tracker_new :: "u16 \<Rightarrow> u64 \<Rightarrow> u64 \<Rightarrow> completion_tracker option" where
  "tracker_new extent start timeout =
     (if extent = 0 then None
      else map_option (\<lambda>d. \<lparr>ct_total = extent, ct_completed = 0, ct_deadline = d\<rparr>)
             (deadline_checked start timeout))"

definition observe ::
  "u16 \<Rightarrow> u64 \<Rightarrow> completion_tracker \<Rightarrow> completion option \<times> completion_tracker" where
  "observe completed now t =
     (if completed < ct_completed t \<or> completed > ct_total t then (None, t)
      else (Some (if completed = ct_total t then Complete
                  else if expired (ct_deadline t) now then TimedOut completed (ct_total t)
                  else Partial completed (ct_total t)),
            t\<lparr>ct_completed := completed\<rparr>))"

section \<open>Publication\<close>

datatype publication_state = Local | Published | Acknowledged | Uncertain

datatype publication_error = PublicationInvalidTransition

definition pub_begin ::
  "publication_state \<Rightarrow> (publication_error, unit) res \<times> publication_state" where
  "pub_begin p = (if p \<noteq> Local then (Err PublicationInvalidTransition, p) else (Ok (), Uncertain))"

definition pub_published ::
  "publication_state \<Rightarrow> (publication_error, unit) res \<times> publication_state" where
  "pub_published p =
     (if p \<noteq> Uncertain then (Err PublicationInvalidTransition, p) else (Ok (), Published))"

definition pub_acknowledged ::
  "publication_state \<Rightarrow> (publication_error, unit) res \<times> publication_state" where
  "pub_acknowledged p =
     (if p \<noteq> Published then (Err PublicationInvalidTransition, p) else (Ok (), Acknowledged))"

definition requires_containment :: "publication_state \<Rightarrow> bool" where
  "requires_containment p \<longleftrightarrow> p = Published \<or> p = Uncertain"

section \<open>Interrupts\<close>

datatype irq_kind = Intx | Msi | Msix

record irq_capability =
  ic_kind :: irq_kind
  ic_count :: u32
  ic_eventfd :: bool

definition usable :: "irq_kind \<Rightarrow> irq_capability \<Rightarrow> bool" where
  "usable kind item \<longleftrightarrow> ic_kind item = kind \<and> ic_count item \<noteq> 0 \<and> ic_eventfd item"

fun find_map :: "('a \<Rightarrow> 'b option) \<Rightarrow> 'a list \<Rightarrow> 'b option" where
  "find_map f [] = None"
| "find_map f (x # xs) = (case f x of Some y \<Rightarrow> Some y | None \<Rightarrow> find_map f xs)"

definition select_irq :: "irq_capability list \<Rightarrow> irq_capability option" where
  "select_irq capabilities =
     find_map (\<lambda>kind. List.find (usable kind) capabilities) [Msix, Msi, Intx]"

datatype irq_lifecycle =
  Uninstalled
| EventfdInstalled irq_capability
| DeviceSourceEnabled irq_capability
| EventObserved irq_capability
| Disabled

datatype irq_lifecycle_error = IrqInvalidTransition | EmptyEvent

definition irq_install ::
  "irq_capability \<Rightarrow> irq_lifecycle \<Rightarrow> (irq_lifecycle_error, irq_lifecycle) res" where
  "irq_install capability l =
     (if l \<noteq> Uninstalled \<or> ic_count capability = 0 \<or> \<not> ic_eventfd capability
      then Err IrqInvalidTransition else Ok (EventfdInstalled capability))"

definition enable_device_source ::
  "irq_lifecycle \<Rightarrow> (irq_lifecycle_error, irq_lifecycle) res" where
  "enable_device_source l =
     (case l of EventfdInstalled c \<Rightarrow> Ok (DeviceSourceEnabled c) | _ \<Rightarrow> Err IrqInvalidTransition)"

definition observe_event ::
  "u64 \<Rightarrow> irq_lifecycle \<Rightarrow> (irq_lifecycle_error, irq_lifecycle) res" where
  "observe_event counter l =
     (if counter = 0 then Err EmptyEvent
      else case l of DeviceSourceEnabled c \<Rightarrow> Ok (EventObserved c) | _ \<Rightarrow> Err IrqInvalidTransition)"

definition irq_disable :: "irq_lifecycle \<Rightarrow> (irq_lifecycle_error, irq_lifecycle) res" where
  "irq_disable l =
     (case l of EventfdInstalled _ \<Rightarrow> Ok Disabled | DeviceSourceEnabled _ \<Rightarrow> Ok Disabled
      | EventObserved _ \<Rightarrow> Ok Disabled | _ \<Rightarrow> Err IrqInvalidTransition)"

definition may_unmask_device :: "irq_lifecycle \<Rightarrow> bool" where
  "may_unmask_device l = (case l of EventfdInstalled _ \<Rightarrow> True | _ \<Rightarrow> False)"

section \<open>Transcripts\<close>

datatype transcript_value = Public string | Redacted

record transcript_event =
  te_field :: string
  te_value :: transcript_value

definition transcript_public :: "string \<Rightarrow> string \<Rightarrow> transcript_event" where
  "transcript_public field v = \<lparr>te_field = field, te_value = Public v\<rparr>"

definition transcript_secret :: "string \<Rightarrow> transcript_event" where
  "transcript_secret field = \<lparr>te_field = field, te_value = Redacted\<rparr>"

definition transcript_text :: "transcript_event \<Rightarrow> string" where
  "transcript_text e = (case te_value e of Public v \<Rightarrow> v | Redacted \<Rightarrow> ''[redacted]'')"

definition replace_char :: "char \<Rightarrow> string \<Rightarrow> string \<Rightarrow> string" where
  "replace_char c by_str = concat \<circ> map (\<lambda>x. if x = c then by_str else [x])"

definition transcript_json :: "transcript_event \<Rightarrow> string" where
  "transcript_json e =
     (let escaped = replace_char (CHR 0x22) [CHR 0x5C, CHR 0x22]
                      (replace_char (CHR 0x5C) [CHR 0x5C, CHR 0x5C] (transcript_text e))
      in [CHR 0x7B, CHR 0x22] @ te_field e @ [CHR 0x22, CHR 0x3A, CHR 0x22] @ escaped
           @ [CHR 0x22, CHR 0x7D])"

section \<open>Properties\<close>

datatype publication_call = Begin | Publish | Acknowledge

primrec pub_call ::
  "publication_call \<Rightarrow> publication_state \<Rightarrow> (publication_error, unit) res \<times> publication_state" where
  "pub_call Begin p = pub_begin p"
| "pub_call Publish p = pub_published p"
| "pub_call Acknowledge p = pub_acknowledged p"

definition pub_run :: "publication_state \<Rightarrow> publication_call list \<Rightarrow> publication_state" where
  "pub_run p cs = foldl (\<lambda>p c. snd (pub_call c p)) p cs"

lemma pub_run_simps [simp]:
  "pub_run p [] = p" "pub_run p (c # cs) = pub_run (snd (pub_call c p)) cs"
  by (simp_all add: pub_run_def)

lemmas pub_defs = pub_begin_def pub_published_def pub_acknowledged_def

lemma pub_run_Acknowledged [simp]: "pub_run Acknowledged cs = Acknowledged"
proof (induction cs)
  case (Cons c cs)
  then show ?case by (cases c) (simp_all add: pub_defs)
qed simp

lemma pub_run_Published:
  "pub_run Published cs = (if Acknowledge \<in> set cs then Acknowledged else Published)"
proof (induction cs)
  case (Cons c cs)
  then show ?case by (cases c) (simp_all add: pub_defs)
qed simp

lemma pub_run_Uncertain:
  "pub_run Uncertain cs =
     (if subseq [Publish, Acknowledge] cs then Acknowledged
      else if Publish \<in> set cs then Published else Uncertain)"
proof (induction cs)
  case (Cons c cs)
  then show ?case
    by (cases c) (auto simp: pub_defs pub_run_Published subseq_Cons2_iff subseq_singleton_left)
qed simp

lemma pub_run_Local:
  "pub_run Local cs = (if Begin \<in> set cs then pub_run Uncertain (tl (dropWhile (\<lambda>c. c \<noteq> Begin) cs))
     else Local)"
proof (induction cs)
  case (Cons c cs)
  then show ?case by (cases c) (simp_all add: pub_defs)
qed simp

lemma subseq_after_Begin:
  "Begin \<in> set cs \<Longrightarrow>
     subseq (Begin # xs) cs \<longleftrightarrow> subseq xs (tl (dropWhile (\<lambda>c. c \<noteq> Begin) cs))"
proof (induction cs)
  case (Cons c cs)
  then show ?case by (cases "c = Begin") (auto simp: subseq_Cons2_iff)
qed simp

text \<open>C15: a resource that may have reached the hardware is never treated as reusable early. From
  a fresh resource and for every sequence of calls, accepted or refused, containment is required
  exactly when publication has been started and the calls do not contain start, publication and
  acknowledgement in that order; and publication can be started only once.\<close>

theorem publication_containment:
  "requires_containment (pub_run Local cs) \<longleftrightarrow>
     Begin \<in> set cs \<and> \<not> subseq [Begin, Publish, Acknowledge] cs"
  by (simp add: pub_run_Local pub_run_Uncertain requires_containment_def subseq_after_Begin)

section \<open>Interrupt life cycle\<close>

inductive irq_step :: "irq_lifecycle \<Rightarrow> irq_lifecycle \<Rightarrow> bool" where
  install: "irq_install c l = Ok l' \<Longrightarrow> irq_step l l'"
| enable: "enable_device_source l = Ok l' \<Longrightarrow> irq_step l l'"
| event: "observe_event n l = Ok l' \<Longrightarrow> irq_step l l'"
| disable: "irq_disable l = Ok l' \<Longrightarrow> irq_step l l'"

inductive_simps irq_step_iff: "irq_step l l'"

definition irq_capability_of :: "irq_lifecycle \<Rightarrow> irq_capability option" where
  "irq_capability_of l =
     (case l of EventfdInstalled c \<Rightarrow> Some c | DeviceSourceEnabled c \<Rightarrow> Some c
      | EventObserved c \<Rightarrow> Some c | _ \<Rightarrow> None)"

lemmas irq_defs = irq_install_def enable_device_source_def observe_event_def irq_disable_def

lemma irq_step_cases:
  assumes "irq_step l l'"
  shows "(\<exists>c. l = Uninstalled \<and> l' = EventfdInstalled c \<and> ic_count c \<noteq> 0 \<and> ic_eventfd c)
    \<or> (\<exists>c. l = EventfdInstalled c \<and> l' = DeviceSourceEnabled c)
    \<or> (\<exists>c. l = DeviceSourceEnabled c \<and> l' = EventObserved c)
    \<or> (irq_capability_of l \<noteq> None \<and> l' = Disabled)"
  using assms
  by (auto simp: irq_step_iff irq_defs irq_capability_of_def split: if_splits irq_lifecycle.splits)

lemma irq_steps_valid:
  "irq_step\<^sup>*\<^sup>* Uninstalled l \<Longrightarrow> irq_capability_of l = Some c \<Longrightarrow> ic_count c \<noteq> 0 \<and> ic_eventfd c"
proof (induction arbitrary: c rule: rtranclp_induct)
  case base
  then show ?case by (simp add: irq_capability_of_def)
next
  case (step l l')
  then show ?case
    using irq_step_cases [OF step.hyps(2)] by (auto simp: irq_capability_of_def)
qed

lemma irq_disabled_final: "\<not> irq_step Disabled l"
  by (simp add: irq_step_iff irq_defs)

text \<open>C16: interrupts are enabled at the device only over an installed event descriptor. Every
  state reached from \<open>Uninstalled\<close> carries only a capability with vectors and an event
  descriptor; the step that enables the device source starts in the one state that permits
  unmasking, with the same capability; and after disabling nothing is possible.\<close>

theorem irq_enable_needs_eventfd:
  assumes "irq_step\<^sup>*\<^sup>* Uninstalled l"
  shows "(\<forall>c. irq_capability_of l = Some c \<longrightarrow> ic_count c \<noteq> 0 \<and> ic_eventfd c)
    \<and> (\<forall>c. irq_step l (DeviceSourceEnabled c) \<longrightarrow> may_unmask_device l \<and> l = EventfdInstalled c)
    \<and> (l = Disabled \<longrightarrow> (\<forall>l'. \<not> irq_step l l'))"
  using irq_steps_valid [OF assms] irq_disabled_final
  by (auto simp: may_unmask_device_def dest: irq_step_cases)

theorem irq_enable_needs_eventfd_witness:
  "irq_step\<^sup>*\<^sup>* Uninstalled (EventfdInstalled \<lparr>ic_kind = Msi, ic_count = 1, ic_eventfd = True\<rparr>)
   \<and> may_unmask_device (EventfdInstalled \<lparr>ic_kind = Msi, ic_count = 1, ic_eventfd = True\<rparr>)"
proof -
  let ?c = "\<lparr>ic_kind = Msi, ic_count = 1, ic_eventfd = True\<rparr>"
  have "irq_step Uninstalled (EventfdInstalled ?c)"
    by (rule irq_step.install [of ?c]) (simp add: irq_install_def)
  then have r: "irq_step\<^sup>*\<^sup>* Uninstalled (EventfdInstalled ?c)" by blast
  have "irq_step (EventfdInstalled ?c) (DeviceSourceEnabled ?c)"
    by (rule irq_step.enable) (simp add: enable_device_source_def)
  with irq_enable_needs_eventfd [OF r] r show ?thesis by blast
qed

definition irq_rank :: "irq_kind \<Rightarrow> nat" where
  "irq_rank kind = (case kind of Msix \<Rightarrow> 0 | Msi \<Rightarrow> 1 | Intx \<Rightarrow> 2)"

text \<open>Interrupt selection takes the best usable capability. It finds one exactly when a
  capability has vectors and an event descriptor, the result is one of the capabilities and
  usable, and no usable capability is of a better kind (MSI-X before MSI before INTx).\<close>

theorem select_irq_best:
  "(select_irq cs = None \<longleftrightarrow> (\<forall>c \<in> set cs. ic_count c = 0 \<or> \<not> ic_eventfd c))
   \<and> (\<forall>c. select_irq cs = Some c \<longrightarrow> c \<in> set cs \<and> ic_count c \<noteq> 0 \<and> ic_eventfd c
        \<and> (\<forall>d \<in> set cs. ic_count d \<noteq> 0 \<and> ic_eventfd d \<longrightarrow> irq_rank (ic_kind c) \<le> irq_rank (ic_kind d)))"
proof -
  have N: "List.find (usable k) cs = None \<longleftrightarrow> (\<forall>c \<in> set cs. \<not> usable k c)" for k
    by (auto simp: find_None_iff)
  have S: "List.find (usable k) cs = Some c \<Longrightarrow> c \<in> set cs \<and> usable k c" for k c
    by (auto simp: find_Some_iff)
  have kinds: "k = Msix \<or> k = Msi \<or> k = Intx" for k by (cases k) auto
  show ?thesis
  proof (intro conjI allI impI)
    show "select_irq cs = None \<longleftrightarrow> (\<forall>c \<in> set cs. ic_count c = 0 \<or> \<not> ic_eventfd c)"
      using kinds by (auto simp: select_irq_def N usable_def split: option.splits dest!: S)
  next
    fix c assume "select_irq cs = Some c"
    then consider "usable Msix c" "c \<in> set cs"
      | "usable Msi c" "c \<in> set cs" "\<forall>d \<in> set cs. \<not> usable Msix d"
      | "usable Intx c" "c \<in> set cs" "\<forall>d \<in> set cs. \<not> usable Msix d" "\<forall>d \<in> set cs. \<not> usable Msi d"
      by (auto simp: select_irq_def N split: option.splits dest!: S)
    then show "c \<in> set cs" "ic_count c \<noteq> 0" "ic_eventfd c"
      and "\<forall>d \<in> set cs. ic_count d \<noteq> 0 \<and> ic_eventfd d \<longrightarrow> irq_rank (ic_kind c) \<le> irq_rank (ic_kind d)"
      by (cases; force simp: usable_def irq_rank_def split: irq_kind.splits)+
  qed
qed

theorem select_irq_best_witness:
  "\<exists>c. select_irq [\<lparr>ic_kind = Intx, ic_count = 1, ic_eventfd = True\<rparr>,
                    \<lparr>ic_kind = Msi, ic_count = 4, ic_eventfd = True\<rparr>,
                    \<lparr>ic_kind = Msix, ic_count = 0, ic_eventfd = True\<rparr>] = Some c
     \<and> irq_rank (ic_kind c) \<le> irq_rank Msi \<and> ic_kind c = Msi"
proof -
  let ?cs = "[\<lparr>ic_kind = Intx, ic_count = 1, ic_eventfd = True\<rparr>,
              \<lparr>ic_kind = Msi, ic_count = 4, ic_eventfd = True\<rparr>,
              \<lparr>ic_kind = Msix, ic_count = 0, ic_eventfd = True\<rparr>]"
  have "select_irq ?cs = Some \<lparr>ic_kind = Msi, ic_count = 4, ic_eventfd = True\<rparr>"
    by (simp add: select_irq_def usable_def)
  with select_irq_best [of ?cs] show ?thesis by fastforce
qed

section \<open>Completion\<close>

text \<open>The observations a tracker accepts, with the time and the verdict of each.\<close>

fun accepted ::
  "(u16 \<times> u64) list \<Rightarrow> completion_tracker \<Rightarrow> (u16 \<times> u64 \<times> completion) list" where
  "accepted [] t = []"
| "accepted ((n, now) # rest) t =
     (case observe n now t of
        (Some r, t') \<Rightarrow> (n, now, r) # accepted rest t'
      | (None, t') \<Rightarrow> accepted rest t')"

lemma observe_cases:
  obtains (refused) "observe n now t = (None, t)"
  | (ok) r where "observe n now t = (Some r, t\<lparr>ct_completed := n\<rparr>)" "ct_completed t \<le> n"
      "n \<le> ct_total t" "r = Complete \<longleftrightarrow> n = ct_total t"
      "r \<noteq> Complete \<Longrightarrow> expired (ct_deadline t) now \<longleftrightarrow> r = TimedOut n (ct_total t)"
      "r \<noteq> Complete \<Longrightarrow> \<not> expired (ct_deadline t) now \<longleftrightarrow> r = Partial n (ct_total t)"
  by (cases "n < ct_completed t \<or> n > ct_total t") (auto simp: observe_def not_less)

lemma accepted_sorted:
  "sorted (map (\<lambda>a. unat (fst a)) (accepted obs t))
   \<and> (\<forall>a \<in> set (accepted obs t). unat (ct_completed t) \<le> unat (fst a))"
proof (induction obs t rule: accepted.induct)
  case (2 n now rest t)
  show ?case
  proof (cases rule: observe_cases [of n now t])
    case (ok r)
    then have "unat (ct_completed t) \<le> unat n" by (simp add: word_le_nat_alt)
    then show ?thesis
      using 2(2) [OF ok(1) [symmetric] refl] ok(1) by (auto intro: order_trans)
  next
    case refused
    then show ?thesis using 2(1) [OF refused [symmetric] refl] by simp
  qed
qed simp

lemma accepted_verdicts:
  "(n, now, r) \<in> set (accepted obs t) \<Longrightarrow>
     n \<le> ct_total t \<and> (r = Complete \<longleftrightarrow> n = ct_total t)
     \<and> (r \<noteq> Complete \<longrightarrow> r = (if expired (ct_deadline t) now then TimedOut n (ct_total t)
                               else Partial n (ct_total t)))"
proof (induction obs t rule: accepted.induct)
  case (2 m at rest t)
  show ?case
  proof (cases rule: observe_cases [of m at t])
    case (ok r')
    then show ?thesis
      using 2(2) [OF ok(1) [symmetric] refl] 2(3) by auto
  next
    case refused
    then show ?thesis using 2(1) [OF refused [symmetric] refl] 2(3) by simp
  qed
qed simp

text \<open>C18: progress is monotonic and bounded, and the deadline is hard. For every sequence of
  observations the accepted counts never decrease and never exceed the total, completion is
  reported exactly at the total, and short of it the verdict is a timeout exactly from the start
  plus the timeout on, which does not wrap around.\<close>

theorem completion_tracking:
  assumes "tracker_new extent start timeout = Some t"
    and "(n, now, r) \<in> set (accepted obs t)"
  shows "sorted (map (\<lambda>a. unat (fst a)) (accepted obs t))
    \<and> n \<le> extent \<and> (r = Complete \<longleftrightarrow> n = extent)
    \<and> (n \<noteq> extent \<longrightarrow> (r = TimedOut n extent \<longleftrightarrow> unat start + unat timeout \<le> unat now)
                   \<and> (r = Partial n extent \<longleftrightarrow> unat now < unat start + unat timeout))"
proof -
  obtain d where d: "checked_add_word start timeout = Some d"
    "t = \<lparr>ct_total = extent, ct_completed = 0, ct_deadline = \<lparr>expires_at = d\<rparr>\<rparr>"
    using assms(1) by (auto simp: tracker_new_def deadline_checked_def split: if_splits)
  have "unat d = unat start + unat timeout"
    by (rule checked_add_word_unat [OF d(1)])
  then have "expired (ct_deadline t) now \<longleftrightarrow> unat start + unat timeout \<le> unat now"
    by (simp add: d(2) expired_def word_le_nat_alt)
  then show ?thesis
    using accepted_sorted [of obs t] accepted_verdicts [OF assms(2)] d(2) by auto
qed

theorem completion_tracking_witness:
  "\<exists>t. tracker_new 3 10 5 = Some t \<and>
     accepted [(1, 14), (0, 14), (2, 15)] t = [(1, 14, Partial 1 3), (2, 15, TimedOut 2 3)] \<and>
     sorted (map (\<lambda>a. unat (fst a)) (accepted [(1, 14), (0, 14), (2, 15)] t))"
proof -
  let ?t = "\<lparr>ct_total = 3, ct_completed = 0, ct_deadline = \<lparr>expires_at = 15\<rparr>\<rparr>"
  have t: "tracker_new 3 10 5 = Some ?t"
    by (simp add: tracker_new_def deadline_checked_def checked_add_word_def)
  have a: "accepted [(1, 14), (0, 14), (2, 15)] ?t = [(1, 14, Partial 1 3), (2, 15, TimedOut 2 3)]"
    by (simp add: observe_def expired_def)
  have "(1, 14, Partial 1 3) \<in> set (accepted [(1, 14), (0, 14), (2, 15)] ?t)"
    unfolding a by simp
  from completion_tracking [OF t this] t a show ?thesis by blast
qed

section \<open>Transcripts\<close>

text \<open>A reader of the characters of a JSON string up to its closing quote.\<close>

fun json_string :: "string \<Rightarrow> (string \<times> string) option" where
  "json_string [] = None"
| "json_string (c # cs) =
     (if c = CHR 0x22 then Some ([], cs)
      else if c = CHR 0x5C then
        (case cs of [] \<Rightarrow> None
         | e # rest \<Rightarrow> map_option (\<lambda>(v, tail). (e # v, tail)) (json_string rest))
      else map_option (\<lambda>(v, tail). (c # v, tail)) (json_string cs))"

definition escape_value :: "string \<Rightarrow> string" where
  "escape_value v = concat (map (\<lambda>c. if c = CHR 0x5C then [CHR 0x5C, CHR 0x5C]
     else if c = CHR 0x22 then [CHR 0x5C, CHR 0x22] else [c]) v)"

lemma replace_twice:
  "replace_char (CHR 0x22) [CHR 0x5C, CHR 0x22] (replace_char (CHR 0x5C) [CHR 0x5C, CHR 0x5C] v)
     = escape_value v"
  by (induction v) (auto simp: replace_char_def escape_value_def)

lemma json_string_escape:
  "json_string (escape_value v @ CHR 0x22 # tail) = Some (v, tail)"
  by (induction v) (auto simp: escape_value_def)


end
