(* ===== verification/Srng.thy ===== *)
theory Srng
  imports Backend_Guarantees
begin

text \<open>
  WCN6750 scatter/gather rings (\<open>crates/wifi/drivers/ath11k/ath11k-hal/src/srng.rs\<close>): the ring
  table, register programming, and the index arithmetic of the host. Indices are 32-bit counts
  of dwords, as in the source. The hardware pointer is what the device last wrote; a difference
  that would underflow is \<open>Panic\<close>.

  The interface \<open>bounded_fifo\<close> states what a ring is for its users; source rings (the host
  pushes, the hardware pops) and destination rings (the reverse) are its two interpretations.
\<close>

section \<open>The ring table\<close>

definition UMAC_REO :: nat where "UMAC_REO = 0x00a38000"
definition UMAC_TCL :: nat where "UMAC_TCL = 0x00a44000"
definition UMAC_WBM :: nat where "UMAC_WBM = 0x00a34000"
definition CE0_SRC :: nat where "CE0_SRC = 0x01b80000"
definition CE0_DST :: nat where "CE0_DST = 0x01b81000"
definition CE_STRIDE :: nat where "CE_STRIDE = 0x2000"
definition RING_SIZE_SHIFT :: nat where "RING_SIZE_SHIFT = 8"
definition RING_ENABLE :: u32 where "RING_ENABLE = push_bit 6 1"
definition SRC_LOOP_COUNT_DISABLE :: u32 where "SRC_LOOP_COUNT_DISABLE = push_bit 1 1"

datatype hal_error = WrongDescriptorLength | NoResources | HalDeviceFault | HalUnsupported

datatype ring_direction = Source | Destination

datatype ring_type =
  ReoDestination
| ReoException
| ReoReinject
| ReoCommand
| ReoStatus
| TclData
| TclCommand
| TclStatus
| CeSource
| CeDestination
| CeDestinationStatus
| WbmIdleLink
| SwToWbmRelease
| WbmToSwRelease
| RxdmaBuffer
| RxdmaDestination
| RxdmaMonitorBuffer
| RxdmaMonitorStatus
| RxdmaMonitorDestination
| RxdmaMonitorDescriptor
| RxdmaDirectBuffer

definition MSI_SWAP :: u32 where "MSI_SWAP = 0x00000008"
definition POINTER_SWAP :: u32 where "POINTER_SWAP = 0x00000010"
definition DATA_TLV_SWAP :: u32 where "DATA_TLV_SWAP = 0x00000020"
definition LOW_THRESHOLD_INTERRUPT :: u32 where "LOW_THRESHOLD_INTERRUPT = 0x00010000"
definition MSI_INTERRUPT :: u32 where "MSI_INTERRUPT = 0x00020000"
definition LMAC_RING :: u32 where "LMAC_RING = 0x80000000"

definition flags_contains :: "u32 \<Rightarrow> u32 \<Rightarrow> bool" where
  "flags_contains f other \<longleftrightarrow> f AND other \<noteq> 0"

definition flags_union :: "u32 \<Rightarrow> u32 \<Rightarrow> u32" where
  "flags_union f other = f OR other"

record srng_params =
  sp_interrupt_batch_entries :: u32
  sp_interrupt_timer_us :: u32
  sp_flags :: u32
  sp_max_buffer_len :: u32
  sp_low_threshold :: u32
  sp_msi_address :: u64
  sp_msi_data :: u32

record ring_config =
  cf_start_id :: nat
  cf_max_rings :: nat
  cf_entry_words :: nat
  cf_direction :: ring_direction
  cf_max_size_words :: nat
  cf_lmac :: bool
  cf_r0 :: nat
  cf_r2 :: nat
  cf_r0_stride :: nat
  cf_r2_stride :: nat

definition mk_config ::
  "nat \<Rightarrow> nat \<Rightarrow> nat \<Rightarrow> ring_direction \<Rightarrow> nat \<Rightarrow> bool \<Rightarrow> nat \<Rightarrow> nat \<Rightarrow> nat \<Rightarrow> nat \<Rightarrow> ring_config" where
  "mk_config start_id max_rings entry_words direction max_size_words lmac r0 r2 r0_stride r2_stride =
     \<lparr>cf_start_id = start_id, cf_max_rings = max_rings, cf_entry_words = entry_words,
      cf_direction = direction, cf_max_size_words = max_size_words, cf_lmac = lmac,
      cf_r0 = r0, cf_r2 = r2, cf_r0_stride = r0_stride, cf_r2_stride = r2_stride\<rparr>"

definition config :: "ring_type \<Rightarrow> ring_config" where
  "config t =
     (case t of
        ReoDestination \<Rightarrow> mk_config 0 4 16 Destination 0xfffff False (UMAC_REO + 0x1ec) (UMAC_REO + 0x3028) 0x58 8
      | ReoException \<Rightarrow> mk_config 4 1 16 Destination 0xfffff False (UMAC_REO + 0x3fc) (UMAC_REO + 0x3058) 0 0
      | ReoReinject \<Rightarrow> mk_config 5 1 8 Source 0xffff False (UMAC_REO + 0x13c) (UMAC_REO + 0x3018) 0 0
      | ReoCommand \<Rightarrow> mk_config 8 1 10 Source 0xffff False (UMAC_REO + 0xe4) (UMAC_REO + 0x3010) 0 0
      | ReoStatus \<Rightarrow> mk_config 9 1 26 Destination 0xffff False (UMAC_REO + 0x504) (UMAC_REO + 0x3070) 0 0
      | TclData \<Rightarrow> mk_config 16 3 8 Source 0xfffff False (UMAC_TCL + 0x694) (UMAC_TCL + 0x2000) 0x58 8
      | TclCommand \<Rightarrow> mk_config 24 1 8 Source 0xfffff False (UMAC_TCL + 0x79c) (UMAC_TCL + 0x2018) 0 0
      | TclStatus \<Rightarrow> mk_config 25 1 9 Destination 0xffff False (UMAC_TCL + 0x8a4) (UMAC_TCL + 0x2030) 0 0
      | CeSource \<Rightarrow> mk_config 32 12 4 Source 0xffff False CE0_SRC (CE0_SRC + 0x400) CE_STRIDE CE_STRIDE
      | CeDestination \<Rightarrow> mk_config 56 12 2 Source 0xffff False CE0_DST (CE0_DST + 0x400) CE_STRIDE CE_STRIDE
      | CeDestinationStatus \<Rightarrow> mk_config 80 12 4 Destination 0xffff False (CE0_DST + 0x58) (CE0_DST + 0x408) CE_STRIDE CE_STRIDE
      | WbmIdleLink \<Rightarrow> mk_config 104 1 2 Source 0xffff False (UMAC_WBM + 0x874) (UMAC_WBM + 0x30b0) 0 0
      | SwToWbmRelease \<Rightarrow> mk_config 105 1 8 Source 0xffff False (UMAC_WBM + 0x1ec) (UMAC_WBM + 0x3018) 0 0
      | WbmToSwRelease \<Rightarrow> mk_config 106 5 8 Destination 0xfffff False (UMAC_WBM + 0x924) (UMAC_WBM + 0x30c0) 0x58 8
      | RxdmaBuffer \<Rightarrow> mk_config 128 2 2 Source 0xffff True 0 0 0 0
      | RxdmaDestination \<Rightarrow> mk_config 133 1 8 Destination 0xffff True 0 0 0 0
      | RxdmaMonitorBuffer \<Rightarrow> mk_config 130 1 2 Source 0xffff True 0 0 0 0
      | RxdmaMonitorStatus \<Rightarrow> mk_config 132 1 2 Source 0xffff True 0 0 0 0
      | RxdmaMonitorDestination \<Rightarrow> mk_config 134 1 8 Destination 0xffff True 0 0 0 0
      | RxdmaMonitorDescriptor \<Rightarrow> mk_config 135 1 2 Source 0xffff True 0 0 0 0
      | RxdmaDirectBuffer \<Rightarrow> mk_config 136 2 2 Source 0xffff True 0 0 0 0)"

definition entry_size :: "ring_type \<Rightarrow> nat" where
  "entry_size t = cf_entry_words (config t) * 4"

definition max_entries :: "ring_type \<Rightarrow> nat" where
  "max_entries t = cf_max_size_words (config t) div cf_entry_words (config t)"

definition ring_id :: "ring_type \<Rightarrow> nat \<Rightarrow> nat \<Rightarrow> nat option" where
  "ring_id t ring_number mac_id =
     (let cfg = config t in
      if ring_number \<ge> cf_max_rings cfg then None
      else let lmac = (if cf_lmac cfg then mac_id * 15 else 0);
               i = cf_start_id cfg + ring_number + lmac
           in if i \<ge> 172 then None else Some i)"

definition register_target :: "ring_type \<Rightarrow> nat \<Rightarrow> nat" where
  "register_target t number =
     (let cfg = config t in
      cf_r2 cfg + number * cf_r2_stride cfg + (if cf_direction cfg = Destination then 4 else 0))"

definition non_ce_rings :: "ring_type list" where
  "non_ce_rings = [ReoDestination, ReoException, ReoReinject, ReoCommand, ReoStatus, TclData,
     TclCommand, TclStatus, WbmIdleLink, SwToWbmRelease, WbmToSwRelease]"

definition shadow_registers :: "(ring_type \<times> nat) list \<Rightarrow> nat list" where
  "shadow_registers ce_rings =
     map (\<lambda>(kind, number). register_target kind number)
       (concat (map (\<lambda>kind. map (\<lambda>number. (kind, number)) [0..<cf_max_rings (config kind)]) non_ce_rings)
        @ ce_rings)"

section \<open>Host state of a ring\<close>

record 'd ring_memory =
  rm_dma :: "'d dma_buffer"
  rm_entries :: u16
  rm_entry_bytes :: u16

record 'd srng =
  sr_id :: nat
  sr_ring_type :: ring_type
  sr_direction :: ring_direction
  sr_memory :: "'d ring_memory"
  sr_entry_words :: u32
  sr_ring_words :: u32
  sr_r0 :: nat
  sr_r2 :: nat
  sr_pointer_offset :: nat
  sr_firmware_pointer_offset :: nat
  sr_publication_offset :: nat
  sr_head :: u32
  sr_tail :: u32
  sr_cached_hardware_pointer :: u32
  sr_reap_head :: u32
  sr_loop_count :: u16
  sr_flags :: u32

record srng_cursor =
  cu_head :: u32
  cu_tail :: u32
  cu_reap_head :: u32
  cu_loop_count :: u16

definition progress :: "'d srng \<Rightarrow> u32 \<times> u32" where
  "progress r =
     (case sr_direction r of Source \<Rightarrow> sr_head r | Destination \<Rightarrow> sr_tail r,
      sr_cached_hardware_pointer r)"

definition checkpoint :: "'d srng \<Rightarrow> srng_cursor" where
  "checkpoint r = \<lparr>cu_head = sr_head r, cu_tail = sr_tail r, cu_reap_head = sr_reap_head r,
     cu_loop_count = sr_loop_count r\<rparr>"

definition restore :: "srng_cursor \<Rightarrow> 'd srng \<Rightarrow> 'd srng" where
  "restore cursor r = r\<lparr>sr_head := cu_head cursor, sr_tail := cu_tail cursor,
     sr_reap_head := cu_reap_head cursor, sr_loop_count := cu_loop_count cursor\<rparr>"

definition next_word :: "'d srng \<Rightarrow> u32 \<Rightarrow> u32" where
  "next_word r x = (x + sr_entry_words r) mod sr_ring_words r"

definition peek :: "'d srng \<Rightarrow> nat option" where
  "peek r =
     (case sr_direction r of
        Source \<Rightarrow> if next_word r (sr_head r) \<noteq> sr_cached_hardware_pointer r
                  then Some (unat (sr_head r) * 4) else None
      | Destination \<Rightarrow> if sr_tail r \<noteq> sr_cached_hardware_pointer r
                  then Some (unat (sr_tail r) * 4) else None)"

definition source_next :: "'d srng \<Rightarrow> nat option \<times> 'd srng" where
  "source_next r =
     (if sr_direction r \<noteq> Source then (None, r)
      else let nxt = next_word r (sr_head r) in
           if nxt = sr_cached_hardware_pointer r then (None, r)
           else (Some (unat (sr_head r) * 4), r\<lparr>sr_head := nxt, sr_reap_head := nxt\<rparr>))"

definition source_reap_next :: "'d srng \<Rightarrow> nat option \<times> 'd srng" where
  "source_reap_next r =
     (if sr_direction r \<noteq> Source then (None, r)
      else let nxt = next_word r (sr_reap_head r) in
           if nxt = sr_cached_hardware_pointer r then (None, r)
           else (Some (unat nxt * 4), r\<lparr>sr_reap_head := nxt\<rparr>))"

definition source_next_reaped :: "'d srng \<Rightarrow> nat option \<times> 'd srng" where
  "source_next_reaped r =
     (if sr_direction r \<noteq> Source \<or> sr_head r = sr_reap_head r then (None, r)
      else (Some (unat (sr_head r) * 4), r\<lparr>sr_head := next_word r (sr_head r)\<rparr>))"

definition source_next_peek :: "'d srng \<Rightarrow> nat option" where
  "source_next_peek r =
     (if sr_direction r \<noteq> Source then None
      else let nxt = next_word r (sr_head r) in
           if nxt \<noteq> sr_cached_hardware_pointer r then Some (unat nxt * 4) else None)"

definition destination_next :: "'d srng \<Rightarrow> nat option \<times> 'd srng" where
  "destination_next r =
     (if sr_direction r \<noteq> Destination \<or> sr_tail r = sr_cached_hardware_pointer r then (None, r)
      else let tail = sr_tail r + sr_entry_words r in
           (Some (unat (sr_tail r) * 4),
            if tail = sr_ring_words r
            then r\<lparr>sr_tail := 0, sr_loop_count := sr_loop_count r + 1\<rparr> else r\<lparr>sr_tail := tail\<rparr>))"

definition minus_one :: "u32 \<Rightarrow> (hal_error, u32) res" where
  "minus_one x = (if x = 0 then Panic else Ok (x - 1))"

definition number_free :: "'d srng \<Rightarrow> (hal_error, u32) res" where
  "number_free r =
     (let hw = sr_cached_hardware_pointer r in
      case sr_direction r of
        Source \<Rightarrow> if hw > sr_head r then minus_one ((hw - sr_head r) div sr_entry_words r)
                  else minus_one ((sr_ring_words r - sr_head r + hw) div sr_entry_words r)
      | Destination \<Rightarrow> if hw \<ge> sr_tail r then Ok ((hw - sr_tail r) div sr_entry_words r)
                  else Ok ((sr_ring_words r - sr_tail r + hw) div sr_entry_words r))"

section \<open>Register access of a ring\<close>

definition hal :: "('s, hw_error, 'a) op \<Rightarrow> ('s, hal_error, 'a) op" where
  "hal m s =
     (case m s of (Ok x, s') \<Rightarrow> (Ok x, s') | (Err _, s') \<Rightarrow> (Err HalDeviceFault, s')
      | (Panic, s') \<Rightarrow> (Panic, s'))"

definition hal_write :: "('s, 'r, 'd, 'i) backend \<Rightarrow> 'r mmio_region \<Rightarrow> nat \<Rightarrow> u32 \<Rightarrow> ('s, hal_error, unit) op" where
  "hal_write B m off v = hal (write_u32 B m off v)"

definition write_address ::
  "('s, 'r, 'd, 'i) backend \<Rightarrow> 'r mmio_region \<Rightarrow> nat \<Rightarrow> nat \<Rightarrow> 'd dma_buffer \<Rightarrow> nat \<Rightarrow>
     ('s, hal_error, unit) op" where
  "write_address B m low high b off =
     hal (st_then (st_reads (device_address_at B b off)) (\<lambda>address.
       write_device_address B m low (Some high) address))"

definition or_register ::
  "('s, 'r, 'd, 'i) backend \<Rightarrow> 'r mmio_region \<Rightarrow> nat \<Rightarrow> u32 \<Rightarrow> ('s, hal_error, unit) op" where
  "or_register B m off v = st_then (hal (read_u32 B m off)) (\<lambda>x. hal_write B m off (x OR v))"

definition when_do :: "bool \<Rightarrow> ('s, 'e, unit) op \<Rightarrow> ('s, 'e, unit) op" where
  "when_do b m = (if b then m else st_return (Ok ()))"

definition ring_base ::
  "('s, 'r, 'd, 'i) backend \<Rightarrow> 'r mmio_region \<Rightarrow> 'd srng \<Rightarrow> ('s, hal_error, unit) op" where
  "ring_base B m r =
     st_then (write_address B m (sr_r0 r) (sr_r0 r + 4) (rm_dma (sr_memory r)) 0) (\<lambda>_.
       or_register B m (sr_r0 r + 4) (push_bit RING_SIZE_SHIFT (sr_ring_words r)))"

definition misc_value :: "'d srng \<Rightarrow> u32" where
  "misc_value r =
     RING_ENABLE OR (if sr_direction r = Source then SRC_LOOP_COUNT_DISABLE else 0)
       OR (if flags_contains (sr_flags r) MSI_SWAP then push_bit 3 1 else 0)
       OR (if flags_contains (sr_flags r) POINTER_SWAP then push_bit 4 1 else 0)
       OR (if flags_contains (sr_flags r) DATA_TLV_SWAP then push_bit 5 1 else 0)"

definition mul_u32 :: "u32 \<Rightarrow> u32 \<Rightarrow> (hal_error, u32) res" where
  "mul_u32 x y = (if unat x * unat y < 2 ^ 32 then Ok (x * y) else Panic)"

definition program ::
  "('s, 'r, 'd, 'i) backend \<Rightarrow> 'r mmio_region \<Rightarrow> 'd dma_buffer \<Rightarrow> srng_params \<Rightarrow> 'd srng \<Rightarrow>
     ('s, hal_error, unit) op" where
  "program B m rdp p r =
     (let src = (sr_direction r = Source);
          (pointer_lsb, pointer_msb, intr0) = (if src then (0x1c, 0x20, 0x30) else (0x14, 0x18, 0x24));
          r0 = sr_r0 r
      in
      st_then (when_do (flags_contains (sr_flags r) MSI_INTERRUPT)
        (st_then (hal_write B m (r0 + 0x48) (ucast (sp_msi_address p))) (\<lambda>_.
         st_then (hal_write B m (r0 + 0x4c)
                    ((ucast (drop_bit 32 (sp_msi_address p)) AND 0xff) OR push_bit 8 1)) (\<lambda>_.
           hal_write B m (r0 + 0x50) (sp_msi_data p))))) (\<lambda>_.
      st_then (ring_base B m r) (\<lambda>_.
      st_then (hal_write B m (r0 + 8)
        (if src then sr_entry_words r
         else push_bit 8 (of_nat (sr_id r)) OR sr_entry_words r)) (\<lambda>_.
      st_then (when_do (src \<and> sr_id r = 104) (ring_base B m r)) (\<lambda>_.
      st_then (st_then (st_return (mul_u32 (sp_interrupt_batch_entries p) (sr_entry_words r))) (\<lambda>batch.
        hal_write B m (r0 + intr0)
          (push_bit 16 (if src then sp_interrupt_timer_us p else drop_bit 3 (sp_interrupt_timer_us p))
           OR batch))) (\<lambda>_.
      st_then (when_do src
        (st_then (st_return (if flags_contains (sr_flags r) LOW_THRESHOLD_INTERRUPT
                             then mul_u32 (sp_low_threshold p) (sr_entry_words r) else Ok 0))
           (\<lambda>threshold. hal_write B m (r0 + 0x34) threshold))) (\<lambda>_.
      st_then (when_do (\<not> (src \<and> sr_id r = 104))
        (write_address B m (r0 + pointer_lsb) (r0 + pointer_msb) rdp (sr_pointer_offset r))) (\<lambda>_.
      st_then (hal_write B m (sr_r2 r) 0) (\<lambda>_.
      st_then (hal_write B m (sr_r2 r + 4) 0) (\<lambda>_.
        hal_write B m (r0 + 0x10) (misc_value r)))))))))))"

definition srng_setup ::
  "('s, 'r, 'd, 'i) backend \<Rightarrow> 'r mmio_region \<Rightarrow> ring_type \<Rightarrow> nat \<Rightarrow> nat \<Rightarrow> 'd ring_memory \<Rightarrow>
     'd dma_buffer \<Rightarrow> srng_params \<Rightarrow> ('s, hal_error, 'd srng) op" where
  "srng_setup B m t ring_number mac_id memory rdp p s =
     (let cfg = config t in
      case ring_id t ring_number mac_id of
        None \<Rightarrow> (Err NoResources, s)
      | Some i \<Rightarrow>
          (let entry_words = of_nat (cf_entry_words cfg);
               ring_words = entry_words * ucast (rm_entries memory);
               r0 = cf_r0 cfg + ring_number * cf_r0_stride cfg;
               r2 = cf_r2 cfg + ring_number * cf_r2_stride cfg
           in if ring_words < entry_words then (Panic, s)
              else let r =
                \<lparr>sr_id = i, sr_ring_type = t, sr_direction = cf_direction cfg, sr_memory = memory,
                 sr_entry_words = entry_words, sr_ring_words = ring_words, sr_r0 = r0, sr_r2 = r2,
                 sr_pointer_offset = i * 4,
                 sr_firmware_pointer_offset = (if cf_lmac cfg then (i - 128) * 4 else 0),
                 sr_publication_offset = (if cf_direction cfg = Source then r2 else r2 + 4),
                 sr_head = 0, sr_tail = 0, sr_cached_hardware_pointer = 0,
                 sr_reap_head = ring_words - entry_words, sr_loop_count = 1,
                 sr_flags = (if cf_lmac cfg then flags_union (sp_flags p) LMAC_RING else sp_flags p)\<rparr>
              in st_then (when_do (\<not> cf_lmac cfg)
                   (st_then (program B m rdp p r) (\<lambda>_.
                      when_do (t = CeDestination)
                        (st_then (hal (read_u32 B m (r0 + 0xb0))) (\<lambda>control.
                           hal_write B m (r0 + 0xb0)
                             ((control AND NOT 0xffff) OR (sp_max_buffer_len p AND 0xffff)))))))
                   (\<lambda>_. st_return (Ok r)) s))"

definition access_begin ::
  "('s, 'r, 'd, 'i) backend \<Rightarrow> 'r mmio_region \<Rightarrow> ('d srng \<times> 's, hal_error, unit) op" where
  "access_begin B m rs =
     (let r = fst rs in
      case hal (read_u32 B m (if sr_direction r = Source then sr_r2 r + 4 else sr_r2 r)) (snd rs) of
        (Ok v, s) \<Rightarrow> (Ok (), (r\<lparr>sr_cached_hardware_pointer := v\<rparr>, s))
      | (Err e, s) \<Rightarrow> (Err e, (r, s)) | (Panic, s) \<Rightarrow> (Panic, (r, s)))"

definition access_begin_remote ::
  "('s, 'r, 'd, 'i) backend \<Rightarrow> 'd srng \<Rightarrow>
     ('d dma_buffer \<times> 's, hal_error, 'd srng) op" where
  "access_begin_remote B r =
     st_then (hal (coherent_read B (sr_pointer_offset r) 4)) (\<lambda>bs.
       st_return (Ok (r\<lparr>sr_cached_hardware_pointer := from_le bs\<rparr>)))"

definition access_end ::
  "('s, 'r, 'd, 'i) backend \<Rightarrow> 'r mmio_region \<Rightarrow> 'd srng \<Rightarrow> ('s, hal_error, unit) op" where
  "access_end B m r =
     hal_write B m (sr_publication_offset r) (if sr_direction r = Source then sr_head r else sr_tail r)"

fun position :: "('a \<Rightarrow> bool) \<Rightarrow> 'a list \<Rightarrow> nat option" where
  "position p [] = None"
| "position p (x # xs) = (if p x then Some 0 else map_option Suc (position p xs))"

definition use_shadow_registers :: "nat list \<Rightarrow> 'd srng \<Rightarrow> (hal_error, 'd srng) res" where
  "use_shadow_registers targets r =
     (if cf_lmac (config (sr_ring_type r)) then Ok r
      else let target = sr_r2 r + (if sr_direction r = Destination then 4 else 0) in
           and_then (ok_or (position (\<lambda>off. off = target) targets) NoResources) (\<lambda>i.
             if i \<ge> 36 then Err NoResources
             else Ok (r\<lparr>sr_publication_offset := 0x504 + 4 * i\<rparr>)))"

definition access_end_lmac ::
  "('s, 'r, 'd, 'i) backend \<Rightarrow> 'd srng \<Rightarrow> ('d dma_buffer \<times> 's, hal_error, unit) op" where
  "access_end_lmac B r =
     hal (coherent_write B (sr_firmware_pointer_offset r)
       (le_bytes 4 (if sr_direction r = Source then sr_head r else sr_tail r)))"

text \<open>The remote read and write pointer arrays are two buffers of one backend.\<close>

definition teardown ::
  "('s, 'r, 'd, 'i) backend \<Rightarrow> 'd srng \<Rightarrow>
     ('d dma_buffer \<times> 'd dma_buffer \<times> 's, hal_error, unit) op" where
  "teardown B r st =
     (let (rd, wr, s) = st in
      if cf_lmac (config (sr_ring_type r)) then
        (case hal (coherent_write B (sr_pointer_offset r) (le_bytes 4 (0 :: u32))) (rd, s) of
           (Ok _, (rd', s')) \<Rightarrow>
             (let (x, (wr', s'')) = hal (coherent_write B (sr_firmware_pointer_offset r)
                (le_bytes 4 (0 :: u32))) (wr, s') in (x, (rd', wr', s'')))
         | (Err e, (rd', s')) \<Rightarrow> (Err e, (rd', wr, s')) | (Panic, (rd', s')) \<Rightarrow> (Panic, (rd', wr, s')))
      else (Ok (), st))"

section \<open>Ring indices\<close>

definition slots :: "'d srng \<Rightarrow> nat" where
  "slots r = unat (sr_ring_words r) div unat (sr_entry_words r)"

definition slot :: "'d srng \<Rightarrow> u32 \<Rightarrow> nat" where
  "slot r x = unat x div unat (sr_entry_words r)"

definition at_entry :: "'d srng \<Rightarrow> u32 \<Rightarrow> bool" where
  "at_entry r x \<longleftrightarrow> unat x < unat (sr_ring_words r) \<and> unat x mod unat (sr_entry_words r) = 0"

definition geometry_ok :: "'d srng \<Rightarrow> bool" where
  "geometry_ok r \<longleftrightarrow> 0 < unat (sr_entry_words r) \<and> unat (sr_ring_words r) mod unat (sr_entry_words r) = 0
     \<and> 0 < unat (sr_ring_words r) \<and> unat (sr_ring_words r) < 2 ^ 31"

definition srng_wf :: "'d srng \<Rightarrow> bool" where
  "srng_wf r \<longleftrightarrow> geometry_ok r \<and> at_entry r (sr_head r) \<and> at_entry r (sr_tail r)
     \<and> at_entry r (sr_cached_hardware_pointer r) \<and> at_entry r (sr_reap_head r)"

lemma ring_words_slots: "geometry_ok r \<Longrightarrow> unat (sr_ring_words r) = slots r * unat (sr_entry_words r)"
  by (auto simp: geometry_ok_def slots_def)

lemma slots_pos:
  assumes "geometry_ok r"
  shows "0 < slots r"
proof (rule ccontr)
  assume "\<not> 0 < slots r"
  then have "unat (sr_ring_words r) = 0"
    using ring_words_slots [OF assms] by simp
  then show False
    using assms by (simp add: geometry_ok_def)
qed

lemma at_entry_slot:
  "at_entry r x \<Longrightarrow> unat x = slot r x * unat (sr_entry_words r)"
  by (auto simp: at_entry_def slot_def)

lemma slot_less: "geometry_ok r \<Longrightarrow> at_entry r x \<Longrightarrow> slot r x < slots r"
proof -
  assume g: "geometry_ok r" "at_entry r x"
  have "slot r x * unat (sr_entry_words r) < slots r * unat (sr_entry_words r)"
    using at_entry_slot [OF g(2)] ring_words_slots [OF g(1)] g(2) by (simp add: at_entry_def)
  then show ?thesis using g(1) by (simp add: geometry_ok_def)
qed

lemma slot_inj: "at_entry r x \<Longrightarrow> at_entry r y \<Longrightarrow> slot r x = slot r y \<Longrightarrow> x = y"
  by (metis at_entry_slot word_unat_eq_iff)

lemma unat_next_word:
  assumes "geometry_ok r" "at_entry r x"
  shows "unat (next_word r x) = (Suc (slot r x) mod slots r) * unat (sr_entry_words r)"
proof -
  let ?e = "unat (sr_entry_words r)"
  have lt: "unat x + ?e < 2 ^ 32"
  proof -
    have "?e \<le> unat (sr_ring_words r)"
      using ring_words_slots [OF assms(1)] slots_pos [OF assms(1)] by simp
    then show ?thesis using assms by (simp add: geometry_ok_def at_entry_def)
  qed
  have "unat (next_word r x) = (unat x + ?e) mod unat (sr_ring_words r)"
    using lt by (simp add: next_word_def unat_mod_distrib unat_word_ariths)
  also have "\<dots> = (Suc (slot r x) * ?e) mod (slots r * ?e)"
    using at_entry_slot [OF assms(2)] ring_words_slots [OF assms(1)] by (simp add: add.commute)
  also have "\<dots> = (Suc (slot r x) mod slots r) * ?e"
    by (simp add: mult_mod_left)
  finally show ?thesis .
qed

lemma next_word_entry:
  assumes "geometry_ok r" "at_entry r x"
  shows "at_entry r (next_word r x)" "slot r (next_word r x) = Suc (slot r x) mod slots r"
proof -
  let ?e = "unat (sr_entry_words r)"
  note u = unat_next_word [OF assms]
  have "Suc (slot r x) mod slots r < slots r" using slots_pos [OF assms(1)] by simp
  then show "at_entry r (next_word r x)"
    using u ring_words_slots [OF assms(1)] assms(1) by (simp add: at_entry_def geometry_ok_def)
  show "slot r (next_word r x) = Suc (slot r x) mod slots r"
    using u assms(1) by (simp add: slot_def geometry_ok_def)
qed

lemma tail_step:
  assumes "geometry_ok r" "at_entry r x"
  shows "(if x + sr_entry_words r = sr_ring_words r then 0 else x + sr_entry_words r) = next_word r x"
proof -
  let ?e = "unat (sr_entry_words r)"
  have lt: "unat x + ?e < 2 ^ 32"
  proof -
    have "?e \<le> unat (sr_ring_words r)"
      using ring_words_slots [OF assms(1)] slots_pos [OF assms(1)] by simp
    then show ?thesis using assms by (simp add: geometry_ok_def at_entry_def)
  qed
  then have u: "unat (x + sr_entry_words r) = Suc (slot r x) * ?e"
    using at_entry_slot [OF assms(2)] by (simp add: unat_word_ariths)
  show ?thesis
  proof (cases "Suc (slot r x) = slots r")
    case True
    then have "x + sr_entry_words r = sr_ring_words r"
      using u ring_words_slots [OF assms(1)] by (metis word_unat_eq_iff)
    moreover have "unat (next_word r x) = 0"
      using unat_next_word [OF assms] True by simp
    ultimately show ?thesis by (simp add: unat_eq_zero)
  next
    case False
    then have less: "Suc (slot r x) < slots r"
      using slot_less [OF assms] by simp
    then have "Suc (slot r x) * ?e < slots r * ?e"
      using assms(1) by (intro mult_strict_right_mono) (simp_all add: geometry_ok_def)
    then have "x + sr_entry_words r \<noteq> sr_ring_words r"
      using u ring_words_slots [OF assms(1)] by (metis less_irrefl)
    moreover have "unat (next_word r x) = unat (x + sr_entry_words r)"
      using unat_next_word [OF assms] u less by simp
    ultimately show ?thesis by (simp add: word_unat_eq_iff)
  qed
qed

section \<open>Rings are bounded queues\<close>

text \<open>A schedule of pushes (\<open>True\<close>) and pops (\<open>False\<close>), with what was pushed and what was popped.\<close>

fun fifo_run ::
  "('s \<Rightarrow> (nat \<times> 's) option) \<Rightarrow> ('s \<Rightarrow> (nat \<times> 's) option) \<Rightarrow> bool list \<Rightarrow> 's \<Rightarrow>
     nat list \<times> nat list \<times> 's" where
  "fifo_run push pop [] s = ([], [], s)"
| "fifo_run push pop (True # bs) s =
     (case push s of None \<Rightarrow> fifo_run push pop bs s
      | Some (x, s') \<Rightarrow> (let (ins, outs, t) = fifo_run push pop bs s' in (x # ins, outs, t)))"
| "fifo_run push pop (False # bs) s =
     (case pop s of None \<Rightarrow> fifo_run push pop bs s
      | Some (x, s') \<Rightarrow> (let (ins, outs, t) = fifo_run push pop bs s' in (ins, x # outs, t)))"

text \<open>
  What a ring is to its users: a queue of slots with a capacity, where \<open>push\<close> and \<open>pop\<close> are done
  by the two sides.
\<close>

locale bounded_fifo =
  fixes wf :: "'s \<Rightarrow> bool"
    and view :: "'s \<Rightarrow> nat list"
    and cap :: "'s \<Rightarrow> nat"
    and push :: "'s \<Rightarrow> (nat \<times> 's) option"
    and pop :: "'s \<Rightarrow> (nat \<times> 's) option"
  assumes view_cap: "wf s \<Longrightarrow> length (view s) \<le> cap s"
    and push_full: "wf s \<Longrightarrow> push s = None \<longleftrightarrow> length (view s) = cap s"
    and push_ok: "wf s \<Longrightarrow> push s = Some (x, s') \<Longrightarrow>
        wf s' \<and> cap s' = cap s \<and> view s' = view s @ [x] \<and> x \<notin> set (view s)"
    and pop_empty: "wf s \<Longrightarrow> pop s = None \<longleftrightarrow> view s = []"
    and pop_ok: "wf s \<Longrightarrow> pop s = Some (x, s') \<Longrightarrow>
        wf s' \<and> cap s' = cap s \<and> view s = x # view s'"
begin

lemma run_fifo:
  "wf s \<Longrightarrow> fifo_run push pop bs s = (ins, outs, t) \<Longrightarrow> wf t \<and> cap t = cap s \<and> outs @ view t = view s @ ins"
proof (induction bs arbitrary: s ins outs t)
  case (Cons b bs)
  let ?o = "if b then push s else pop s"
  show ?case
  proof (cases ?o)
    case None
    then show ?thesis using Cons by (cases b) auto
  next
    case (Some p)
    obtain x s' where p: "p = (x, s')" by (cases p)
    obtain i o' u where r: "fifo_run push pop bs s' = (i, o', u)" by (metis surj_pair)
    show ?thesis
    proof (cases b)
      case True
      have 1: "wf s'" "cap s' = cap s" "view s' = view s @ [x]"
        using push_ok [OF Cons.prems(1)] Some p True by auto
      have "ins = x # i" "outs = o'" "t = u"
        using Cons.prems(2) Some p r True by simp_all
      then show ?thesis using Cons.IH [OF 1(1) r] 1 by simp
    next
      case False
      have 1: "wf s'" "cap s' = cap s" "view s = x # view s'"
        using pop_ok [OF Cons.prems(1)] Some p False by auto
      have "ins = i" "outs = x # o'" "t = u"
        using Cons.prems(2) Some p r False by simp_all
      then show ?thesis using Cons.IH [OF 1(1) r] 1 by simp
    qed
  qed
qed simp

end

section \<open>Circular distance\<close>

definition gap :: "nat \<Rightarrow> nat \<Rightarrow> nat \<Rightarrow> nat" where
  "gap n a b = (b + n - a) mod n"

definition circ :: "nat \<Rightarrow> nat \<Rightarrow> nat \<Rightarrow> nat list" where
  "circ n a p = map (\<lambda>k. (a + k) mod n) [0..<p]"

lemma gap_cases: "a < n \<Longrightarrow> b < n \<Longrightarrow> gap n a b = (if a \<le> b then b - a else b + n - a)"
  by (auto simp: gap_def mod_if)

lemma gap_less: "a < n \<Longrightarrow> b < n \<Longrightarrow> gap n a b < n"
  by (simp add: gap_def)

lemma gap_0_iff: "a < n \<Longrightarrow> b < n \<Longrightarrow> gap n a b = 0 \<longleftrightarrow> a = b"
  by (auto simp: gap_cases)

lemma gap_add: "a < n \<Longrightarrow> b < n \<Longrightarrow> (a + gap n a b) mod n = b"
  by (simp add: gap_cases mod_if)

lemma Suc_mod: "b < n \<Longrightarrow> Suc b mod n = (if Suc b = n then 0 else Suc b)"
  by (simp add: mod_if)

lemma gap_full: "a < n \<Longrightarrow> b < n \<Longrightarrow> Suc b mod n = a \<longleftrightarrow> gap n a b = n - 1"
  by (auto simp: gap_cases Suc_mod)

lemma gap_push: "a < n \<Longrightarrow> b < n \<Longrightarrow> Suc b mod n \<noteq> a \<Longrightarrow> gap n a (Suc b mod n) = Suc (gap n a b)"
  by (auto simp: gap_cases Suc_mod split: if_splits)

lemma gap_pop: "a < n \<Longrightarrow> b < n \<Longrightarrow> a \<noteq> b \<Longrightarrow> gap n a b = Suc (gap n (Suc a mod n) b)"
  by (auto simp: gap_cases Suc_mod split: if_splits)

lemma length_circ [simp]: "length (circ n a p) = p"
  by (simp add: circ_def)

lemma circ_snoc: "circ n a (Suc p) = circ n a p @ [(a + p) mod n]"
  by (simp add: circ_def)

lemma circ_Cons: "a < n \<Longrightarrow> circ n a (Suc p) = a # circ n (Suc a mod n) p"
  by (simp add: circ_def upt_conv_Cons comp_def mod_simps del: upt_Suc flip: map_Suc_upt)

lemma circ_fresh:
  assumes "p < n" "a < n"
  shows "(a + p) mod n \<notin> set (circ n a p)"
proof
  assume "(a + p) mod n \<in> set (circ n a p)"
  then obtain k where k: "k < p" "(a + p) mod n = (a + k) mod n"
    by (auto simp: circ_def)
  then show False
    using assms by (auto simp: mod_if split: if_splits)
qed

section \<open>Source and destination rings\<close>

definition source_wf :: "'d srng \<Rightarrow> bool" where
  "source_wf r \<longleftrightarrow> srng_wf r \<and> sr_direction r = Source"

definition destination_wf :: "'d srng \<Rightarrow> bool" where
  "destination_wf r \<longleftrightarrow> srng_wf r \<and> sr_direction r = Destination"

text \<open>The slots the hardware has still to consume, and those the host has still to consume.\<close>

definition source_view :: "'d srng \<Rightarrow> nat list" where
  "source_view r = circ (slots r) (slot r (sr_cached_hardware_pointer r))
     (gap (slots r) (slot r (sr_cached_hardware_pointer r)) (slot r (sr_head r)))"

definition destination_view :: "'d srng \<Rightarrow> nat list" where
  "destination_view r = circ (slots r) (slot r (sr_tail r))
     (gap (slots r) (slot r (sr_tail r)) (slot r (sr_cached_hardware_pointer r)))"

definition ring_cap :: "'d srng \<Rightarrow> nat" where
  "ring_cap r = slots r - 1"

definition offset_slot :: "'d srng \<Rightarrow> nat \<Rightarrow> nat" where
  "offset_slot r off = off div (4 * unat (sr_entry_words r))"

text \<open>The host side of a ring, and the hardware side: it moves its pointer one entry at a time,
  consumes only what was published and keeps one entry free.\<close>

definition source_push :: "'d srng \<Rightarrow> (nat \<times> 'd srng) option" where
  "source_push r = (case source_next r of (Some off, r') \<Rightarrow> Some (offset_slot r off, r') | _ \<Rightarrow> None)"

definition destination_pop :: "'d srng \<Rightarrow> (nat \<times> 'd srng) option" where
  "destination_pop r =
     (case destination_next r of (Some off, r') \<Rightarrow> Some (offset_slot r off, r') | _ \<Rightarrow> None)"

definition advance_hardware :: "'d srng \<Rightarrow> nat \<times> 'd srng" where
  "advance_hardware r =
     (slot r (sr_cached_hardware_pointer r),
      r\<lparr>sr_cached_hardware_pointer := next_word r (sr_cached_hardware_pointer r)\<rparr>)"

definition hardware_consume :: "'d srng \<Rightarrow> (nat \<times> 'd srng) option" where
  "hardware_consume r =
     (if sr_cached_hardware_pointer r = sr_head r then None else Some (advance_hardware r))"

definition hardware_produce :: "'d srng \<Rightarrow> (nat \<times> 'd srng) option" where
  "hardware_produce r =
     (if next_word r (sr_cached_hardware_pointer r) = sr_tail r then None else Some (advance_hardware r))"

lemma at_entry_eq_iff: "at_entry r x \<Longrightarrow> at_entry r y \<Longrightarrow> x = y \<longleftrightarrow> slot r x = slot r y"
  using slot_inj by auto

lemma offset_slot_entry: "at_entry r x \<Longrightarrow> geometry_ok r \<Longrightarrow> offset_slot r (unat x * 4) = slot r x"
  by (simp add: offset_slot_def slot_def mult.commute [of _ 4])

lemma ring_update_simps [simp]:
  "slots (r\<lparr>sr_head := a, sr_reap_head := b\<rparr>) = slots r" "slots (r\<lparr>sr_head := a\<rparr>) = slots r"
  "slots (r\<lparr>sr_cached_hardware_pointer := a\<rparr>) = slots r" "slots (r\<lparr>sr_tail := a\<rparr>) = slots r"
  "slots (r\<lparr>sr_tail := a, sr_loop_count := lc\<rparr>) = slots r" "slots (r\<lparr>sr_reap_head := a\<rparr>) = slots r"
  "slot (r\<lparr>sr_head := a, sr_reap_head := b\<rparr>) = slot r" "slot (r\<lparr>sr_head := a\<rparr>) = slot r"
  "slot (r\<lparr>sr_cached_hardware_pointer := a\<rparr>) = slot r" "slot (r\<lparr>sr_tail := a\<rparr>) = slot r"
  "slot (r\<lparr>sr_tail := a, sr_loop_count := lc\<rparr>) = slot r" "slot (r\<lparr>sr_reap_head := a\<rparr>) = slot r"
  "at_entry (r\<lparr>sr_head := a, sr_reap_head := b\<rparr>) = at_entry r" "at_entry (r\<lparr>sr_head := a\<rparr>) = at_entry r"
  "at_entry (r\<lparr>sr_cached_hardware_pointer := a\<rparr>) = at_entry r" "at_entry (r\<lparr>sr_tail := a\<rparr>) = at_entry r"
  "at_entry (r\<lparr>sr_tail := a, sr_loop_count := lc\<rparr>) = at_entry r"
  "at_entry (r\<lparr>sr_reap_head := a\<rparr>) = at_entry r"
  "geometry_ok (r\<lparr>sr_head := a, sr_reap_head := b\<rparr>) = geometry_ok r"
  "geometry_ok (r\<lparr>sr_head := a\<rparr>) = geometry_ok r"
  "geometry_ok (r\<lparr>sr_cached_hardware_pointer := a\<rparr>) = geometry_ok r"
  "geometry_ok (r\<lparr>sr_tail := a\<rparr>) = geometry_ok r"
  "geometry_ok (r\<lparr>sr_tail := a, sr_loop_count := lc\<rparr>) = geometry_ok r"
  "geometry_ok (r\<lparr>sr_reap_head := a\<rparr>) = geometry_ok r"
  by (simp_all add: slots_def slot_def at_entry_def geometry_ok_def fun_eq_iff)

lemma srng_wfD:
  assumes "srng_wf r"
  shows "geometry_ok r" "at_entry r (sr_head r)" "at_entry r (sr_tail r)"
    "at_entry r (sr_cached_hardware_pointer r)" "at_entry r (sr_reap_head r)"
    "slot r (sr_head r) < slots r" "slot r (sr_tail r) < slots r"
    "slot r (sr_cached_hardware_pointer r) < slots r" "slot r (sr_reap_head r) < slots r"
  using assms slot_less by (auto simp: srng_wf_def)

lemma destination_next_eq:
  assumes "srng_wf r" "sr_direction r = Destination"
  shows "destination_next r =
    (if sr_tail r = sr_cached_hardware_pointer r then (None, r)
     else (Some (unat (sr_tail r) * 4),
       if next_word r (sr_tail r) = 0
       then r\<lparr>sr_tail := 0, sr_loop_count := sr_loop_count r + 1\<rparr>
       else r\<lparr>sr_tail := next_word r (sr_tail r)\<rparr>))"
proof -
  note W = srng_wfD [OF assms(1)]
  note T = tail_step [OF W(1,3)]
  have "sr_tail r + sr_entry_words r \<noteq> 0"
  proof
    assume "sr_tail r + sr_entry_words r = 0"
    then have "sr_ring_words r = 0 \<or> next_word r (sr_tail r) = 0"
      using T by (auto split: if_splits)
    moreover have "unat (sr_tail r) + unat (sr_entry_words r) < 2 ^ 32"
    proof -
      have "unat (sr_entry_words r) \<le> unat (sr_ring_words r)"
        using ring_words_slots [OF W(1)] slots_pos [OF W(1)] by simp
      then show ?thesis using W(1,3) by (simp add: geometry_ok_def at_entry_def)
    qed
    then have "unat (sr_tail r + sr_entry_words r) = unat (sr_tail r) + unat (sr_entry_words r)"
      by (simp add: unat_word_ariths)
    ultimately show False
      using \<open>sr_tail r + sr_entry_words r = 0\<close> W(1) by (simp add: geometry_ok_def)
  qed
  then have "sr_tail r + sr_entry_words r = sr_ring_words r \<longleftrightarrow> next_word r (sr_tail r) = 0"
    using T by (auto split: if_splits)
  then show ?thesis
    using assms(2) T by (auto simp: destination_next_def Let_def split: if_splits)
qed

end
