(* ===== verification/Srng_Guarantees.thy ===== *)
theory Srng_Guarantees
  imports Srng
begin

text \<open>
  Guarantees of the scatter/gather rings: both directions are bounded queues, the free count is
  exact, reaping never hands out an entry the hardware owns, and ring set-up establishes the
  invariant.
\<close>

section \<open>The two interpretations of the queue interface\<close>

lemma source_next_eq:
  assumes "source_wf r"
  shows "source_next r =
    (if length (source_view r) = ring_cap r then (None, r)
     else (Some (unat (sr_head r) * 4),
           r\<lparr>sr_head := next_word r (sr_head r), sr_reap_head := next_word r (sr_head r)\<rparr>))"
proof -
  from assms have w: "srng_wf r" "sr_direction r = Source" by (simp_all add: source_wf_def)
  note W = srng_wfD [OF w(1)]
  note N = next_word_entry [OF W(1,2)]
  have "next_word r (sr_head r) = sr_cached_hardware_pointer r \<longleftrightarrow> length (source_view r) = ring_cap r"
    using at_entry_eq_iff [OF N(1) W(4)] N(2) gap_full [OF W(8,6)]
    by (simp add: source_view_def ring_cap_def)
  then show ?thesis
    using w(2) by (simp add: source_next_def Let_def)
qed

lemma source_push_ok:
  assumes "source_wf r" "source_push r = Some (x, r')"
  shows "source_wf r' \<and> ring_cap r' = ring_cap r \<and> source_view r' = source_view r @ [x] \<and> x \<notin> set (source_view r)"
proof -
  from assms(1) have w: "srng_wf r" "sr_direction r = Source" by (simp_all add: source_wf_def)
  note W = srng_wfD [OF w(1)]
  note N = next_word_entry [OF W(1,2)]
  let ?n = "slots r" and ?a = "slot r (sr_cached_hardware_pointer r)" and ?b = "slot r (sr_head r)"
  have nf: "length (source_view r) \<noteq> ring_cap r"
    using assms(2) source_next_eq [OF assms(1)] by (auto simp: source_push_def)
  then have x: "x = ?b"
    and r': "r' = r\<lparr>sr_head := next_word r (sr_head r), sr_reap_head := next_word r (sr_head r)\<rparr>"
    using assms(2) source_next_eq [OF assms(1)] offset_slot_entry [OF W(2,1)]
    by (auto simp: source_push_def)
  have "Suc ?b mod ?n \<noteq> ?a"
    using nf gap_full [OF W(8,6)] by (simp add: source_view_def ring_cap_def)
  from gap_push [OF W(8,6) this] have v: "source_view r' = source_view r @ [x]"
    using N(2) gap_add [OF W(8,6)] by (simp add: source_view_def r' x circ_snoc)
  moreover have "x \<notin> set (source_view r)"
    using circ_fresh [OF gap_less [OF W(8,6)] W(8)] gap_add [OF W(8,6)] by (simp add: source_view_def x)
  moreover have "source_wf r'"
    using w N(1) W by (simp add: source_wf_def srng_wf_def r')
  ultimately show ?thesis by (simp add: ring_cap_def r')
qed

lemma hardware_consume_ok:
  assumes "source_wf r" "hardware_consume r = Some (x, r')"
  shows "source_wf r' \<and> ring_cap r' = ring_cap r \<and> source_view r = x # source_view r'"
proof -
  from assms(1) have w: "srng_wf r" "sr_direction r = Source" by (simp_all add: source_wf_def)
  note W = srng_wfD [OF w(1)]
  note N = next_word_entry [OF W(1,4)]
  have ne: "sr_cached_hardware_pointer r \<noteq> sr_head r" and x: "x = slot r (sr_cached_hardware_pointer r)"
    and r': "r' = r\<lparr>sr_cached_hardware_pointer := next_word r (sr_cached_hardware_pointer r)\<rparr>"
    using assms(2) by (auto simp: hardware_consume_def advance_hardware_def split: if_splits)
  have "source_view r = x # source_view r'"
    using gap_pop [OF W(8,6)] ne at_entry_eq_iff [OF W(4,2)] N(2) circ_Cons [OF W(8)]
    by (simp add: source_view_def r' x)
  moreover have "source_wf r'"
    using w N(1) W by (simp add: source_wf_def srng_wf_def r')
  ultimately show ?thesis by (simp add: ring_cap_def r')
qed

lemma source_view_cap: "source_wf r \<Longrightarrow> length (source_view r) \<le> ring_cap r"
  using gap_less [OF srng_wfD(8,6)] by (fastforce simp: source_wf_def source_view_def ring_cap_def)

interpretation src_ring: bounded_fifo source_wf source_view ring_cap source_push hardware_consume
proof unfold_locales
  fix r :: "'d srng"
  assume w: "source_wf r"
  note W = srng_wfD [OF w [unfolded source_wf_def, THEN conjunct1]]
  show "length (source_view r) \<le> ring_cap r" using w by (rule source_view_cap)
  show "source_push r = None \<longleftrightarrow> length (source_view r) = ring_cap r"
    using source_next_eq [OF w] by (simp add: source_push_def)
  show "hardware_consume r = None \<longleftrightarrow> source_view r = []"
    using at_entry_eq_iff [OF W(4,2)] gap_0_iff [OF W(8,6)]
    by (simp add: hardware_consume_def source_view_def circ_def)
qed (use source_push_ok hardware_consume_ok in blast)+

lemma hardware_produce_ok:
  assumes "destination_wf r" "hardware_produce r = Some (x, r')"
  shows "destination_wf r' \<and> ring_cap r' = ring_cap r \<and> destination_view r' = destination_view r @ [x]
    \<and> x \<notin> set (destination_view r)"
proof -
  from assms(1) have w: "srng_wf r" "sr_direction r = Destination" by (simp_all add: destination_wf_def)
  note W = srng_wfD [OF w(1)]
  note N = next_word_entry [OF W(1,4)]
  let ?n = "slots r" and ?a = "slot r (sr_tail r)" and ?b = "slot r (sr_cached_hardware_pointer r)"
  have ne: "next_word r (sr_cached_hardware_pointer r) \<noteq> sr_tail r" and x: "x = ?b"
    and r': "r' = r\<lparr>sr_cached_hardware_pointer := next_word r (sr_cached_hardware_pointer r)\<rparr>"
    using assms(2) by (auto simp: hardware_produce_def advance_hardware_def split: if_splits)
  have "Suc ?b mod ?n \<noteq> ?a"
    using ne at_entry_eq_iff [OF N(1) W(3)] N(2) by simp
  from gap_push [OF W(7,8) this] have v: "destination_view r' = destination_view r @ [x]"
    using N(2) gap_add [OF W(7,8)] by (simp add: destination_view_def r' x circ_snoc)
  moreover have "x \<notin> set (destination_view r)"
    using circ_fresh [OF gap_less [OF W(7,8)] W(7)] gap_add [OF W(7,8)] by (simp add: destination_view_def x)
  moreover have "destination_wf r'"
    using w N(1) W by (simp add: destination_wf_def srng_wf_def r')
  ultimately show ?thesis by (simp add: ring_cap_def r')
qed

lemma destination_pop_ok:
  assumes "destination_wf r" "destination_pop r = Some (x, r')"
  shows "destination_wf r' \<and> ring_cap r' = ring_cap r \<and> destination_view r = x # destination_view r'"
proof -
  from assms(1) have w: "srng_wf r" "sr_direction r = Destination" by (simp_all add: destination_wf_def)
  note W = srng_wfD [OF w(1)]
  note N = next_word_entry [OF W(1,3)]
  have ne: "sr_tail r \<noteq> sr_cached_hardware_pointer r" and x: "x = slot r (sr_tail r)"
    and r': "r' = (if next_word r (sr_tail r) = 0
       then r\<lparr>sr_tail := 0, sr_loop_count := sr_loop_count r + 1\<rparr>
       else r\<lparr>sr_tail := next_word r (sr_tail r)\<rparr>)"
    using assms(2) destination_next_eq [OF w] offset_slot_entry [OF W(3,1)]
    by (auto simp: destination_pop_def split: if_splits)
  have "destination_view r = x # circ (slots r) (slot r (next_word r (sr_tail r)))
     (gap (slots r) (slot r (next_word r (sr_tail r))) (slot r (sr_cached_hardware_pointer r)))"
    using gap_pop [OF W(7,8)] ne at_entry_eq_iff [OF W(3,4)] N(2) circ_Cons [OF W(7)]
    by (simp add: destination_view_def x)
  then have "destination_view r = x # destination_view r'"
    by (simp add: destination_view_def r')
  moreover have "destination_wf r'"
    using w N(1) W by (auto simp: destination_wf_def srng_wf_def r')
  ultimately show ?thesis by (simp add: ring_cap_def r')
qed

interpretation dst_ring: bounded_fifo destination_wf destination_view ring_cap hardware_produce destination_pop
proof unfold_locales
  fix r :: "'d srng"
  assume w: "destination_wf r"
  then have w': "srng_wf r" "sr_direction r = Destination" by (simp_all add: destination_wf_def)
  note W = srng_wfD [OF w'(1)]
  note N = next_word_entry [OF W(1,4)]
  show "length (destination_view r) \<le> ring_cap r"
    using gap_less [OF W(7,8)] by (simp add: destination_view_def ring_cap_def)
  show "hardware_produce r = None \<longleftrightarrow> length (destination_view r) = ring_cap r"
    using at_entry_eq_iff [OF N(1) W(3)] N(2) gap_full [OF W(7,8)]
    by (simp add: hardware_produce_def destination_view_def ring_cap_def)
  show "destination_pop r = None \<longleftrightarrow> destination_view r = []"
    using at_entry_eq_iff [OF W(3,4)] gap_0_iff [OF W(7,8)] destination_next_eq [OF w']
    by (simp add: destination_pop_def destination_view_def circ_def)
qed (use hardware_produce_ok destination_pop_ok in blast)+

section \<open>The free count\<close>

lemma word_eq_of_nat: "unat x = k \<Longrightarrow> x = of_nat k"
  by (auto simp: word_unat_eq_iff)

lemma unat_entry_diff:
  assumes "geometry_ok r" "unat x = a * unat (sr_entry_words r)" "unat y = b * unat (sr_entry_words r)" "b \<le> a"
  shows "unat ((x - y) div sr_entry_words r) = a - b"
proof -
  have "y \<le> x" using assms(2-4) by (simp add: word_le_nat_alt)
  then have "unat (x - y) = (a - b) * unat (sr_entry_words r)"
    using assms(2,3) by (simp add: unat_sub diff_mult_distrib)
  then show ?thesis
    using assms(1) by (simp add: unat_div geometry_ok_def)
qed

lemma unat_entry_wrap:
  assumes "geometry_ok r" "unat x = a * unat (sr_entry_words r)" "unat y = b * unat (sr_entry_words r)"
    "b \<le> a" "a < slots r"
  shows "unat ((sr_ring_words r - x + y) div sr_entry_words r) = slots r - a + b"
proof -
  let ?e = "unat (sr_entry_words r)"
  note R = ring_words_slots [OF assms(1)]
  have "x \<le> sr_ring_words r" using assms(2,5) R by (simp add: word_le_nat_alt)
  then have 1: "unat (sr_ring_words r - x) = (slots r - a) * ?e"
    using assms(2) R by (simp add: unat_sub diff_mult_distrib)
  have "(slots r - a + b) * ?e \<le> slots r * ?e"
    using assms(4,5) by (intro mult_le_mono1) simp
  then have "unat (sr_ring_words r - x) + unat y < 2 ^ 32"
    using 1 assms(1,3) R by (simp add: geometry_ok_def add_mult_distrib)
  then have "unat (sr_ring_words r - x + y) = (slots r - a + b) * ?e"
    using 1 assms(3) by (simp add: unat_word_ariths add_mult_distrib)
  then show ?thesis
    using assms(1) by (simp add: unat_div geometry_ok_def)
qed

lemma entry_less_iff:
  assumes "geometry_ok r" "at_entry r x" "at_entry r y"
  shows "x < y \<longleftrightarrow> slot r x < slot r y"
proof -
  have "unat x < unat y \<longleftrightarrow> slot r x * unat (sr_entry_words r) < slot r y * unat (sr_entry_words r)"
    using at_entry_slot [OF assms(2)] at_entry_slot [OF assms(3)] by simp
  then show ?thesis
    using assms(1) by (simp add: word_less_nat_alt geometry_ok_def)
qed

lemma minus_one_Ok: "unat x = Suc k \<Longrightarrow> minus_one x = Ok (of_nat k)"
proof -
  assume "unat x = Suc k"
  then have "x = of_nat (Suc k)" by (rule word_eq_of_nat)
  moreover have "x \<noteq> 0" using \<open>unat x = Suc k\<close> by auto
  ultimately show ?thesis by (simp add: minus_one_def)
qed

lemma number_free_source:
  assumes "source_wf r"
  shows "number_free r = Ok (of_nat (ring_cap r - length (source_view r)))"
proof -
  from assms have w: "srng_wf r" "sr_direction r = Source" by (simp_all add: source_wf_def)
  note W = srng_wfD [OF w(1)]
  let ?a = "slot r (sr_head r)" and ?b = "slot r (sr_cached_hardware_pointer r)"
  note A = at_entry_slot [OF W(2)] and B = at_entry_slot [OF W(4)]
  show ?thesis
  proof (cases "sr_head r < sr_cached_hardware_pointer r")
    case True
    then have lt: "?a < ?b" using entry_less_iff [OF W(1,2,4)] by simp
    have "unat ((sr_cached_hardware_pointer r - sr_head r) div sr_entry_words r) = Suc (?b - ?a - 1)"
      using unat_entry_diff [OF W(1) B A] lt by simp
    moreover have "ring_cap r - length (source_view r) = ?b - ?a - 1"
      using lt W(8,6) by (simp add: ring_cap_def source_view_def gap_cases)
    ultimately show ?thesis
      using True w(2) minus_one_Ok by (simp add: number_free_def)
  next
    case False
    then have le: "?b \<le> ?a" using entry_less_iff [OF W(1,2,4)] by simp
    have "unat ((sr_ring_words r - sr_head r + sr_cached_hardware_pointer r) div sr_entry_words r)
        = Suc (slots r - ?a + ?b - 1)"
      using unat_entry_wrap [OF W(1) A B le W(6)] W(6) by simp
    moreover have "ring_cap r - length (source_view r) = slots r - ?a + ?b - 1"
      using le W(8,6) by (simp add: ring_cap_def source_view_def gap_cases)
    ultimately show ?thesis
      using False w(2) minus_one_Ok by (simp add: number_free_def)
  qed
qed

lemma number_free_destination:
  assumes "destination_wf r"
  shows "number_free r = Ok (of_nat (length (destination_view r)))"
proof -
  from assms have w: "srng_wf r" "sr_direction r = Destination" by (simp_all add: destination_wf_def)
  note W = srng_wfD [OF w(1)]
  let ?a = "slot r (sr_tail r)" and ?b = "slot r (sr_cached_hardware_pointer r)"
  note A = at_entry_slot [OF W(3)] and B = at_entry_slot [OF W(4)]
  show ?thesis
  proof (cases "sr_cached_hardware_pointer r < sr_tail r")
    case True
    then have lt: "?b < ?a" using entry_less_iff [OF W(1,4,3)] by simp
    have "unat ((sr_ring_words r - sr_tail r + sr_cached_hardware_pointer r) div sr_entry_words r)
        = slots r - ?a + ?b"
      using unat_entry_wrap [OF W(1) A B _ W(7)] lt by simp
    then have "unat ((sr_ring_words r - sr_tail r + sr_cached_hardware_pointer r) div sr_entry_words r)
        = length (destination_view r)"
      using lt W(7,8) by (simp add: destination_view_def gap_cases)
    from word_eq_of_nat [OF this]
    have "(sr_ring_words r - sr_tail r + sr_cached_hardware_pointer r) div sr_entry_words r
        = of_nat (length (destination_view r))" .
    moreover have "\<not> sr_tail r \<le> sr_cached_hardware_pointer r" using True by (simp add: not_le)
    ultimately show ?thesis
      using w(2) by (simp add: number_free_def)
  next
    case False
    then have le: "?a \<le> ?b" using entry_less_iff [OF W(1,4,3)] by simp
    have "unat ((sr_cached_hardware_pointer r - sr_tail r) div sr_entry_words r) = ?b - ?a"
      using unat_entry_diff [OF W(1) B A le] .
    note word_eq_of_nat [OF this]
    moreover have "length (destination_view r) = ?b - ?a"
      using le W(7,8) by (simp add: destination_view_def gap_cases)
    ultimately show ?thesis
      using False w(2) by (simp add: number_free_def not_less)
  qed
qed

section \<open>Reaping\<close>

datatype ring_op = SourceNext | SourceReapNext | SourceNextReaped | HardwareConsume

definition ring_do :: "ring_op \<Rightarrow> 'd srng \<Rightarrow> 'd srng" where
  "ring_do x r =
     (case x of SourceNext \<Rightarrow> snd (source_next r) | SourceReapNext \<Rightarrow> snd (source_reap_next r)
      | SourceNextReaped \<Rightarrow> snd (source_next_reaped r)
      | HardwareConsume \<Rightarrow> (case hardware_consume r of None \<Rightarrow> r | Some (_, r') \<Rightarrow> r'))"

text \<open>The entries up to the reap head lie outside what the hardware still owns.\<close>

definition reap_ok :: "'d srng \<Rightarrow> bool" where
  "reap_ok r \<longleftrightarrow> gap (slots r) (slot r (sr_head r)) (slot r (sr_reap_head r))
     + gap (slots r) (slot r (sr_cached_hardware_pointer r)) (slot r (sr_head r)) < slots r"

lemma gap_sum_step:
  assumes "a < n" "b < n" "x < n" "Suc x mod n \<noteq> a" "gap n b x + gap n a b < n"
  shows "gap n b (Suc x mod n) + gap n a b < n"
  using assms by (auto simp: gap_cases Suc_mod split: if_splits)

lemma gap_sum_head:
  assumes "a < n" "b < n" "x < n" "b \<noteq> x" "gap n b x + gap n a b < n"
  shows "gap n (Suc b mod n) x + gap n a (Suc b mod n) < n"
  using assms by (auto simp: gap_cases Suc_mod split: if_splits)

lemma gap_sum_hw:
  assumes "a < n" "b < n" "x < n" "a \<noteq> b" "gap n b x + gap n a b < n"
  shows "gap n b x + gap n (Suc a mod n) b < n"
  using assms by (auto simp: gap_cases Suc_mod split: if_splits)

lemma gap_refl [simp]: "0 < n \<Longrightarrow> a < n \<Longrightarrow> gap n a a = 0"
  by (simp add: gap_cases)

lemma ring_do_reap_ok:
  assumes "source_wf r" "reap_ok r"
  shows "source_wf (ring_do x r) \<and> reap_ok (ring_do x r)"
proof -
  from assms(1) have w: "srng_wf r" "sr_direction r = Source" by (simp_all add: source_wf_def)
  note W = srng_wfD [OF w(1)]
  note H = next_word_entry [OF W(1,2)] and R = next_word_entry [OF W(1,5)] and C = next_word_entry [OF W(1,4)]
  note ok = assms(2) [unfolded reap_ok_def]
  show ?thesis
  proof (cases x)
    case SourceNext
    have "gap (slots r) (slot r (sr_cached_hardware_pointer r)) (slot r (next_word r (sr_head r))) < slots r"
      using gap_less [OF W(8)] slot_less [OF W(1) H(1)] by blast
    then show ?thesis
      using assms w W H(1) slot_less [OF W(1) H(1)] slots_pos [OF W(1)] SourceNext
      by (simp add: ring_do_def source_next_def Let_def reap_ok_def source_wf_def srng_wf_def)
  next
    case SourceReapNext
    have "next_word r (sr_reap_head r) \<noteq> sr_cached_hardware_pointer r \<Longrightarrow>
        gap (slots r) (slot r (sr_head r)) (slot r (next_word r (sr_reap_head r)))
        + gap (slots r) (slot r (sr_cached_hardware_pointer r)) (slot r (sr_head r)) < slots r"
      using gap_sum_step [OF W(8,6,9) _ ok] at_entry_eq_iff [OF R(1) W(4)] R(2) by simp
    then show ?thesis
      using assms w W R(1) SourceReapNext
      by (simp add: ring_do_def source_reap_next_def Let_def reap_ok_def source_wf_def srng_wf_def)
  next
    case SourceNextReaped
    have "sr_head r \<noteq> sr_reap_head r \<Longrightarrow>
        gap (slots r) (slot r (next_word r (sr_head r))) (slot r (sr_reap_head r))
        + gap (slots r) (slot r (sr_cached_hardware_pointer r)) (slot r (next_word r (sr_head r))) < slots r"
      using gap_sum_head [OF W(8,6,9) _ ok] at_entry_eq_iff [OF W(2,5)] H(2) by simp
    then show ?thesis
      using assms w W H(1) SourceNextReaped
      by (cases "sr_head r = sr_reap_head r") (simp_all add: ring_do_def source_next_reaped_def Let_def reap_ok_def source_wf_def srng_wf_def)
  next
    case HardwareConsume
    have "sr_cached_hardware_pointer r \<noteq> sr_head r \<Longrightarrow>
        gap (slots r) (slot r (sr_head r)) (slot r (sr_reap_head r))
        + gap (slots r) (slot r (next_word r (sr_cached_hardware_pointer r))) (slot r (sr_head r)) < slots r"
      using gap_sum_hw [OF W(8,6,9) _ ok] at_entry_eq_iff [OF W(4,2)] C(2) by simp
    then show ?thesis
      using assms w W C(1) HardwareConsume
      by (simp add: ring_do_def hardware_consume_def advance_hardware_def reap_ok_def source_wf_def srng_wf_def)
  qed
qed

lemma ring_run_reap_ok:
  "source_wf r \<Longrightarrow> reap_ok r \<Longrightarrow> source_wf (fold ring_do xs r) \<and> reap_ok (fold ring_do xs r)"
proof (induction xs arbitrary: r)
  case (Cons x xs)
  then show ?case using ring_do_reap_ok [of r x] by simp
qed simp

lemma reaped_slot_free:
  assumes "source_wf r" "reap_ok r" "source_next_reaped r = (Some off, r')"
  shows "offset_slot r off \<notin> set (source_view r) \<and> length (source_view r) < ring_cap r"
proof -
  from assms(1) have w: "srng_wf r" "sr_direction r = Source" by (simp_all add: source_wf_def)
  note W = srng_wfD [OF w(1)]
  from assms(3) have off: "off = unat (sr_head r) * 4" and ne: "sr_head r \<noteq> sr_reap_head r"
    by (auto simp: source_next_reaped_def split: if_splits)
  have "offset_slot r off \<notin> set (source_view r)"
    using circ_fresh [OF gap_less [OF W(8,6)] W(8)] gap_add [OF W(8,6)] offset_slot_entry [OF W(2,1)]
    by (simp add: source_view_def off)
  moreover have "0 < gap (slots r) (slot r (sr_head r)) (slot r (sr_reap_head r))"
    using gap_0_iff [OF W(6,9)] at_entry_eq_iff [OF W(2,5)] ne by simp
  ultimately show ?thesis
    using assms(2) by (simp add: reap_ok_def source_view_def ring_cap_def)
qed

section \<open>Ring identities and set-up\<close>

text \<open>The ring an identity belongs to, read off the ring table.\<close>

definition ring_owner :: "nat \<Rightarrow> ring_type \<times> nat \<times> nat" where
  "ring_owner i =
     (if i < 4 then (ReoDestination, i, 0) else if i = 4 then (ReoException, 0, 0)
      else if i = 5 then (ReoReinject, 0, 0) else if i = 8 then (ReoCommand, 0, 0)
      else if i = 9 then (ReoStatus, 0, 0) else if i < 19 then (TclData, i - 16, 0)
      else if i = 24 then (TclCommand, 0, 0) else if i = 25 then (TclStatus, 0, 0)
      else if i < 44 then (CeSource, i - 32, 0) else if i < 68 then (CeDestination, i - 56, 0)
      else if i < 92 then (CeDestinationStatus, i - 80, 0) else if i = 104 then (WbmIdleLink, 0, 0)
      else if i = 105 then (SwToWbmRelease, 0, 0) else if i < 128 then (WbmToSwRelease, i - 106, 0)
      else let j = (i - 128) mod 15; mac = (i - 128) div 15 in
        if j < 2 then (RxdmaBuffer, j, mac) else if j = 2 then (RxdmaMonitorBuffer, 0, mac)
        else if j = 4 then (RxdmaMonitorStatus, 0, mac) else if j = 5 then (RxdmaDestination, 0, mac)
        else if j = 6 then (RxdmaMonitorDestination, 0, mac)
        else if j = 7 then (RxdmaMonitorDescriptor, 0, mac) else (RxdmaDirectBuffer, j - 8, mac))"

lemma lmac_id_parts:
  fixes b m :: nat
  assumes "b < 15"
  shows "(b + m * 15) mod 15 = b" "(b + m * 15) div 15 = m"
  using assms by simp_all

lemma ring_id_owner:
  assumes "ring_id t n m = Some i"
  shows "ring_owner i = (t, n, if cf_lmac (config t) then m else 0)"
proof -
  have n: "n < cf_max_rings (config t)"
    and i: "i = cf_start_id (config t) + n + (if cf_lmac (config t) then m * 15 else 0)"
    using assms by (auto simp: ring_id_def Let_def split: if_splits)
  show ?thesis
  proof (cases "cf_lmac (config t)")
    case False
    then show ?thesis
      using n i by (cases t) (simp_all add: config_def mk_config_def ring_owner_def)
  next
    case True
    have j: "\<And>k. k < 15 \<Longrightarrow> cf_start_id (config t) + n = 128 + k \<Longrightarrow>
      i \<ge> 128 \<and> (i - 128) mod 15 = k \<and> (i - 128) div 15 = m"
      using i True lmac_id_parts [of _ m] by auto
    show ?thesis
      using n i True j [of 0] j [of 1] j [of 2] j [of 4] j [of 5] j [of 6] j [of 7] j [of 8] j [of 9]
      by (cases t) (auto simp: config_def mk_config_def ring_owner_def less_2_cases_iff numeral_2_eq_2 less_Suc_eq)
  qed
qed

lemma config_entry_words: "2 \<le> cf_entry_words (config t)" "cf_entry_words (config t) \<le> 26"
  by (cases t; simp add: config_def mk_config_def)+

lemma ring_words_nat:
  assumes "e \<le> 26"
  shows "unat (of_nat e * ucast (k :: u16) :: u32) = e * unat k"
proof -
  have "unat k < 2 ^ 16" using unsigned_less [of k] by simp
  then have "e * unat k \<le> 26 * 2 ^ 16"
    using assms mult_le_mono [of e 26 "unat k" "2 ^ 16"] by simp
  moreover have "unat k mod 4294967296 = unat k"
    using \<open>unat k < 2 ^ 16\<close> by simp
  ultimately show ?thesis
    using assms by (simp add: unat_word_ariths unsigned_ucast_eq take_bit_eq_mod unat_of_nat)
qed

definition setup_ring :: "'d srng \<Rightarrow> ring_type \<Rightarrow> 'd ring_memory \<Rightarrow> nat \<Rightarrow> bool" where
  "setup_ring r t memory i \<longleftrightarrow>
     sr_id r = i \<and> sr_ring_type r = t \<and> sr_direction r = cf_direction (config t)
     \<and> sr_entry_words r = of_nat (cf_entry_words (config t))
     \<and> sr_ring_words r = sr_entry_words r * ucast (rm_entries memory) \<and> sr_entry_words r \<le> sr_ring_words r
     \<and> sr_head r = 0 \<and> sr_tail r = 0 \<and> sr_cached_hardware_pointer r = 0
     \<and> sr_reap_head r = sr_ring_words r - sr_entry_words r \<and> sr_pointer_offset r = i * 4"

lemma setup_returns: "st_then m (\<lambda>_. st_return (Ok r)) s = (Ok r', s') \<Longrightarrow> r' = r"
  by (auto simp: st_then_def st_return_def split: prod.splits res.splits)

lemma srng_setup_shape:
  assumes "srng_setup B mm t n m memory rdp p s = (Ok r, s')"
  obtains i where "ring_id t n m = Some i" "setup_ring r t memory i"
proof (cases "ring_id t n m")
  case None
  then show ?thesis using assms by (simp add: srng_setup_def Let_def)
next
  case (Some i)
  have "setup_ring r t memory i"
    using assms Some by (auto simp: srng_setup_def Let_def setup_ring_def not_less split: if_splits
        dest!: setup_returns)
  with Some show ?thesis by (rule that)
qed

lemma setup_ring_wf:
  assumes "setup_ring r t memory i"
  shows "srng_wf r \<and> slots r = unat (rm_entries memory) \<and> reap_ok r"
proof -
  let ?e = "cf_entry_words (config t)" and ?k = "unat (rm_entries memory)"
  have e: "unat (sr_entry_words r) = ?e"
    using assms config_entry_words [of t] by (simp add: setup_ring_def unat_of_nat)
  have w: "unat (sr_ring_words r) = ?e * ?k"
    using assms ring_words_nat [OF config_entry_words(2)] by (simp add: setup_ring_def)
  have k: "0 < ?k"
    using assms e w config_entry_words(1) [of t]
    by (cases "?k = 0") (auto simp: setup_ring_def word_le_nat_alt)
  have "?k < 2 ^ 16" using unsigned_less [of "rm_entries memory"] by simp
  then have lt: "?e * ?k < 2 ^ 31"
    using config_entry_words(2) [of t] mult_le_mono [of ?e 26 ?k "2 ^ 16"] by simp
  have rp: "unat (sr_reap_head r) = ?e * (?k - 1)"
  proof -
    have "sr_reap_head r = sr_ring_words r - sr_entry_words r" "sr_entry_words r \<le> sr_ring_words r"
      using assms unfolding setup_ring_def by blast+
    then show ?thesis using e w by (simp only: unat_sub) (simp add: diff_mult_distrib2)
  qed
  have g: "geometry_ok r"
    using e w k lt config_entry_words(1) [of t] by (simp add: geometry_ok_def)
  have sl: "slots r = ?k"
    using e w config_entry_words(1) [of t] by (simp add: slots_def)
  have z: "slot r (sr_head r) = 0" "slot r (sr_cached_hardware_pointer r) = 0" "slot r (sr_reap_head r) = ?k - 1"
    using assms e rp config_entry_words(1) [of t] by (simp_all add: setup_ring_def slot_def)
  have "at_entry r (sr_reap_head r)"
    using e w rp k config_entry_words(1) [of t] by (simp add: at_entry_def)
  then have "srng_wf r"
    using assms g e w k config_entry_words(1) [of t] by (simp add: srng_wf_def setup_ring_def at_entry_def)
  moreover have "reap_ok r"
    using z k sl by (simp add: reap_ok_def gap_cases)
  ultimately show ?thesis using sl by simp
qed

section \<open>Guarantees\<close>

definition sample_memory :: "u16 \<Rightarrow> u64 ring_memory" where
  "sample_memory entries = \<lparr>rm_dma = sample_buffer, rm_entries = entries, rm_entry_bytes = 8\<rparr>"

definition sample_ring :: "ring_direction \<Rightarrow> u32 \<Rightarrow> u32 \<Rightarrow> u32 \<Rightarrow> u64 srng" where
  "sample_ring d pos hw reap =
     \<lparr>sr_id = 128, sr_ring_type = RxdmaBuffer, sr_direction = d, sr_memory = sample_memory 4,
      sr_entry_words = 2, sr_ring_words = 8, sr_r0 = 0, sr_r2 = 0, sr_pointer_offset = 512,
      sr_firmware_pointer_offset = 0, sr_publication_offset = 0, sr_head = pos, sr_tail = pos,
      sr_cached_hardware_pointer = hw, sr_reap_head = reap, sr_loop_count = 1, sr_flags = LMAC_RING\<rparr>"

lemmas sample_ring_eval =
  sample_ring_def source_wf_def destination_wf_def srng_wf_def geometry_ok_def at_entry_def
  source_view_def destination_view_def ring_cap_def slots_def slot_def gap_def circ_def

text \<open>C20: a source ring is a bounded queue. For every interleaving of entries the host claims
  with \<open>source_next\<close> and entries the hardware consumes, the hardware receives the claimed entries
  in the order they were claimed, none lost and none twice, and never more than all entries but
  one are outstanding.\<close>

theorem source_ring_queue:
  assumes "source_wf r" "fifo_run source_push hardware_consume schedule r = (claimed, consumed, t)"
  shows "consumed @ source_view t = source_view r @ claimed \<and> length (source_view t) \<le> ring_cap r
    \<and> source_wf t"
  using src_ring.run_fifo [OF assms] src_ring.view_cap [of t] by auto

theorem source_ring_queue_witness:
  "\<exists>t. fifo_run source_push hardware_consume [True, True, True, True, False, True, False]
      (sample_ring Source 4 4 2) = ([2, 3, 0, 1], [2, 3], t) \<and> source_view t = [0, 1] \<and> source_wf t"
proof -
  have w: "source_wf (sample_ring Source 4 4 2)" and v: "source_view (sample_ring Source 4 4 2) = []"
    by (simp_all add: sample_ring_eval)
  have "\<exists>t. fifo_run source_push hardware_consume [True, True, True, True, False, True, False]
      (sample_ring Source 4 4 2) = ([2, 3, 0, 1], [2, 3], t)"
    by (simp add: sample_ring_def source_push_def source_next_def next_word_def offset_slot_def
        hardware_consume_def advance_hardware_def slot_def)
  then obtain t where t: "fifo_run source_push hardware_consume [True, True, True, True, False, True, False]
      (sample_ring Source 4 4 2) = ([2, 3, 0, 1], [2, 3], t)" by blast
  from source_ring_queue [OF w t] v t show ?thesis by simp
qed

text \<open>C21: a destination ring is a bounded queue. For every interleaving of entries the hardware
  fills and entries the host takes with \<open>destination_next\<close>, the host receives the entries in the
  order they were filled, also across the end of the ring.\<close>

theorem destination_ring_queue:
  assumes "destination_wf r" "fifo_run hardware_produce destination_pop schedule r = (filled, taken, t)"
  shows "taken @ destination_view t = destination_view r @ filled
    \<and> length (destination_view t) \<le> ring_cap r \<and> destination_wf t"
  using dst_ring.run_fifo [OF assms] dst_ring.view_cap [of t] by auto

theorem destination_ring_queue_witness:
  "\<exists>t. fifo_run hardware_produce destination_pop [True, True, True, True, False, False, False, False]
      (sample_ring Destination 4 4 0) = ([2, 3, 0], [2, 3, 0], t) \<and> destination_view t = []"
proof -
  have w: "destination_wf (sample_ring Destination 4 4 0)"
    and v: "destination_view (sample_ring Destination 4 4 0) = []"
    by (simp_all add: sample_ring_eval)
  have "\<exists>t. fifo_run hardware_produce destination_pop [True, True, True, True, False, False, False, False]
      (sample_ring Destination 4 4 0) = ([2, 3, 0], [2, 3, 0], t)"
    by (simp add: sample_ring_def destination_pop_def destination_next_def next_word_def offset_slot_def
        hardware_produce_def advance_hardware_def slot_def)
  then obtain t where t: "fifo_run hardware_produce destination_pop
      [True, True, True, True, False, False, False, False]
      (sample_ring Destination 4 4 0) = ([2, 3, 0], [2, 3, 0], t)" by blast
  from destination_ring_queue [OF w t] v t show ?thesis by simp
qed

text \<open>C22: the free count is exact. On a ring whose pointers stand on entries, \<open>number_free\<close> does
  not underflow; for a source ring it is the number of entries \<open>source_next\<close> can still claim
  before the ring is full, for a destination ring the number of entries waiting for the host.\<close>

theorem number_free_exact:
  assumes "srng_wf r"
  shows "number_free r = Ok (of_nat (case sr_direction r of
      Source \<Rightarrow> ring_cap r - length (source_view r) | Destination \<Rightarrow> length (destination_view r)))"
  using number_free_source [of r] number_free_destination [of r] assms
  by (cases "sr_direction r") (simp_all add: source_wf_def destination_wf_def)

theorem number_free_exact_witness:
  "number_free (sample_ring Source 2 4 0) = Ok 0 \<and> number_free (sample_ring Destination 6 2 0) = Ok 2"
proof -
  have "srng_wf (sample_ring Source 2 4 0)" "srng_wf (sample_ring Destination 6 2 0)"
    by (simp_all add: sample_ring_eval)
  from this [THEN number_free_exact] show ?thesis
    by (simp add: sample_ring_eval)
qed



text \<open>C24: set-up establishes the ring invariant and gives every ring its own pointer word. On
  any backend, a ring that was set up has its indices on entries, an empty queue of the memory's
  number of entries and a safe reap head, and two rings that were set up with the same word of
  the remote pointer array are the same ring.\<close>

theorem setup_establishes_ring:
  assumes "srng_setup B mm t n m memory rdp p s = (Ok r, s')"
    and "srng_setup B' mm' t' n' m' memory' rdp' p' u = (Ok r', u')"
  shows "srng_wf r \<and> slots r = unat (rm_entries memory) \<and> reap_ok r \<and> source_view r = []
    \<and> destination_view r = [] \<and>
    (sr_pointer_offset r = sr_pointer_offset r' \<longrightarrow>
       t' = t \<and> n' = n \<and> (cf_lmac (config t) \<longrightarrow> m' = m))"
proof -
  obtain i where i: "ring_id t n m = Some i" "setup_ring r t memory i"
    using srng_setup_shape [OF assms(1)] .
  obtain i' where i': "ring_id t' n' m' = Some i'" "setup_ring r' t' memory' i'"
    using srng_setup_shape [OF assms(2)] .
  have "sr_pointer_offset r = sr_pointer_offset r' \<Longrightarrow> i = i'"
    using i(2) i'(2) by (simp add: setup_ring_def)
  then have own: "sr_pointer_offset r = sr_pointer_offset r' \<Longrightarrow>
      t' = t \<and> n' = n \<and> (cf_lmac (config t) \<longrightarrow> m' = m)"
    using ring_id_owner [OF i(1)] ring_id_owner [OF i'(1)] by auto
  note W = setup_ring_wf [OF i(2)]
  have "source_view r = []" "destination_view r = []"
    using i(2) W slots_pos [of r]
    by (simp_all add: source_view_def destination_view_def circ_def gap_def slot_def setup_ring_def srng_wf_def)
  with W own show ?thesis by blast
qed

definition sample_params :: srng_params where
  "sample_params = \<lparr>sp_interrupt_batch_entries = 0, sp_interrupt_timer_us = 0, sp_flags = 0,
     sp_max_buffer_len = 0, sp_low_threshold = 0, sp_msi_address = 0, sp_msi_data = 0\<rparr>"

theorem setup_establishes_ring_witness:
  "\<exists>r. srng_setup det_backend sample_region RxdmaBuffer 1 0 (sample_memory 4) sample_buffer sample_params
      det_default = (Ok r, det_default) \<and> slots r = 4 \<and> reap_ok r"
proof -
  have "\<exists>r. srng_setup det_backend sample_region RxdmaBuffer 1 0 (sample_memory 4) sample_buffer
      sample_params det_default = (Ok r, det_default)"
    by (simp add: srng_setup_def ring_id_def config_def mk_config_def sample_memory_def when_do_def
        st_then_def st_return_def word_less_nat_alt)
  then obtain r where r: "srng_setup det_backend sample_region RxdmaBuffer 1 0 (sample_memory 4) sample_buffer
      sample_params det_default = (Ok r, det_default)" by blast
  from setup_establishes_ring [OF r r] r show ?thesis by (auto simp: sample_memory_def)
qed

end
