(* ===== verification/Mt76_Core.thy ===== *)
theory Mt76_Core
  imports Drv_Prelude
begin

text \<open>
  Hardware primitives shared by the mt76 devices (\<open>crates/wifi/drivers/mt76/mt76-core/src/lib.rs\<close>):
  DMA descriptors, the Connac2 patch and firmware images, download modes, the MCU response
  header, and the search for the PCIe Link Control word in configuration space.

  The images come from files and the configuration space from the bus, so every parser is a
  function of arbitrary bytes; an index or slice that is out of range is \<open>Panic\<close>.
\<close>

section \<open>Words and descriptors\<close>

definition mt76_mmio_rmw_value :: "u32 \<Rightarrow> u32 \<Rightarrow> u32 \<Rightarrow> u32" where
  "mt76_mmio_rmw_value initial msk val = val OR (initial AND NOT msk)"

definition connac2_group1_pn :: "bytes \<Rightarrow> (string, bytes) res" where
  "connac2_group1_pn group1 =
     and_then (ok_or (slice_get 0 6 group1) ''Connac2 GROUP1 omitted CCMP PN'') (\<lambda>pn.
       Ok [pn ! 5, pn ! 4, pn ! 3, pn ! 2, pn ! 1, pn ! 0])"

definition DMA_DESCRIPTOR_LEN :: nat where "DMA_DESCRIPTOR_LEN = 16"
definition DMA_MAX_SEGMENT_LEN :: u16 where "DMA_MAX_SEGMENT_LEN = 0x3fff"
definition DMA_CTL_LAST_SEC1 :: u32 where "DMA_CTL_LAST_SEC1 = push_bit 14 1"
definition DMA_CTL_SD_LEN0_SHIFT :: nat where "DMA_CTL_SD_LEN0_SHIFT = 16"
definition DMA_CTL_LAST_SEC0 :: u32 where "DMA_CTL_LAST_SEC0 = push_bit 30 1"
definition DMA_CTL_DMA_DONE :: u32 where "DMA_CTL_DMA_DONE = push_bit 31 1"

datatype descriptor_error = AddressAbove36Bits | SegmentTooLong

definition validate_segment :: "u64 \<times> u16 \<Rightarrow> (descriptor_error, unit) res" where
  "validate_segment segment =
     (if drop_bit 36 (fst segment) \<noteq> 0 then Err AddressAbove36Bits
      else if snd segment > DMA_MAX_SEGMENT_LEN then Err SegmentTooLong
      else Ok ())"

record dma_descriptor =
  de_buf0 :: u32
  de_ctrl :: u32
  de_buf1 :: u32
  de_info :: u32

definition descriptor_tx ::
  "u64 \<times> u16 \<Rightarrow> (u64 \<times> u16) option \<Rightarrow> u32 \<Rightarrow> (descriptor_error, dma_descriptor) res" where
  "descriptor_tx first second info =
     and_then (validate_segment first) (\<lambda>_.
     and_then (case second of Some segment \<Rightarrow> validate_segment segment | None \<Rightarrow> Ok ()) (\<lambda>_.
       let ctrl = push_bit DMA_CTL_SD_LEN0_SHIFT (ucast (snd first));
           descriptor_info = info OR (ucast (drop_bit 32 (fst first)) AND 0x0f)
       in Ok (case second of
          Some segment \<Rightarrow>
            \<lparr>de_buf0 = ucast (fst first), de_ctrl = ctrl OR (ucast (snd segment) OR DMA_CTL_LAST_SEC1),
             de_buf1 = ucast (fst segment),
             de_info = descriptor_info OR push_bit 16 (ucast (drop_bit 32 (fst segment)) AND 0x0f)\<rparr>
        | None \<Rightarrow>
            \<lparr>de_buf0 = ucast (fst first), de_ctrl = ctrl OR DMA_CTL_LAST_SEC0, de_buf1 = 0,
             de_info = descriptor_info\<rparr>)))"

definition descriptor_rx :: "u64 \<times> u16 \<Rightarrow> (descriptor_error, dma_descriptor) res" where
  "descriptor_rx buffer =
     and_then (validate_segment buffer) (\<lambda>_. Ok
       \<lparr>de_buf0 = ucast (fst buffer), de_ctrl = push_bit DMA_CTL_SD_LEN0_SHIFT (ucast (snd buffer)),
        de_buf1 = ucast (drop_bit 32 (fst buffer)) AND 0x0f, de_info = 0\<rparr>)"

definition descriptor_reset :: dma_descriptor where
  "descriptor_reset = \<lparr>de_buf0 = 0, de_ctrl = DMA_CTL_DMA_DONE, de_buf1 = 0, de_info = 0\<rparr>"

definition descriptor_to_le_bytes :: "dma_descriptor \<Rightarrow> bytes" where
  "descriptor_to_le_bytes d =
     le_bytes 4 (de_buf0 d) @ le_bytes 4 (de_ctrl d) @ le_bytes 4 (de_buf1 d) @ le_bytes 4 (de_info d)"

definition is_dma_done :: "dma_descriptor \<Rightarrow> bool" where
  "is_dma_done d \<longleftrightarrow> de_ctrl d AND DMA_CTL_DMA_DONE \<noteq> 0"

section \<open>Patch images\<close>

definition FW_TRAILER_LEN :: nat where "FW_TRAILER_LEN = 36"
definition FW_REGION_LEN :: nat where "FW_REGION_LEN = 40"
definition FW_FEATURE_NON_DL :: u8 where "FW_FEATURE_NON_DL = push_bit 6 1"
definition FW_TYPE_CLC :: u8 where "FW_TYPE_CLC = 2"
definition PATCH_HEADER_LEN :: nat where "PATCH_HEADER_LEN = 96"
definition PATCH_SECTION_LEN :: nat where "PATCH_SECTION_LEN = 64"

datatype firmware_error =
  MissingTrailer | FwRegionTableTooLarge | PayloadLengthOverflow | PayloadOverlapsMetadata

datatype patch_error =
  MissingHeader | PatchRegionTableTooLarge | UnsupportedSectionType | PayloadOutOfBounds

record patch_header =
  ph_build_date :: bytes
  ph_platform :: bytes
  ph_hardware_software_version :: u32
  ph_patch_version :: u32
  ph_checksum :: u16
  ph_descriptor_patch_version :: u32
  ph_subsystem :: u32
  ph_feature :: u32
  ph_crc :: u32

record patch_section =
  ps_address :: u32
  ps_security_info :: u32
  ps_payload :: bytes

record patch =
  pt_bytes :: bytes
  pt_region_count :: u32
  pt_header :: patch_header

text \<open>A fixed-width field: converting a slice of another length panics.\<close>

definition be_u32 :: "bytes \<Rightarrow> ('e, u32) res" where
  "be_u32 bs = (if length bs = 4 then Ok (from_be bs) else Panic)"

definition le_u32 :: "bytes \<Rightarrow> ('e, u32) res" where
  "le_u32 bs = (if length bs = 4 then Ok (from_le bs) else Panic)"

definition be_field :: "nat \<Rightarrow> bytes \<Rightarrow> ('e, u32) res" where
  "be_field off bs = and_then (slice off (off + 4) bs) be_u32"

definition le_field :: "nat \<Rightarrow> bytes \<Rightarrow> ('e, u32) res" where
  "le_field off bs = and_then (slice off (off + 4) bs) le_u32"

definition patch_section_bytes :: "bytes \<Rightarrow> nat \<Rightarrow> ('e, bytes) res" where
  "patch_section_bytes bytes i =
     (let start = PATCH_HEADER_LEN + i * PATCH_SECTION_LEN
      in slice start (start + PATCH_SECTION_LEN) bytes)"

definition check_section :: "bytes \<Rightarrow> nat \<Rightarrow> nat \<Rightarrow> (patch_error, unit) res" where
  "check_section bytes table_len i =
     and_then (patch_section_bytes bytes i) (\<lambda>section.
     and_then (be_field 0 section) (\<lambda>kind.
       if kind AND 0xffff \<noteq> 2 then Err UnsupportedSectionType
       else and_then (be_field 4 section) (\<lambda>offset.
            and_then (be_field 16 section) (\<lambda>len.
            and_then (ok_or (checked_add (unat offset) (unat len)) PayloadOutOfBounds) (\<lambda>stop.
              if unat offset < table_len \<or> stop > length bytes then Err PayloadOutOfBounds else Ok ())))))"

fun check_each :: "(nat \<Rightarrow> ('e, unit) res) \<Rightarrow> nat list \<Rightarrow> ('e, unit) res" where
  "check_each f [] = Ok ()"
| "check_each f (i # is) = and_then (f i) (\<lambda>_. check_each f is)"

definition parse_patch_header :: "bytes \<Rightarrow> (patch_error, patch_header) res" where
  "parse_patch_header header =
     and_then (slice 0 16 header) (\<lambda>build_date.
     and_then (slice 16 20 header) (\<lambda>platform.
     and_then (be_field 20 header) (\<lambda>hw_sw.
     and_then (be_field 24 header) (\<lambda>version.
     and_then (slice 28 30 header) (\<lambda>checksum.
     and_then (be_field 32 header) (\<lambda>descriptor_version.
     and_then (be_field 36 header) (\<lambda>subsystem.
     and_then (be_field 40 header) (\<lambda>feature.
     and_then (be_field 48 header) (\<lambda>crc.
       Ok \<lparr>ph_build_date = build_date, ph_platform = platform, ph_hardware_software_version = hw_sw,
           ph_patch_version = version, ph_checksum = from_be checksum,
           ph_descriptor_patch_version = descriptor_version, ph_subsystem = subsystem,
           ph_feature = feature, ph_crc = crc\<rparr>)))))))))"

definition patch_parse :: "bytes \<Rightarrow> (patch_error, patch) res" where
  "patch_parse bytes =
     and_then (ok_or (slice_get 0 PATCH_HEADER_LEN bytes) MissingHeader) (\<lambda>header.
     and_then (be_field 44 header) (\<lambda>region_count.
     and_then (ok_or (Option.bind (checked_mul (unat region_count) PATCH_SECTION_LEN)
                        (checked_add PATCH_HEADER_LEN)) PatchRegionTableTooLarge) (\<lambda>table_len.
       if table_len > length bytes then Err PatchRegionTableTooLarge
       else and_then (check_each (check_section bytes table_len) [0..<unat region_count]) (\<lambda>_.
            and_then (parse_patch_header header) (\<lambda>hdr.
              Ok \<lparr>pt_bytes = bytes, pt_region_count = region_count, pt_header = hdr\<rparr>)))))"

text \<open>The iterator over the sections: its state is the patch and the next index.\<close>

definition patch_next :: "(patch \<times> nat, patch_error, patch_section option) op" where
  "patch_next st =
     (let (p, i) = st in
      if i = unat (pt_region_count p) then (Ok None, st)
      else (and_then (patch_section_bytes (pt_bytes p) i) (\<lambda>section.
            and_then (be_field 4 section) (\<lambda>offset.
            and_then (be_field 16 section) (\<lambda>len.
            and_then (be_field 12 section) (\<lambda>address.
            and_then (be_field 20 section) (\<lambda>security_info.
            and_then (slice (unat offset) (unat offset + unat len) (pt_bytes p)) (\<lambda>payload.
              Ok (Some \<lparr>ps_address = address, ps_security_info = security_info,
                        ps_payload = payload\<rparr>))))))),
            (p, Suc i)))"

section \<open>Firmware images\<close>

record firmware_trailer =
  ft_chip_id :: u8
  ft_eco_code :: u8
  ft_format_version :: u8
  ft_format_flag :: u8
  ft_firmware_version :: bytes
  ft_build_date :: bytes
  ft_crc :: u32

record firmware_region =
  fr_address :: u32
  fr_feature_set :: u8
  fr_region_type :: u8
  fr_payload :: bytes

definition is_downloadable :: "firmware_region \<Rightarrow> bool" where
  "is_downloadable r \<longleftrightarrow> fr_feature_set r AND FW_FEATURE_NON_DL = 0"

definition is_clc :: "firmware_region \<Rightarrow> bool" where
  "is_clc r \<longleftrightarrow> fr_feature_set r AND FW_FEATURE_NON_DL \<noteq> 0 \<and> fr_region_type r = FW_TYPE_CLC"

record firmware =
  fw_bytes :: bytes
  fw_metadata_start :: nat
  fw_region_count :: u8
  fw_trailer :: firmware_trailer

definition region_record :: "firmware \<Rightarrow> nat \<Rightarrow> ('e, bytes) res" where
  "region_record f i =
     (let start = fw_metadata_start f + i * FW_REGION_LEN
      in slice start (start + FW_REGION_LEN) (fw_bytes f))"

definition parse_firmware_trailer :: "bytes \<Rightarrow> (firmware_error, firmware_trailer) res" where
  "parse_firmware_trailer trailer =
     and_then (slice 7 17 trailer) (\<lambda>firmware_version.
     and_then (slice 17 32 trailer) (\<lambda>build_date.
     and_then (index trailer 0) (\<lambda>chip_id.
     and_then (index trailer 1) (\<lambda>eco_code.
     and_then (index trailer 3) (\<lambda>format_version.
     and_then (index trailer 4) (\<lambda>format_flag.
     and_then (le_field 32 trailer) (\<lambda>crc.
       Ok \<lparr>ft_chip_id = chip_id, ft_eco_code = eco_code, ft_format_version = format_version,
           ft_format_flag = format_flag, ft_firmware_version = firmware_version,
           ft_build_date = build_date, ft_crc = crc\<rparr>)))))))"

fun check_regions :: "firmware \<Rightarrow> nat list \<Rightarrow> nat \<Rightarrow> (firmware_error, unit) res" where
  "check_regions f [] payload_end = Ok ()"
| "check_regions f (i # is) payload_end =
     and_then (region_record f i) (\<lambda>rec.
     and_then (le_field 20 rec) (\<lambda>len.
     and_then (ok_or (checked_add payload_end (unat len)) PayloadLengthOverflow) (\<lambda>payload_end.
       if payload_end > fw_metadata_start f then Err PayloadOverlapsMetadata
       else check_regions f is payload_end)))"

definition firmware_parse :: "bytes \<Rightarrow> (firmware_error, firmware) res" where
  "firmware_parse bytes =
     and_then (ok_or (checked_sub (length bytes) FW_TRAILER_LEN) MissingTrailer) (\<lambda>trailer_start.
     and_then (slice trailer_start (length bytes) bytes) (\<lambda>trailer.
     and_then (index trailer 2) (\<lambda>region_count.
     and_then (ok_or (checked_mul (unat region_count) FW_REGION_LEN) FwRegionTableTooLarge) (\<lambda>table_len.
     and_then (ok_or (checked_sub trailer_start table_len) FwRegionTableTooLarge) (\<lambda>metadata_start.
     and_then (parse_firmware_trailer trailer) (\<lambda>t.
       let parsed = \<lparr>fw_bytes = bytes, fw_metadata_start = metadata_start,
                     fw_region_count = region_count, fw_trailer = t\<rparr>
       in and_then (check_regions parsed [0..<unat region_count] 0) (\<lambda>_. Ok parsed)))))))"

definition firmware_next :: "(firmware \<times> nat \<times> nat, firmware_error, firmware_region option) op" where
  "firmware_next st =
     (let (f, i, payload_offset) = st in
      if i = unat (fw_region_count f) then (Ok None, st)
      else case and_then (region_record f i) (\<lambda>rec.
                and_then (le_field 20 rec) (\<lambda>len. Ok (rec, unat len))) of
             Ok (rec, len) \<Rightarrow>
               (and_then (le_field 16 rec) (\<lambda>address.
                and_then (index rec 24) (\<lambda>feature_set.
                and_then (index rec 25) (\<lambda>region_type.
                and_then (slice payload_offset (payload_offset + len) (fw_bytes f)) (\<lambda>payload.
                  Ok (Some \<lparr>fr_address = address, fr_feature_set = feature_set,
                            fr_region_type = region_type, fr_payload = payload\<rparr>))))),
                (f, Suc i, payload_offset + len))
           | Err e \<Rightarrow> (Err e, st) | Panic \<Rightarrow> (Panic, st))"

section \<open>Download modes and the MCU response\<close>

definition DL_MODE_ENCRYPT :: u32 where "DL_MODE_ENCRYPT = 1"
definition DL_MODE_KEY_INDEX :: u32 where "DL_MODE_KEY_INDEX = push_bit 1 3"
definition DL_MODE_RESET_SECURITY_IV :: u32 where "DL_MODE_RESET_SECURITY_IV = push_bit 3 1"
definition DL_MODE_WORKING_PDA_CR4 :: u32 where "DL_MODE_WORKING_PDA_CR4 = push_bit 4 1"
definition DL_MODE_ENCRYPTION_MODE_SELECT :: u32 where "DL_MODE_ENCRYPTION_MODE_SELECT = push_bit 6 1"
definition DL_MODE_NEED_RESPONSE :: u32 where "DL_MODE_NEED_RESPONSE = push_bit 31 1"

definition firmware_download_mode :: "u8 \<Rightarrow> bool \<Rightarrow> u32" where
  "firmware_download_mode feature_set working_pda_cr4 =
     DL_MODE_NEED_RESPONSE OR (ucast feature_set AND DL_MODE_KEY_INDEX)
       OR (if feature_set AND 1 \<noteq> 0 then DL_MODE_ENCRYPT OR DL_MODE_RESET_SECURITY_IV else 0)
       OR (if feature_set AND push_bit 4 1 \<noteq> 0 then DL_MODE_ENCRYPTION_MODE_SELECT else 0)
       OR (if working_pda_cr4 then DL_MODE_WORKING_PDA_CR4 else 0)"

datatype patch_security_error = UnsupportedEncryptionType u8

definition patch_download_mode :: "u32 \<Rightarrow> (patch_security_error, u32) res" where
  "patch_download_mode security_info =
     (let mode = DL_MODE_NEED_RESPONSE; kind = (ucast (drop_bit 24 security_info) :: u8) in
      if security_info = -1 then Ok mode
      else if kind = 0 then Ok mode
      else if kind = 1 then Ok (mode OR (DL_MODE_ENCRYPT OR (push_bit 1 security_info AND DL_MODE_KEY_INDEX)
                                         OR DL_MODE_RESET_SECURITY_IV))
      else if kind = 2 then Ok (mode OR (DL_MODE_ENCRYPT OR DL_MODE_ENCRYPTION_MODE_SELECT
                                         OR DL_MODE_RESET_SECURITY_IV))
      else Err (UnsupportedEncryptionType kind))"

record download_response =
  dr_length :: u16
  dr_packet_type :: u16
  dr_event_id :: u8
  dr_sequence :: u8
  dr_option :: u8
  dr_extended_event_id :: u8

datatype download_response_error = DrTruncated | DrInvalidLength | DrSequenceMismatch u8 u8

definition parse_download_response ::
  "bytes \<Rightarrow> u8 \<Rightarrow> (download_response_error, download_response) res" where
  "parse_download_response bytes expected_sequence =
     and_then (ok_or (slice_get 0 36 bytes) DrTruncated) (\<lambda>header.
     and_then (slice 24 26 header) (\<lambda>len_bytes.
       let len = (from_le len_bytes :: u16) in
       if (case checked_add 24 (unat len) of None \<Rightarrow> True | Some stop \<Rightarrow> stop > length bytes) \<or> len < 12
       then Err DrInvalidLength
       else and_then (index header 29) (\<lambda>sequence.
         if sequence \<noteq> expected_sequence then Err (DrSequenceMismatch expected_sequence sequence)
         else and_then (slice 26 28 header) (\<lambda>packet_type.
              and_then (index header 28) (\<lambda>event_id.
              and_then (index header 30) (\<lambda>option_byte.
              and_then (index header 32) (\<lambda>extended.
                Ok \<lparr>dr_length = len, dr_packet_type = from_le packet_type, dr_event_id = event_id,
                    dr_sequence = sequence, dr_option = option_byte,
                    dr_extended_event_id = extended\<rparr>)))))))"

section \<open>The PCIe capability list\<close>

definition PCI_CAPABILITY_LIST :: nat where "PCI_CAPABILITY_LIST = 0x34"
definition PCI_STATUS :: nat where "PCI_STATUS = 0x06"
definition PCI_STATUS_CAP_LIST :: u16 where "PCI_STATUS_CAP_LIST = push_bit 4 1"
definition PCI_CAP_ID_EXP :: u8 where "PCI_CAP_ID_EXP = 0x10"
definition PCI_EXP_LNKCTL :: nat where "PCI_EXP_LNKCTL = 0x10"
definition PCI_EXP_LNKCTL_ASPMC :: u16 where "PCI_EXP_LNKCTL_ASPMC = 0x3"

datatype pcie_link_control_error =
    ConfigTooShort
  | InvalidCapabilityOffset u8
  | CapabilityLoop u8
  | TruncatedPcieCapability u8
  | PcieCapabilityAbsent

definition word_at :: "bytes \<Rightarrow> nat \<Rightarrow> ('e, u16) res" where
  "word_at cfg i = and_then (index cfg i) (\<lambda>lo. and_then (index cfg (i + 1)) (\<lambda>hi. Ok (from_le [lo, hi])))"

text \<open>The loop of at most \<open>n\<close> more rounds, with the table of visited slots.\<close>

fun cap_walk ::
  "bytes \<Rightarrow> nat \<Rightarrow> bool list \<Rightarrow> u8 \<Rightarrow> (pcie_link_control_error, u16) res" where
  "cap_walk cfg 0 visited offset = Err (CapabilityLoop offset)"
| "cap_walk cfg (Suc n) visited offset =
     (let i = unat offset in
      if i < 0x40 \<or> i + 2 > length cfg then Err (InvalidCapabilityOffset offset)
      else and_then (index visited (i div 4)) (\<lambda>seen.
        if seen then Err (CapabilityLoop offset)
        else and_then (index cfg i) (\<lambda>cap_id.
          if cap_id = PCI_CAP_ID_EXP then
            (let link_control = i + PCI_EXP_LNKCTL in
             if link_control + 2 > length cfg then Err (TruncatedPcieCapability offset)
             else word_at cfg link_control)
          else and_then (index cfg (i + 1)) (\<lambda>nxt.
            if nxt AND NOT 3 = 0 then Err PcieCapabilityAbsent
            else cap_walk cfg n (visited[i div 4 := True]) (nxt AND NOT 3)))))"

definition pcie_link_control :: "bytes \<Rightarrow> (pcie_link_control_error, u16) res" where
  "pcie_link_control cfg =
     (if length cfg \<le> PCI_CAPABILITY_LIST then Err ConfigTooShort
      else and_then (word_at cfg PCI_STATUS) (\<lambda>status.
        if status AND PCI_STATUS_CAP_LIST = 0 then Err PcieCapabilityAbsent
        else and_then (index cfg PCI_CAPABILITY_LIST) (\<lambda>first.
          if first AND NOT 3 = 0 then Err PcieCapabilityAbsent
          else cap_walk cfg 48 (replicate 64 False) (first AND NOT 3))))"

definition mt76_pci_aspm_supported ::
  "bytes \<Rightarrow> bytes option \<Rightarrow> (pcie_link_control_error, bool) res" where
  "mt76_pci_aspm_supported endpoint_config parent_config =
     and_then (pcie_link_control endpoint_config) (\<lambda>endpoint.
     and_then (case parent_config of Some cfg \<Rightarrow> pcie_link_control cfg | None \<Rightarrow> Ok 0) (\<lambda>parent.
       Ok (endpoint AND PCI_EXP_LNKCTL_ASPMC \<noteq> 0 \<or> parent AND PCI_EXP_LNKCTL_ASPMC \<noteq> 0)))"

section \<open>What the capability search finds\<close>

text \<open>The capability list as the configuration space lays it out, without visited table or round
  limit: \<open>cap_next\<close> is the link of a capability that is in bounds and not the PCIe one.\<close>

definition cap_valid :: "bytes \<Rightarrow> u8 \<Rightarrow> bool" where
  "cap_valid cfg a \<longleftrightarrow> 0x40 \<le> unat a \<and> unat a + 2 \<le> length cfg"

definition cap_next :: "bytes \<Rightarrow> u8 \<Rightarrow> u8 option" where
  "cap_next cfg a =
     (if cap_valid cfg a \<and> cfg ! unat a \<noteq> PCI_CAP_ID_EXP \<and> cfg ! (unat a + 1) AND NOT 3 \<noteq> 0
      then Some (cfg ! (unat a + 1) AND NOT 3) else None)"

primrec cap_iter :: "bytes \<Rightarrow> nat \<Rightarrow> u8 \<Rightarrow> u8 option" where
  "cap_iter cfg 0 a = Some a"
| "cap_iter cfg (Suc n) a = Option.bind (cap_next cfg a) (cap_iter cfg n)"

definition cap_found :: "bytes \<Rightarrow> u8 \<Rightarrow> u16 \<Rightarrow> bool" where
  "cap_found cfg b v \<longleftrightarrow> cap_valid cfg b \<and> cfg ! unat b = PCI_CAP_ID_EXP
     \<and> unat b + PCI_EXP_LNKCTL + 2 \<le> length cfg
     \<and> v = from_le [cfg ! (unat b + PCI_EXP_LNKCTL), cfg ! (unat b + PCI_EXP_LNKCTL + 1)]"

lemma cap_iter_add: "cap_iter cfg (m + k) a = Option.bind (cap_iter cfg m a) (cap_iter cfg k)"
  by (induction m arbitrary: a) (auto split: Option.bind_split)

lemma and_not_3: "(x :: u8) AND NOT 3 = push_bit 2 (drop_bit 2 x)"
proof (rule bit_word_eqI)
  fix n :: nat assume "n < LENGTH(8)"
  have "(3 :: u8) = mask 2" by (simp add: mask_eq_exp_minus_1)
  moreover have "bit (mask 2 :: u8) n \<longleftrightarrow> n < 2"
    using \<open>n < LENGTH(8)\<close> by (simp only: bit_mask_iff) auto
  ultimately have "bit (3 :: u8) n \<longleftrightarrow> n < 2"
    by metis
  moreover have "2 \<le> n \<Longrightarrow> Suc (Suc (n - 2)) = n" by simp
  ultimately show "bit (x AND NOT 3) n = bit (push_bit 2 (drop_bit 2 x)) n"
    using \<open>n < LENGTH(8)\<close> by (auto simp: bit_simps)
qed

lemma slot_drop_bit: "unat (a :: u8) div 4 = unat (drop_bit 2 a)"
  by (simp add: drop_bit_eq_div unat_div)

lemma slot_lt: "unat (a :: u8) div 4 < 64"
proof -
  have "unat a < 2 ^ 8" using unsigned_less [of a] by simp
  then show ?thesis by simp
qed

lemma aligned_slot_inj:
  assumes "a = push_bit 2 (drop_bit 2 a)" "b = push_bit 2 (drop_bit 2 b)" "unat (a :: u8) div 4 = unat b div 4"
  shows "a = b"
proof -
  have "drop_bit 2 a = drop_bit 2 b"
    using assms(3) by (simp add: slot_drop_bit word_unat_eq_iff)
  with assms(1,2) show ?thesis by metis
qed

lemma cap_walk_step:
  assumes "cap_valid cfg off" "length visited = 64" "\<not> visited ! (unat off div 4)"
  shows "cap_walk cfg (Suc n) visited off =
    (if cfg ! unat off = PCI_CAP_ID_EXP then
       (if unat off + PCI_EXP_LNKCTL + 2 > length cfg then Err (TruncatedPcieCapability off)
        else Ok (from_le [cfg ! (unat off + PCI_EXP_LNKCTL), cfg ! (unat off + PCI_EXP_LNKCTL + 1)]))
     else case cap_next cfg off of None \<Rightarrow> Err PcieCapabilityAbsent
       | Some nxt \<Rightarrow> cap_walk cfg n (visited[unat off div 4 := True]) nxt)"
  using assms slot_lt [of off]
  by (auto simp: Let_def index_def cap_valid_def cap_next_def word_at_def)

lemma cap_walk_Ok_valid:
  assumes "cap_walk cfg (Suc n) visited off = Ok v"
  shows "cap_valid cfg off \<and> \<not> visited ! (unat off div 4)"
  using assms by (auto simp: Let_def cap_valid_def split: if_splits)

lemma cap_walk_found:
  "cap_walk cfg n visited off = Ok v \<Longrightarrow> length visited = 64 \<Longrightarrow>
     \<exists>k b. cap_iter cfg k off = Some b \<and> cap_found cfg b v"
proof (induction n arbitrary: visited off)
  case (Suc n)
  note V = cap_walk_Ok_valid [OF Suc.prems(1)]
  note S = Suc.prems(1) [unfolded cap_walk_step [OF conjunct1 [OF V] Suc.prems(2) conjunct2 [OF V]]]
  show ?case
  proof (cases "cfg ! unat off = PCI_CAP_ID_EXP")
    case True
    then have "cap_found cfg off v"
      using S V by (auto simp: cap_found_def split: if_splits)
    then show ?thesis by (intro exI [of _ 0] exI [of _ off]) simp
  next
    case False
    then obtain nxt where nxt: "cap_next cfg off = Some nxt"
      "cap_walk cfg n (visited[unat off div 4 := True]) nxt = Ok v"
      using S by (auto split: option.splits)
    then obtain k b where "cap_iter cfg k nxt = Some b" "cap_found cfg b v"
      using Suc.IH Suc.prems(2) by fastforce
    then have "cap_iter cfg (Suc k) off = Some b" using nxt(1) by simp
    with \<open>cap_found cfg b v\<close> show ?thesis by blast
  qed
qed simp

lemma cap_found_last: "cap_found cfg b v \<Longrightarrow> cap_next cfg b = None"
  by (simp add: cap_found_def cap_next_def)

text \<open>A walk that ends at the PCIe capability passes no offset twice.\<close>

lemma cap_iter_prefix:
  assumes "cap_iter cfg n a = Some b" "k \<le> n"
  obtains x where "cap_iter cfg k a = Some x" "cap_iter cfg (n - k) x = Some b"
  using assms cap_iter_add [of cfg k "n - k" a] by (cases "cap_iter cfg k a") auto

lemma cap_iter_distinct:
  assumes "cap_iter cfg n a = Some b" "cap_found cfg b v" "j < k" "k \<le> n"
  shows "cap_iter cfg j a \<noteq> cap_iter cfg k a"
proof
  assume eq: "cap_iter cfg j a = cap_iter cfg k a"
  obtain x where x: "cap_iter cfg k a = Some x" "cap_iter cfg (n - k) x = Some b"
    using cap_iter_prefix [OF assms(1,4)] .
  have "cap_iter cfg (j + (n - k)) a = Some b"
    using eq x by (simp add: cap_iter_add)
  moreover have "cap_iter cfg n a = Option.bind (cap_iter cfg (j + (n - k)) a) (cap_iter cfg (k - j))"
    using assms(3,4) cap_iter_add [of cfg "j + (n - k)" "k - j" a] by simp
  ultimately have "cap_iter cfg (k - j) b = Some b"
    using assms(1) by simp
  moreover obtain d where "k - j = Suc d"
    using assms(3) by (metis Suc_diff_Suc)
  ultimately show False
    using cap_found_last [OF assms(2)] by simp
qed

definition aligned4 :: "u8 \<Rightarrow> bool" where
  "aligned4 a \<longleftrightarrow> a = push_bit 2 (drop_bit 2 a)"

lemma aligned4_and_not_3: "aligned4 (x AND NOT 3)"
  unfolding aligned4_def and_not_3 by (rule bit_word_eqI) (auto simp: bit_simps)

lemma aligned4_and [simp]: "aligned4 (x AND - 4)"
  using aligned4_and_not_3 [of x] by simp

lemma cap_iter_aligned: "aligned4 a \<Longrightarrow> cap_iter cfg k a = Some x \<Longrightarrow> aligned4 x"
proof (induction k arbitrary: a)
  case (Suc k)
  then obtain nxt where nxt: "cap_next cfg a = Some nxt" "cap_iter cfg k nxt = Some x"
    by (auto simp: bind_eq_Some_conv)
  have "aligned4 nxt" using nxt(1) by (auto simp: cap_next_def split: if_splits)
  then show ?case using Suc.IH nxt(2) by blast
qed simp

lemma cap_iter_valid:
  assumes "cap_iter cfg n a = Some b" "cap_found cfg b v" "k \<le> n" "cap_iter cfg k a = Some x"
  shows "cap_valid cfg x"
proof (cases "k = n")
  case True
  then show ?thesis using assms by (simp add: cap_found_def)
next
  case False
  then obtain d where d: "n - k = Suc d" using assms(3) by (metis Suc_diff_Suc le_neq_implies_less)
  have "cap_iter cfg (n - k) x = Some b"
    using cap_iter_prefix [OF assms(1,3)] assms(4) by (metis option.inject)
  then show ?thesis
    using d by (auto simp: cap_next_def bind_eq_Some_conv split: if_splits)
qed

text \<open>The offsets of such a walk lie in 48 slots, so the round limit is never the reason to stop.\<close>

lemma cap_iter_short:
  assumes "cap_iter cfg n a = Some b" "cap_found cfg b v" "aligned4 a"
  shows "n < 48"
proof -
  let ?s = "\<lambda>k. unat (the (cap_iter cfg k a)) div 4"
  have def: "\<exists>x. cap_iter cfg k a = Some x \<and> aligned4 x \<and> cap_valid cfg x" if "k \<le> n" for k
    using cap_iter_prefix [OF assms(1) that] cap_iter_aligned [OF assms(3)]
      cap_iter_valid [OF assms(1,2) that] by metis
  have "inj_on ?s {0..n}"
  proof (rule linorder_inj_onI)
    fix j k assume jk: "j < k" "j \<in> {0..n}" "k \<in> {0..n}"
    obtain x y where xy: "cap_iter cfg j a = Some x" "cap_iter cfg k a = Some y" "aligned4 x" "aligned4 y"
      using def [of j] def [of k] jk by auto
    have "x \<noteq> y" using cap_iter_distinct [OF assms(1,2) jk(1)] jk(3) xy by simp
    then show "?s j \<noteq> ?s k" using aligned_slot_inj [of x y] xy by (auto simp: aligned4_def)
  qed auto
  moreover have "?s ` {0..n} \<subseteq> {16..<64}"
  proof
    fix t assume "t \<in> ?s ` {0..n}"
    then obtain k where k: "k \<le> n" "t = ?s k" by auto
    obtain x where "cap_iter cfg k a = Some x" "cap_valid cfg x" using def [OF k(1)] by blast
    then show "t \<in> {16..<64}" using k(2) slot_lt [of x] by (auto simp: cap_valid_def)
  qed
  ultimately have "card {0..n} \<le> card {16..<64::nat}"
    using card_inj_on_le [of ?s "{0..n}" "{16..<64}"] by simp
  then show ?thesis by simp
qed

lemma cap_walk_complete:
  assumes "cap_found cfg b v"
  shows "cap_iter cfg n a = Some b \<Longrightarrow> n < fuel \<Longrightarrow> length visited = 64 \<Longrightarrow> aligned4 a \<Longrightarrow>
    (\<And>k x. k \<le> n \<Longrightarrow> cap_iter cfg k a = Some x \<Longrightarrow> \<not> visited ! (unat x div 4)) \<Longrightarrow>
    cap_walk cfg fuel visited a = Ok v"
proof (induction n arbitrary: a fuel visited)
  case 0
  then obtain f where "fuel = Suc f" by (metis not0_implies_Suc less_irrefl)
  moreover have "\<not> visited ! (unat a div 4)" using "0.prems"(5) [of 0] by simp
  ultimately show ?case
    using cap_walk_step [of cfg a visited f] assms "0.prems" by (auto simp: cap_found_def)
next
  case (Suc n)
  obtain f where f: "fuel = Suc f" "n < f" using Suc.prems(2) by (metis Suc_lessE)
  obtain nxt where nxt: "cap_next cfg a = Some nxt" "cap_iter cfg n nxt = Some b"
    using Suc.prems(1) by (auto simp: bind_eq_Some_conv)
  have v: "cap_valid cfg a" "cfg ! unat a \<noteq> PCI_CAP_ID_EXP"
    using nxt(1) by (auto simp: cap_next_def split: if_splits)
  have a: "\<not> visited ! (unat a div 4)" using Suc.prems(5) [of 0] by simp
  have al: "aligned4 nxt" using nxt(1) by (auto simp: cap_next_def split: if_splits)
  have "cap_walk cfg f (visited[unat a div 4 := True]) nxt = Ok v"
  proof (rule Suc.IH [OF nxt(2) f(2) _ al])
    fix k x assume k: "k \<le> n" "cap_iter cfg k nxt = Some x"
    then have x: "cap_iter cfg (Suc k) a = Some x" using nxt(1) by simp
    have "cap_iter cfg 0 a \<noteq> cap_iter cfg (Suc k) a"
      using cap_iter_distinct [OF Suc.prems(1) assms, of 0 "Suc k"] k(1) by blast
    then have "x \<noteq> a" using x by simp
    then have "unat x div 4 \<noteq> unat a div 4"
      using aligned_slot_inj cap_iter_aligned [OF al k(2)] Suc.prems(4) unfolding aligned4_def by blast
    then show "\<not> visited[unat a div 4 := True] ! (unat x div 4)"
      using Suc.prems(5) [OF _ x] k(1) by simp
  qed (use Suc.prems(3) in simp)
  then show ?case
    using cap_walk_step [OF v(1) Suc.prems(3) a, of f] v(2) nxt(1) f(1) by simp
qed

lemma cap_walk_iff:
  assumes "aligned4 a"
  shows "cap_walk cfg 48 (replicate 64 False) a = Ok v \<longleftrightarrow>
    (\<exists>n b. cap_iter cfg n a = Some b \<and> cap_found cfg b v)"
proof
  assume "\<exists>n b. cap_iter cfg n a = Some b \<and> cap_found cfg b v"
  then obtain n b where nb: "cap_iter cfg n a = Some b" "cap_found cfg b v" by blast
  show "cap_walk cfg 48 (replicate 64 False) a = Ok v"
    by (rule cap_walk_complete [OF nb(2,1) cap_iter_short [OF nb assms] _ assms])
      (use slot_lt in simp_all)
qed (use cap_walk_found in force)

lemma cap_walk_safe: "length visited = 64 \<Longrightarrow> safe (cap_walk cfg n visited off)"
proof (induction n arbitrary: visited off)
  case (Suc n)
  show ?case
  proof (cases "cap_valid cfg off \<and> \<not> visited ! (unat off div 4)")
    case True
    then show ?thesis
      using cap_walk_step [of cfg off visited n] Suc by (auto split: option.splits)
  next
    case False
    then show ?thesis
      using Suc.prems slot_lt [of off] by (auto simp: cap_valid_def index_def Let_def)
  qed
qed simp

section \<open>What the image parsers accept\<close>

text \<open>Running an iterator until it ends, within a number of calls: \<open>None\<close> when it has not ended.\<close>

fun drain :: "nat \<Rightarrow> ('s, 'e, 'a option) op \<Rightarrow> 's \<Rightarrow> ('e, 'a list) res option" where
  "drain 0 nxt s = None"
| "drain (Suc n) nxt s =
     (case nxt s of
        (Ok None, _) \<Rightarrow> Some (Ok [])
      | (Ok (Some x), s') \<Rightarrow> map_option (\<lambda>r. and_then r (\<lambda>xs. Ok (x # xs))) (drain n nxt s')
      | (Err e, _) \<Rightarrow> Some (Err e)
      | (Panic, _) \<Rightarrow> Some Panic)"

lemma field_eq:
  assumes "off + 4 \<le> length bs"
  shows "be_field off bs = Ok (from_be (take 4 (drop off bs)))"
    and "le_field off bs = Ok (from_le (take 4 (drop off bs)))"
  using assms by (simp_all add: be_field_def le_field_def slice_def be_u32_def le_u32_def)

lemma check_each_Ok: "check_each f is = Ok () \<longleftrightarrow> (\<forall>i\<in>set is. f i = Ok ())"
  by (induction "is") auto

lemma check_each_safe: "(\<And>i. i \<in> set is \<Longrightarrow> safe (f i)) \<Longrightarrow> safe (check_each f is)"
  by (induction "is") (auto intro: safe_intros)

definition patch_word :: "bytes \<Rightarrow> nat \<Rightarrow> nat \<Rightarrow> u32" where
  "patch_word bytes i off = from_be (take 4 (drop off (take 64 (drop (96 + i * 64) bytes))))"

definition patch_section_at :: "bytes \<Rightarrow> nat \<Rightarrow> patch_section" where
  "patch_section_at bytes i =
     \<lparr>ps_address = patch_word bytes i 12, ps_security_info = patch_word bytes i 20,
      ps_payload = take (unat (patch_word bytes i 16)) (drop (unat (patch_word bytes i 4)) bytes)\<rparr>"

lemma section_reads:
  assumes "96 + i * 64 + 64 \<le> length bytes"
  shows "patch_section_bytes bytes i = Ok (take 64 (drop (96 + i * 64) bytes))"
    and "off + 4 \<le> 64 \<Longrightarrow> be_field off (take 64 (drop (96 + i * 64) bytes)) = Ok (patch_word bytes i off)"
  using assms by (simp_all add: patch_section_bytes_def PATCH_HEADER_LEN_def PATCH_SECTION_LEN_def
      slice_def patch_word_def field_eq)

lemma check_section_eq:
  assumes "96 + i * 64 + 64 \<le> length bytes"
  shows "safe (check_section bytes table_len i)"
    and "check_section bytes table_len i = Ok () \<longleftrightarrow>
      patch_word bytes i 0 AND 0xffff = 2 \<and> table_len \<le> unat (patch_word bytes i 4) \<and>
      unat (patch_word bytes i 4) + unat (patch_word bytes i 16) \<le> USIZE_MAX \<and>
      unat (patch_word bytes i 4) + unat (patch_word bytes i 16) \<le> length bytes"
  by (auto simp: check_section_def checked_add_def section_reads [OF assms] split: if_splits)

lemma patch_drain:
  assumes "\<And>j. j < unat (pt_region_count p) \<Longrightarrow> 96 + j * 64 + 64 \<le> length (pt_bytes p)
      \<and> unat (patch_word (pt_bytes p) j 4) + unat (patch_word (pt_bytes p) j 16) \<le> length (pt_bytes p)"
  shows "i + k = unat (pt_region_count p) \<Longrightarrow>
    drain (Suc k) patch_next (p, i) = Some (Ok (map (patch_section_at (pt_bytes p)) [i..<i + k]))"
proof (induction k arbitrary: i)
  case 0
  then show ?case by (simp add: patch_next_def)
next
  case (Suc k)
  then have i: "i < unat (pt_region_count p)" by simp
  then have "patch_next (p, i) = (Ok (Some (patch_section_at (pt_bytes p) i)), (p, Suc i))"
    using assms [OF i]
    by (simp add: patch_next_def patch_section_at_def slice_def section_reads [OF conjunct1 [OF assms [OF i]]])
  moreover have "[i..<i + Suc k] = i # [Suc i..<Suc i + k]"
    by (simp add: upt_conv_Cons del: upt_Suc)
  ultimately show ?case
    using Suc.IH [of "Suc i"] Suc.prems
    by (simp del: drain.simps upt_Suc add: drain.simps(2) [of "Suc k"])
qed

lemma parse_patch_header_safe: "length header = 96 \<Longrightarrow> \<exists>h. parse_patch_header header = Ok h"
  by (simp add: parse_patch_header_def slice_def field_eq)

lemma patch_parse_cases:
  "safe (patch_parse bytes) \<and> (\<forall>p. patch_parse bytes = Ok p \<longrightarrow>
     pt_bytes p = bytes \<and> 96 + unat (pt_region_count p) * 64 \<le> length bytes \<and>
     (\<forall>i < unat (pt_region_count p). check_section bytes (96 + unat (pt_region_count p) * 64) i = Ok ()))"
proof (cases "96 \<le> length bytes")
  case False
  then show ?thesis by (simp add: patch_parse_def slice_get_def PATCH_HEADER_LEN_def)
next
  case True
  let ?h = "take 96 bytes"
  let ?n = "from_be (take 4 (drop 44 ?h)) :: u32"
  let ?t = "96 + unat ?n * 64"
  obtain hd where hd: "parse_patch_header ?h = Ok hd"
    using parse_patch_header_safe [of ?h] True by auto
  have head: "slice_get 0 96 bytes = Some ?h" "be_field 44 ?h = Ok ?n"
    using True by (simp_all add: slice_get_def field_eq)
  have bind: "Option.bind (checked_mul (unat ?n) 64) (checked_add 96) = (if ?t \<le> USIZE_MAX then Some ?t else None)"
    by (auto simp: checked_mul_def checked_add_def)
  have row: "96 + i * 64 + 64 \<le> length bytes" if "?t \<le> length bytes" "i < unat ?n" for i
    using that by linarith
  have "safe (check_each (check_section bytes ?t) [0..<unat ?n])" if "?t \<le> length bytes"
    by (rule check_each_safe) (use that row check_section_eq(1) in auto)
  then show ?thesis
    using hd check_each_Ok [of "check_section bytes ?t" "[0..<unat ?n]"]
    by (auto simp: patch_parse_def PATCH_HEADER_LEN_def PATCH_SECTION_LEN_def head bind not_less
        intro!: safe_intros split: if_splits)
qed

definition region_word :: "firmware \<Rightarrow> nat \<Rightarrow> nat \<Rightarrow> u32" where
  "region_word f i off = from_le (take 4 (drop off (take 40 (drop (fw_metadata_start f + i * 40) (fw_bytes f)))))"

lemma region_reads:
  assumes "fw_metadata_start f + i * 40 + 40 \<le> length (fw_bytes f)"
  shows "region_record f i = Ok (take 40 (drop (fw_metadata_start f + i * 40) (fw_bytes f)))"
    and "off + 4 \<le> 40 \<Longrightarrow> le_field off (take 40 (drop (fw_metadata_start f + i * 40) (fw_bytes f)))
      = Ok (region_word f i off)"
  using assms by (simp_all add: region_record_def FW_REGION_LEN_def slice_def region_word_def field_eq)

definition region_rows :: "firmware \<Rightarrow> nat \<Rightarrow> bool" where
  "region_rows f n \<longleftrightarrow> fw_metadata_start f + n * 40 \<le> length (fw_bytes f)"

lemma region_rowsD: "region_rows f n \<Longrightarrow> i < n \<Longrightarrow> fw_metadata_start f + i * 40 + 40 \<le> length (fw_bytes f)"
  unfolding region_rows_def by linarith

lemma check_regions_Cons:
  assumes "region_rows f n" "i < n"
  shows "check_regions f (i # is) pe =
    (if pe + unat (region_word f i 20) > USIZE_MAX then Err PayloadLengthOverflow
     else if pe + unat (region_word f i 20) > fw_metadata_start f then Err PayloadOverlapsMetadata
     else check_regions f is (pe + unat (region_word f i 20)))"
  by (simp add: region_reads [OF region_rowsD [OF assms]] checked_add_def)

lemma check_regions_safe:
  "region_rows f n \<Longrightarrow> set is \<subseteq> {..<n} \<Longrightarrow> safe (check_regions f is pe)"
proof (induction "is" arbitrary: pe)
  case (Cons i "is")
  then show ?case using check_regions_Cons [of f n i "is" pe] by (auto simp del: check_regions.simps)
qed simp

lemma firmware_drain:
  assumes "region_rows f (unat (fw_region_count f))"
  shows "i + k = unat (fw_region_count f) \<Longrightarrow> check_regions f [i..<i + k] po = Ok () \<Longrightarrow>
    po \<le> fw_metadata_start f \<Longrightarrow>
    \<exists>rs. drain (Suc k) firmware_next (f, i, po) = Some (Ok rs) \<and> length rs = k \<and>
      (\<exists>n. po + n \<le> fw_metadata_start f \<and> concat (map fr_payload rs) = take n (drop po (fw_bytes f)))"
proof (induction k arbitrary: i po)
  case 0
  then show ?case by (intro exI [of _ "[]"]) (auto simp: firmware_next_def intro: exI [of _ 0])
next
  case (Suc k)
  then have i: "i < unat (fw_region_count f)" by simp
  note row = region_rowsD [OF assms i]
  let ?l = "unat (region_word f i 20)"
  have split: "[i..<i + Suc k] = i # [Suc i..<Suc i + k]" by (simp add: upt_conv_Cons del: upt_Suc)
  have c: "po + ?l \<le> fw_metadata_start f" "check_regions f [Suc i..<Suc i + k] (po + ?l) = Ok ()"
    using Suc.prems(2) unfolding split check_regions_Cons [OF assms i] by (auto split: if_splits)
  obtain r where r: "firmware_next (f, i, po) = (Ok (Some r), (f, Suc i, po + ?l))"
    "fr_payload r = take ?l (drop po (fw_bytes f))"
    using i row c(1) by (auto simp: firmware_next_def region_reads [OF row] slice_def index_def)
  obtain rs n where rs: "drain (Suc k) firmware_next (f, Suc i, po + ?l) = Some (Ok rs)" "length rs = k"
    "po + ?l + n \<le> fw_metadata_start f" "concat (map fr_payload rs) = take n (drop (po + ?l) (fw_bytes f))"
    using Suc.IH [OF _ c(2,1)] Suc.prems(1) by auto
  have "drain (Suc (Suc k)) firmware_next (f, i, po) = Some (Ok (r # rs))"
    using r(1) rs(1) by (simp del: drain.simps add: drain.simps(2) [of "Suc k"])
  moreover have "concat (map fr_payload (r # rs)) = take (?l + n) (drop po (fw_bytes f))"
    using r(2) rs(4) by (simp add: take_add add.commute [of _ po])
  ultimately show ?case
    using rs(2,3) by (intro exI [of _ "r # rs"]) (auto simp: add.assoc intro!: exI [of _ "?l + n"])
qed

lemma parse_firmware_trailer_safe: "length tr = 36 \<Longrightarrow> \<exists>t. parse_firmware_trailer tr = Ok t"
  by (simp add: parse_firmware_trailer_def slice_def index_def field_eq)

lemma firmware_parse_cases:
  "safe (firmware_parse bytes) \<and> (\<forall>f. firmware_parse bytes = Ok f \<longrightarrow>
     fw_bytes f = bytes \<and> fw_metadata_start f + unat (fw_region_count f) * 40 + 36 = length bytes \<and>
     check_regions f [0..<unat (fw_region_count f)] 0 = Ok ())"
proof (cases "36 \<le> length bytes")
  case False
  then show ?thesis by (simp add: firmware_parse_def checked_sub_def FW_TRAILER_LEN_def)
next
  case True
  let ?s = "length bytes - 36" and ?tr = "drop (length bytes - 36) bytes"
  let ?n = "unat (?tr ! 2)"
  obtain t where t: "parse_firmware_trailer ?tr = Ok t"
    using parse_firmware_trailer_safe [of ?tr] True by auto
  let ?f = "\<lparr>fw_bytes = bytes, fw_metadata_start = ?s - ?n * 40, fw_region_count = ?tr ! 2, fw_trailer = t\<rparr>"
  have "region_rows ?f ?n" if "?n * 40 \<le> ?s"
    using that True by (simp add: region_rows_def)
  then have "safe (check_regions ?f [0..<?n] 0)" if "?n * 40 \<le> ?s"
    using check_regions_safe [of ?f ?n "[0..<?n]" 0] that by (simp add: lessThan_atLeast0)
  then show ?thesis
    using True t
    by (auto simp: firmware_parse_def FW_TRAILER_LEN_def FW_REGION_LEN_def checked_sub_def checked_mul_def
        slice_def index_def Let_def intro!: safe_intros split: if_splits)
qed

section \<open>Guarantees\<close>

text \<open>C25: the search for Link Control is exact. It never panics on any configuration space, and it
  returns a word exactly when the list is announced and following the links from its head
  reaches an in-bounds PCIe capability with room for the register: neither the visited table
  nor the limit of 48 rounds rejects a capability that can be reached, and a cyclic list ends.\<close>

theorem pcie_link_control_exact:
  "safe (pcie_link_control cfg) \<and>
   (pcie_link_control cfg = Ok v \<longleftrightarrow>
      0x34 < length cfg \<and> from_le [cfg ! 6, cfg ! 7] AND PCI_STATUS_CAP_LIST \<noteq> 0 \<and>
      (\<exists>n b. cap_iter cfg n (cfg ! 0x34 AND NOT 3) = Some b \<and> cap_found cfg b v))"
proof -
  let ?a = "cfg ! 0x34 AND NOT 3"
  have zero: "\<not> (\<exists>n b. cap_iter cfg n 0 = Some b \<and> cap_found cfg b v)"
  proof
    assume "\<exists>n b. cap_iter cfg n 0 = Some b \<and> cap_found cfg b v"
    then obtain n b where "cap_iter cfg n 0 = Some b" "cap_found cfg b v" by blast
    then show False
      by (cases n) (auto simp: cap_found_def cap_valid_def cap_next_def)
  qed
  have "safe (cap_walk cfg 48 (replicate 64 False) ?a)"
    by (rule cap_walk_safe) simp
  then have 1: "safe (pcie_link_control cfg)"
    by (auto simp: pcie_link_control_def PCI_CAPABILITY_LIST_def PCI_STATUS_def word_at_def index_def not_le)
  have 2: "pcie_link_control cfg = Ok v \<longleftrightarrow>
      0x34 < length cfg \<and> from_le [cfg ! 6, cfg ! 7] AND PCI_STATUS_CAP_LIST \<noteq> 0 \<and> ?a \<noteq> 0 \<and>
      cap_walk cfg 48 (replicate 64 False) ?a = Ok v"
    by (auto simp: pcie_link_control_def PCI_CAPABILITY_LIST_def PCI_STATUS_def word_at_def index_def not_le
        simp del: from_le.simps split: if_splits)
  show ?thesis
    using 1 2 zero cap_walk_iff [OF aligned4_and_not_3, of cfg "cfg ! 0x34" v] by (cases "?a = 0") auto
qed

text \<open>C26: validating a patch image is enough. Parsing never panics, and for an accepted image the
  section iterator ends after exactly the announced number of sections without a panic; every
  payload is a window of the image behind the section table.\<close>

theorem patch_sections_total:
  "safe (patch_parse bytes) \<and>
   (\<forall>p. patch_parse bytes = Ok p \<longrightarrow>
     (\<exists>ss. drain (Suc (unat (pt_region_count p))) patch_next (p, 0) = Some (Ok ss) \<and>
        length ss = unat (pt_region_count p) \<and>
        (\<forall>s\<in>set ss. \<exists>off len. 96 + unat (pt_region_count p) * 64 \<le> off \<and> off + len \<le> length bytes \<and>
           ps_payload s = take len (drop off bytes))))"
proof -
  have "\<exists>ss. drain (Suc (unat (pt_region_count p))) patch_next (p, 0) = Some (Ok ss) \<and>
        length ss = unat (pt_region_count p) \<and>
        (\<forall>s\<in>set ss. \<exists>off len. 96 + unat (pt_region_count p) * 64 \<le> off \<and> off + len \<le> length bytes \<and>
           ps_payload s = take len (drop off bytes))"
    if p: "patch_parse bytes = Ok p" for p
  proof -
    let ?n = "unat (pt_region_count p)"
    have b: "pt_bytes p = bytes" "96 + ?n * 64 \<le> length bytes"
      and c: "\<And>i. i < ?n \<Longrightarrow> check_section bytes (96 + ?n * 64) i = Ok ()"
      using patch_parse_cases [of bytes] p by blast+
    have row: "96 + i * 64 + 64 \<le> length bytes" if "i < ?n" for i using that b(2) by linarith
    have sec: "96 + ?n * 64 \<le> unat (patch_word bytes i 4) \<and>
        unat (patch_word bytes i 4) + unat (patch_word bytes i 16) \<le> length bytes" if "i < ?n" for i
      using c [OF that] check_section_eq(2) [OF row [OF that]] by blast
    have "drain (Suc ?n) patch_next (p, 0) = Some (Ok (map (patch_section_at bytes) [0..<0 + ?n]))"
      using patch_drain [of p 0 ?n] row sec b(1) by simp
    moreover have "\<exists>off len. 96 + ?n * 64 \<le> off \<and> off + len \<le> length bytes \<and>
        ps_payload (patch_section_at bytes i) = take len (drop off bytes)" if "i < ?n" for i
      using sec [OF that] unfolding patch_section_at_def patch_section.simps by blast
    ultimately show ?thesis
      by (intro exI [of _ "map (patch_section_at bytes) [0..<0 + ?n]"]) (simp del: drain.simps)
  qed
  with patch_parse_cases [of bytes] show ?thesis by blast
qed

lemmas mt76_eval =
  PATCH_HEADER_LEN_def PATCH_SECTION_LEN_def FW_TRAILER_LEN_def FW_REGION_LEN_def USIZE_MAX_def
  slice_def slice_get_def index_def be_field_def le_field_def be_u32_def le_u32_def from_be_def
  checked_add_def checked_mul_def checked_sub_def

definition sample_patch :: bytes where
  "sample_patch = replicate 44 0 @ [0, 0, 0, 1] @ replicate 48 0 @
     [0, 0, 0, 2] @ [0, 0, 0, 160] @ replicate 8 0 @ [0, 0, 0, 2] @ replicate 44 0 @ [0xaa, 0xbb]"

theorem patch_sections_total_witness:
  "\<exists>p ss. patch_parse sample_patch = Ok p \<and> drain 2 patch_next (p, 0) = Some (Ok ss) \<and> length ss = 1"
proof -
  have "\<exists>p. patch_parse sample_patch = Ok p \<and> pt_region_count p = 1"
    by (simp add: patch_parse_def sample_patch_def parse_patch_header_def check_section_def
        patch_section_bytes_def mt76_eval)
  then obtain p where p: "patch_parse sample_patch = Ok p" "pt_region_count p = 1" by blast
  from patch_sections_total [of sample_patch] p(1) obtain ss where
    "drain (Suc (unat (pt_region_count p))) patch_next (p, 0) = Some (Ok ss)"
    "length ss = unat (pt_region_count p)" by blast
  with p show ?thesis by (auto simp: numeral_2_eq_2 simp del: drain.simps)
qed

text \<open>C27: validating a firmware image is enough. Parsing never panics, and for an accepted image
  the region iterator ends after exactly the announced number of regions without a panic; the
  payloads laid end to end are a prefix of the image that does not reach the region table.\<close>

theorem firmware_regions_total:
  "safe (firmware_parse bytes) \<and>
   (\<forall>f. firmware_parse bytes = Ok f \<longrightarrow>
     (\<exists>rs n. drain (Suc (unat (fw_region_count f))) firmware_next (f, 0, 0) = Some (Ok rs) \<and>
        length rs = unat (fw_region_count f) \<and> n \<le> fw_metadata_start f \<and>
        concat (map fr_payload rs) = take n bytes))"
proof -
  have "\<exists>rs n. drain (Suc (unat (fw_region_count f))) firmware_next (f, 0, 0) = Some (Ok rs) \<and>
        length rs = unat (fw_region_count f) \<and> n \<le> fw_metadata_start f \<and>
        concat (map fr_payload rs) = take n bytes"
    if f: "firmware_parse bytes = Ok f" for f
  proof -
    let ?n = "unat (fw_region_count f)"
    have b: "fw_bytes f = bytes" "fw_metadata_start f + ?n * 40 + 36 = length bytes"
      and c: "check_regions f [0..<0 + ?n] 0 = Ok ()"
      using firmware_parse_cases [of bytes] f by auto
    have rows: "region_rows f ?n"
      using b by (simp add: region_rows_def)
    from firmware_drain [OF rows _ c] b(1) show ?thesis by fastforce
  qed
  with firmware_parse_cases [of bytes] show ?thesis by blast
qed

definition sample_firmware :: bytes where
  "sample_firmware = [1, 2, 3, 4] @ (replicate 20 0 @ [4, 0, 0, 0] @ replicate 16 0) @ ([0, 0, 1] @ replicate 33 0)"

theorem firmware_regions_total_witness:
  "\<exists>f rs. firmware_parse sample_firmware = Ok f \<and> drain 2 firmware_next (f, 0, 0) = Some (Ok rs) \<and> length rs = 1"
proof -
  have "\<exists>f. firmware_parse sample_firmware = Ok f \<and> fw_region_count f = 1"
    by (simp add: firmware_parse_def sample_firmware_def parse_firmware_trailer_def region_record_def
        mt76_eval)
  then obtain f where f: "firmware_parse sample_firmware = Ok f" "fw_region_count f = 1" by blast
  from firmware_regions_total [of sample_firmware] f(1) obtain rs where
    "drain (Suc (unat (fw_region_count f))) firmware_next (f, 0, 0) = Some (Ok rs)"
    "length rs = unat (fw_region_count f)" by blast
  with f show ?thesis by (auto simp: numeral_2_eq_2 simp del: drain.simps)
qed

section \<open>Descriptors\<close>

lemma bit_below:
  assumes "drop_bit k (a :: 'w::len word) = 0" "bit a n"
  shows "n < k"
proof (rule ccontr)
  assume "\<not> n < k"
  then have "bit (drop_bit k a) (n - k)" using assms(2) by (simp add: bit_drop_bit_eq)
  with assms(1) show False by simp
qed

lemma bit_shifted_one: "bit (push_bit k 1 :: 'w::len word) n \<longleftrightarrow> n = k \<and> n < LENGTH('w)"
  unfolding bit_push_bit_iff bit_1_iff by auto

lemma mask_bits:
  "bit (0x0f :: int) n \<longleftrightarrow> n < 4" "bit (0x3fff :: int) n \<longleftrightarrow> n < 14"
  "bit (0x000f000f :: int) n \<longleftrightarrow> n < 4 \<or> 16 \<le> n \<and> n < 20"
  "bit (0x000f0000 :: int) n \<longleftrightarrow> 16 \<le> n \<and> n < 20"
proof -
  have m: "(0x0f :: int) = mask 4" "(0x3fff :: int) = mask 14"
    "(0x000f000f :: int) = mask 4 OR push_bit 16 (mask 4)" "(0x000f0000 :: int) = push_bit 16 (mask 4)"
    by (simp_all add: mask_eq_exp_minus_1)
  show "bit (0x0f :: int) n \<longleftrightarrow> n < 4" "bit (0x3fff :: int) n \<longleftrightarrow> n < 14"
    "bit (0x000f000f :: int) n \<longleftrightarrow> n < 4 \<or> 16 \<le> n \<and> n < 20"
    "bit (0x000f0000 :: int) n \<longleftrightarrow> 16 \<le> n \<and> n < 20"
    unfolding m by (auto simp: bit_mask_iff bit_or_iff bit_push_bit_iff)
qed

lemma segment_len_bits:
  assumes "(l :: u16) \<le> 0x3fff" "bit l n"
  shows "n < 14"
proof -
  have "unat l < 2 ^ 14" using assms(1) by (simp add: word_le_nat_alt)
  then have "drop_bit 14 l = 0" by (simp add: drop_bit_eq_div word_unat_eq_iff unat_div)
  then show ?thesis using bit_below assms(2) by blast
qed

text \<open>How the device reads a descriptor word pair.\<close>

definition wire_address :: "u32 \<Rightarrow> u32 \<Rightarrow> u64" where
  "wire_address low high = ucast low OR push_bit 32 (ucast (high AND 0x0f))"

lemma wire_address_eq:
  assumes "drop_bit 36 a = 0"
    "\<And>n. n < 4 \<Longrightarrow> bit high n = bit a (n + 32)"
  shows "wire_address (ucast a) high = a"
proof (rule bit_word_eqI)
  fix n assume "n < LENGTH(64)"
  then show "bit (wire_address (ucast a) high) n = bit a n"
    using bit_below [OF assms(1), of n] assms(2) [of "n - 32"]
    by (auto simp: wire_address_def bit_simps mask_bits not_less)
qed

lemma wire_length_eq:
  assumes "l \<le> 0x3fff" "\<And>n. n < 14 \<Longrightarrow> bit (x :: u32) n = bit l n"
  shows "ucast (x AND 0x3fff) = (l :: u16)"
proof (rule bit_word_eqI)
  fix n assume "n < LENGTH(16)"
  then show "bit (ucast (x AND 0x3fff) :: u16) n = bit l n"
    using segment_len_bits [OF assms(1), of n] assms(2) [of n] by (auto simp: bit_simps mask_bits)
qed

lemma is_dma_done_bit: "is_dma_done d \<longleftrightarrow> bit (de_ctrl d) 31"
  unfolding is_dma_done_def DMA_CTL_DMA_DONE_def by (simp only: bit_iff_and_push_bit_not_eq_0)

lemma validate_segment_Ok:
  "validate_segment s = Ok () \<longleftrightarrow> drop_bit 36 (fst s) = 0 \<and> snd s \<le> 0x3fff"
  by (auto simp: validate_segment_def DMA_MAX_SEGMENT_LEN_def)

text \<open>The bits of the control and information words.\<close>

lemma tx_words:
  assumes "descriptor_tx (a, l) second info = Ok d" "info AND 0x000f000f = 0"
  shows "de_buf0 d = ucast a" "drop_bit 36 a = 0" "l \<le> 0x3fff"
    "\<And>n. n < 4 \<Longrightarrow> bit (de_info d) n = bit a (n + 32)"
    "\<And>n. n < 14 \<Longrightarrow> bit (de_ctrl d) (n + 16) = bit l n"
    "\<not> bit (de_ctrl d) 31"
    "\<And>n. n < 32 \<Longrightarrow> \<not> (n < 4 \<or> 16 \<le> n \<and> n < 20) \<Longrightarrow> bit (de_info d) n = bit info n"
    "bit (de_ctrl d) 30 = (second = None)" "bit (de_ctrl d) 14 = (second \<noteq> None)"
proof -
  show v: "drop_bit 36 a = 0" "l \<le> 0x3fff"
    using assms(1) by (auto simp: descriptor_tx_def validate_segment_Ok)
  have s: "drop_bit 36 (fst x) = 0" "snd x \<le> 0x3fff" if "second = Some x" for x
    using assms(1) that by (auto simp: descriptor_tx_def validate_segment_Ok)
  have clear: "\<not> bit info n" if "n < 4 \<or> 16 \<le> n \<and> n < 20" for n
  proof -
    have "\<not> bit (info AND 0x000f000f) n" using assms(2) by simp
    then show ?thesis using that by (auto simp: bit_simps mask_bits)
  qed
  note L = segment_len_bits [OF v(2)]
  have S: "n < 14" if "second = Some x" "bit (snd x) n" for x n
    using segment_len_bits [OF s(2)] that by blast
  have d: "d = (case second of
          Some segment \<Rightarrow>
            \<lparr>de_buf0 = ucast a, de_ctrl = push_bit 16 (ucast l) OR (ucast (snd segment) OR push_bit 14 1),
             de_buf1 = ucast (fst segment),
             de_info = info OR (ucast (drop_bit 32 a) AND 0x0f)
               OR push_bit 16 (ucast (drop_bit 32 (fst segment)) AND 0x0f)\<rparr>
        | None \<Rightarrow>
            \<lparr>de_buf0 = ucast a, de_ctrl = push_bit 16 (ucast l) OR push_bit 30 1, de_buf1 = 0,
             de_info = info OR (ucast (drop_bit 32 a) AND 0x0f)\<rparr>)"
    using assms(1) by (cases second) (auto simp: descriptor_tx_def Let_def DMA_CTL_SD_LEN0_SHIFT_def
        DMA_CTL_LAST_SEC0_def DMA_CTL_LAST_SEC1_def or.assoc)
  show "de_buf0 d = ucast a" by (simp add: d split: option.splits)
  note one = bit_shifted_one
  have info: "bit (de_info d) n \<longleftrightarrow> bit info n \<or> n < 4 \<and> bit a (n + 32) \<or>
      16 \<le> n \<and> n < 20 \<and> (\<exists>x. second = Some x \<and> bit (fst x) (n + 16))" if "n < 32" for n
    using that by (auto simp: d bit_simps mask_bits add.commute split: option.splits)
  have ctrl: "bit (de_ctrl d) n \<longleftrightarrow> 16 \<le> n \<and> bit l (n - 16) \<or>
      (case second of None \<Rightarrow> n = 30 | Some x \<Rightarrow> bit (snd x) n \<or> n = 14)" if "n < 32" for n
    using that by (cases second) (auto simp: d bit_or_iff one bit_simps simp del: push_bit_of_1)
  show "\<And>n. n < 4 \<Longrightarrow> bit (de_info d) n = bit a (n + 32)"
    using info clear by auto
  show "\<And>n. n < 32 \<Longrightarrow> \<not> (n < 4 \<or> 16 \<le> n \<and> n < 20) \<Longrightarrow> bit (de_info d) n = bit info n"
    using info by auto
  have no: "\<not> bit l 15" "\<not> bit l 14" using L [of 15] L [of 14] by auto
  show "\<not> bit (de_ctrl d) 31" "bit (de_ctrl d) 30 = (second = None)" "bit (de_ctrl d) 14 = (second \<noteq> None)"
    using ctrl [of 31] ctrl [of 30] ctrl [of 14] no S [of _ 31] S [of _ 30] by (cases second; auto)+
  show "bit (de_ctrl d) (n + 16) = bit l n" if "n < 14" for n
    using ctrl [of "n + 16"] that S [of _ "n + 16"] by (cases second) auto
qed

lemma tx_second:
  assumes "descriptor_tx first (Some (a, l)) info = Ok d" "info AND 0x000f000f = 0"
  shows "wire_address (de_buf1 d) (drop_bit 16 (de_info d)) = a \<and> ucast (de_ctrl d AND 0x3fff) = l"
proof -
  have v: "drop_bit 36 a = 0" "l \<le> 0x3fff"
    using assms(1) by (auto simp: descriptor_tx_def validate_segment_Ok)
  have clear: "\<not> bit info n" if "16 \<le> n" "n < 20" for n
  proof -
    have "\<not> bit (info AND 0x000f000f) n" using assms(2) by simp
    then show ?thesis using that by (auto simp: bit_simps mask_bits)
  qed
  have d: "de_buf1 d = ucast a"
    "de_ctrl d = push_bit 16 (ucast (snd first)) OR (ucast l OR push_bit 14 1)"
    "de_info d = info OR (ucast (drop_bit 32 (fst first)) AND 0x0f) OR push_bit 16 (ucast (drop_bit 32 a) AND 0x0f)"
    using assms(1) by (auto simp: descriptor_tx_def Let_def DMA_CTL_SD_LEN0_SHIFT_def DMA_CTL_LAST_SEC1_def or.assoc)
  have "bit (drop_bit 16 (de_info d)) n = bit a (n + 32)" if "n < 4" for n
    using that clear [of "n + 16"] by (auto simp: d bit_simps mask_bits add.commute)
  from wire_address_eq [OF v(1) this] have "wire_address (de_buf1 d) (drop_bit 16 (de_info d)) = a"
    by (simp add: d(1))
  moreover have "bit (de_ctrl d) n = bit l n" if "n < 14" for n
    using that unfolding d(2) bit_or_iff bit_shifted_one by (auto simp: bit_simps)
  ultimately show ?thesis using wire_length_eq [OF v(2)] by blast
qed

lemma descriptor_words:
  "map from_le [take 4 (descriptor_to_le_bytes d), take 4 (drop 4 (descriptor_to_le_bytes d)),
      take 4 (drop 8 (descriptor_to_le_bytes d)), drop 12 (descriptor_to_le_bytes d)]
      = [de_buf0 d, de_ctrl d, de_buf1 d, de_info d]"
  by (simp add: descriptor_to_le_bytes_def from_le_le_bytes del: le_bytes.simps)



end
