(* ===== verification/Wfdma_Ring.thy ===== *)
theory Wfdma_Ring
  imports Mt76_Core Srng
begin

text \<open>
  The MT7921 transmit ring (\<open>crates/wifi/drivers/mt7921/mt7921-core/src/lib.rs\<close>, \<open>WfdmaRing\<close>):
  descriptors under the device's 32-bit DMA mask, allocation, enqueueing, completion and in-order
  reclaim. The allocator and the publisher are traits in the source, so they are records of
  operations here.
\<close>

section \<open>Descriptors under the 32-bit mask\<close>

record dma_segment =
  sg_iova :: u64
  sg_len :: u16

datatype mt7921_descriptor_error = IovaAbove32Bits | Mt7921SegmentTooLong | InvalidArena

definition map_descriptor_error :: "descriptor_error \<Rightarrow> mt7921_descriptor_error" where
  "map_descriptor_error e =
     (case e of AddressAbove36Bits \<Rightarrow> IovaAbove32Bits | SegmentTooLong \<Rightarrow> Mt7921SegmentTooLong)"

definition validate_mt7921_segment :: "dma_segment \<Rightarrow> (mt7921_descriptor_error, unit) res" where
  "validate_mt7921_segment segment =
     (if sg_iova segment > 0xffffffff then Err IovaAbove32Bits
      else if sg_len segment > 0x3fff then Err Mt7921SegmentTooLong
      else Ok ())"

definition map_err :: "('e \<Rightarrow> 'f) \<Rightarrow> ('e, 'a) res \<Rightarrow> ('f, 'a) res" where
  "map_err f r = (case r of Ok x \<Rightarrow> Ok x | Err e \<Rightarrow> Err (f e) | Panic \<Rightarrow> Panic)"

definition mt7921_dma_tx ::
  "dma_segment \<Rightarrow> dma_segment option \<Rightarrow> u32 \<Rightarrow> (mt7921_descriptor_error, dma_descriptor) res" where
  "mt7921_dma_tx first second info =
     and_then (validate_mt7921_segment first) (\<lambda>_.
     and_then (case second of Some segment \<Rightarrow> validate_mt7921_segment segment | None \<Rightarrow> Ok ()) (\<lambda>_.
       map_err map_descriptor_error
         (descriptor_tx (sg_iova first, sg_len first)
            (map_option (\<lambda>segment. (sg_iova segment, sg_len segment)) second) info)))"

definition mt7921_dma_rx :: "dma_segment \<Rightarrow> (mt7921_descriptor_error, dma_descriptor) res" where
  "mt7921_dma_rx buffer =
     and_then (validate_mt7921_segment buffer) (\<lambda>_.
       map_err map_descriptor_error (descriptor_rx (sg_iova buffer, sg_len buffer)))"

section \<open>The ring\<close>

record ring_allocation =
  ra_id :: u64
  ra_iova :: u64
  ra_len :: nat

record ('m, 'e) low32_ring_memory =
  lm_allocate_low32 :: "nat \<Rightarrow> nat \<Rightarrow> ('m, 'e, ring_allocation) op"
  lm_free :: "ring_allocation \<Rightarrow> 'm \<Rightarrow> 'm"

record ('p, 'e) ring_publisher =
  pb_write_descriptor :: "u16 \<Rightarrow> dma_descriptor \<Rightarrow> ('p, 'e, unit) op"
  pb_release_fence :: "'p \<Rightarrow> 'p"
  pb_publish_producer :: "u16 \<Rightarrow> ('p, 'e, unit) op"
  pb_acquire_fence :: "'p \<Rightarrow> 'p"

datatype 'e ring_error =
    InvalidCount
  | Allocation 'e
  | AllocationTooSmall
  | AllocationAbove32Bits
  | Full
  | DescriptorRejected mt7921_descriptor_error
  | Publish 'e

record wfdma_ring =
  wr_allocation :: ring_allocation
  wr_descriptors :: "dma_descriptor list"
  wr_producer :: u16
  wr_consumer :: u16
  wr_queued :: u16

definition wfdma_allocate ::
  "('m, 'e) low32_ring_memory \<Rightarrow> u16 \<Rightarrow> ('m, 'e ring_error, wfdma_ring) op" where
  "wfdma_allocate M count s =
     (if count < 2 then (Err InvalidCount, s)
      else case checked_mul (unat count) DMA_DESCRIPTOR_LEN of
        None \<Rightarrow> (Err InvalidCount, s)
      | Some sz \<Rightarrow>
          (case lm_allocate_low32 M sz DMA_DESCRIPTOR_LEN s of
             (Err e, s') \<Rightarrow> (Err (Allocation e), s')
           | (Panic, s') \<Rightarrow> (Panic, s')
           | (Ok alloc, s') \<Rightarrow>
               if ra_len alloc < sz then (Err AllocationTooSmall, lm_free M alloc s')
               else if unat (ra_iova alloc) mod DMA_DESCRIPTOR_LEN \<noteq> 0 \<or>
                 (case checked_add_word (ra_iova alloc) (of_nat (sz - 1)) of
                    None \<Rightarrow> True | Some last_ \<Rightarrow> \<not> last_ \<le> 0xffffffff)
               then (Err AllocationAbove32Bits, lm_free M alloc s')
               else (Ok \<lparr>wr_allocation = alloc, wr_descriptors = replicate (unat count) descriptor_reset,
                         wr_producer = 0, wr_consumer = 0, wr_queued = 0\<rparr>, s')))"

definition enqueue ::
  "('p, 'e) ring_publisher \<Rightarrow> dma_segment \<Rightarrow> dma_segment option \<Rightarrow> u32 \<Rightarrow>
     (wfdma_ring \<times> 'p, 'e ring_error, u16) op" where
  "enqueue P first second info st =
     (let (r, p) = st in
      if unat (wr_queued r) = length (wr_descriptors r) then (Err Full, st)
      else let i = wr_producer r in
        case mt7921_dma_tx first second info of
          Err e \<Rightarrow> (Err (DescriptorRejected e), st)
        | Panic \<Rightarrow> (Panic, st)
        | Ok descriptor \<Rightarrow>
            (case pb_write_descriptor P i descriptor p of
               (Err e, p') \<Rightarrow> (Err (Publish e), (r, p'))
             | (Panic, p') \<Rightarrow> (Panic, (r, p'))
             | (Ok _, p') \<Rightarrow>
                 if length (wr_descriptors r) = 0 then (Panic, (r, p'))
                 else let nxt = of_nat ((unat i + 1) mod length (wr_descriptors r)) in
                   (case pb_publish_producer P nxt (pb_release_fence P p') of
                      (Err e, q) \<Rightarrow> (Err (Publish e), (r, q))
                    | (Panic, q) \<Rightarrow> (Panic, (r, q))
                    | (Ok _, q) \<Rightarrow>
                        if length (wr_descriptors r) \<le> unat i \<or> wr_queued r = -1 then (Panic, (r, q))
                        else (Ok i, (r\<lparr>wr_descriptors := (wr_descriptors r)[unat i := descriptor],
                                       wr_producer := nxt, wr_queued := wr_queued r + 1\<rparr>, q)))))"

definition complete :: "u16 \<Rightarrow> wfdma_ring \<Rightarrow> bool \<times> wfdma_ring" where
  "complete i r =
     (if length (wr_descriptors r) \<le> unat i then (False, r)
      else (True, r\<lparr>wr_descriptors := (wr_descriptors r)[unat i :=
             (wr_descriptors r ! unat i)\<lparr>de_ctrl := de_ctrl (wr_descriptors r ! unat i) OR push_bit 31 1\<rparr>]\<rparr>))"

definition reclaim_one ::
  "('p, 'e) ring_publisher \<Rightarrow> (wfdma_ring \<times> 'p, 'e ring_error, u16 option) op" where
  "reclaim_one P st =
     (let (r, p) = st; i = wr_consumer r in
      if wr_queued r = 0 then (Ok None, st)
      else if length (wr_descriptors r) \<le> unat i then (Panic, st)
      else if \<not> is_dma_done (wr_descriptors r ! unat i) then (Ok None, st)
      else (Ok (Some i),
            (r\<lparr>wr_descriptors := (wr_descriptors r)[unat i := descriptor_reset],
               wr_consumer := of_nat ((unat i + 1) mod length (wr_descriptors r)),
               wr_queued := wr_queued r - 1\<rparr>, pb_acquire_fence P p)))"

definition wfdma_teardown :: "('m, 'e) low32_ring_memory \<Rightarrow> wfdma_ring \<Rightarrow> 'm \<Rightarrow> 'm" where
  "wfdma_teardown M r s = lm_free M (wr_allocation r) s"

section \<open>Schedules\<close>

datatype wfdma_op = OpEnqueue dma_segment "dma_segment option" u32 | OpComplete u16 | OpReclaim

datatype ring_event = Enqueued nat | Completed nat | Reclaimed nat

text \<open>One call, with what it did put in front of the history; \<open>None\<close> is a panic.\<close>

definition wfdma_do ::
  "('p, 'e) ring_publisher \<Rightarrow> wfdma_op \<Rightarrow> wfdma_ring \<times> 'p \<times> ring_event list \<Rightarrow>
     (wfdma_ring \<times> 'p \<times> ring_event list) option" where
  "wfdma_do P x st =
     (let (r, p, es) = st in
      case x of
        OpEnqueue first second info \<Rightarrow>
          (case enqueue P first second info (r, p) of
             (Ok i, (r', p')) \<Rightarrow> Some (r', p', Enqueued (unat i) # es)
           | (Err _, (r', p')) \<Rightarrow> Some (r', p', es) | (Panic, _) \<Rightarrow> None)
      | OpComplete i \<Rightarrow>
          (case complete i r of (True, r') \<Rightarrow> Some (r', p, Completed (unat i) # es)
           | (False, r') \<Rightarrow> Some (r', p, es))
      | OpReclaim \<Rightarrow>
          (case reclaim_one P (r, p) of
             (Ok (Some i), (r', p')) \<Rightarrow> Some (r', p', Reclaimed (unat i) # es)
           | (Ok None, (r', p')) \<Rightarrow> Some (r', p', es)
           | (Err _, (r', p')) \<Rightarrow> Some (r', p', es) | (Panic, _) \<Rightarrow> None))"

fun wfdma_run where
  "wfdma_run P [] st = Some st"
| "wfdma_run P (x # xs) st = Option.bind (wfdma_do P x st) (wfdma_run P xs)"

text \<open>The slots whose completion was signalled since they were last handed to the device, and the
  histories in which a slot is reclaimed only after that. The newest event comes first.\<close>

fun signalled :: "ring_event list \<Rightarrow> nat set" where
  "signalled [] = {}"
| "signalled (Enqueued i # es) = signalled es - {i}"
| "signalled (Completed i # es) = insert i (signalled es)"
| "signalled (Reclaimed i # es) = signalled es - {i}"

fun reclaims_ok :: "ring_event list \<Rightarrow> bool" where
  "reclaims_ok [] = True"
| "reclaims_ok (Reclaimed i # es) \<longleftrightarrow> i \<in> signalled es \<and> reclaims_ok es"
| "reclaims_ok (_ # es) = reclaims_ok es"

definition enqueued_of :: "ring_event list \<Rightarrow> nat list" where
  "enqueued_of es = concat (map (\<lambda>e. case e of Enqueued i \<Rightarrow> [i] | _ \<Rightarrow> []) (rev es))"

definition reclaimed_of :: "ring_event list \<Rightarrow> nat list" where
  "reclaimed_of es = concat (map (\<lambda>e. case e of Reclaimed i \<Rightarrow> [i] | _ \<Rightarrow> []) (rev es))"

section \<open>The invariant\<close>

definition wfdma_inv :: "wfdma_ring \<Rightarrow> ring_event list \<Rightarrow> bool" where
  "wfdma_inv r es \<longleftrightarrow>
     (let n = length (wr_descriptors r); c = unat (wr_consumer r); q = unat (wr_queued r) in
      2 \<le> n \<and> n < 2 ^ 16 \<and> c < n \<and> q \<le> n \<and> unat (wr_producer r) = (c + q) mod n \<and>
      reclaimed_of es @ circ n c q = enqueued_of es \<and> reclaims_ok es \<and>
      (\<forall>i\<in>set (circ n c q). is_dma_done (wr_descriptors r ! i) \<longrightarrow> i \<in> signalled es))"

lemma distinct_circ: "a < n \<Longrightarrow> p \<le> n \<Longrightarrow> distinct (circ n a p)"
proof (induction p)
  case (Suc p)
  then show ?case using circ_fresh [of p n a] by (simp add: circ_snoc)
qed (simp add: circ_def)

lemma circ_bound: "a < n \<Longrightarrow> i \<in> set (circ n a p) \<Longrightarrow> i < n"
  by (auto simp: circ_def)

lemma tx_not_done:
  assumes "mt7921_dma_tx first second info = Ok d"
  shows "\<not> is_dma_done d"
proof -
  obtain f s where "descriptor_tx f s info = Ok d"
    using assms by (auto simp: mt7921_dma_tx_def map_err_def split: res.splits)
  then obtain d0 where "descriptor_tx f s 0 = Ok d0" "de_ctrl d0 = de_ctrl d"
    by (auto simp: descriptor_tx_def Let_def split: option.splits)
  then show ?thesis
    using tx_words(6) [of "fst f" "snd f" s 0 d0] by (simp add: is_dma_done_bit)
qed

lemma event_lists [simp]:
  "enqueued_of (Enqueued i # es) = enqueued_of es @ [i]" "enqueued_of (Completed i # es) = enqueued_of es"
  "enqueued_of (Reclaimed i # es) = enqueued_of es" "reclaimed_of (Enqueued i # es) = reclaimed_of es"
  "reclaimed_of (Completed i # es) = reclaimed_of es" "reclaimed_of (Reclaimed i # es) = reclaimed_of es @ [i]"
  by (simp_all add: enqueued_of_def reclaimed_of_def)

lemma mod_lt_two: "2 \<le> (n :: nat) \<Longrightarrow> x mod n < n"
  by (rule mod_less_divisor) simp

lemma u16_mod: "2 \<le> n \<Longrightarrow> n < 2 ^ 16 \<Longrightarrow> unat (of_nat (x mod n) :: u16) = x mod n"
proof -
  assume "2 \<le> n" "n < 2 ^ 16"
  then have "x mod n < 2 ^ 16" using mod_lt_two [of n x] by linarith
  then show ?thesis by (simp add: unat_of_nat)
qed

text \<open>A publisher reports failure as an error.\<close>

definition publisher_safe :: "('p, 'e) ring_publisher \<Rightarrow> bool" where
  "publisher_safe P \<longleftrightarrow> (\<forall>i d p. fst (pb_write_descriptor P i d p) \<noteq> Panic)
     \<and> (\<forall>i p. fst (pb_publish_producer P i p) \<noteq> Panic)"

lemma enqueue_cases:
  assumes "wfdma_inv r es" "publisher_safe P" "enqueue P first second info (r, p) = (res, (r', p'))"
  obtains e where "res = Err e" "r' = r"
  | d where "res = Ok (wr_producer r)" "unat (wr_queued r) < length (wr_descriptors r)" "\<not> is_dma_done d"
    "r' = r\<lparr>wr_descriptors := (wr_descriptors r)[unat (wr_producer r) := d],
            wr_producer := of_nat ((unat (wr_producer r) + 1) mod length (wr_descriptors r)),
            wr_queued := wr_queued r + 1\<rparr>"
proof (cases "unat (wr_queued r) = length (wr_descriptors r)")
  case True
  then show ?thesis using assms(3) that(1) by (auto simp: enqueue_def)
next
  case False
  from assms(1) have I: "2 \<le> length (wr_descriptors r)" "length (wr_descriptors r) < 2 ^ 16"
    "unat (wr_queued r) \<le> length (wr_descriptors r)" "unat (wr_producer r) < length (wr_descriptors r)"
    by (auto simp: wfdma_inv_def Let_def intro: mod_lt_two)
  have nw: "wr_queued r \<noteq> -1"
  proof
    assume "wr_queued r = -1"
    then show False using I(2,3) False by (simp add: unsigned_minus_1_eq_mask mask_eq_exp_minus_1)
  qed
  have safe: "\<And>i d p q. pb_write_descriptor P i d p \<noteq> (Panic, q)" "\<And>i p q. pb_publish_producer P i p \<noteq> (Panic, q)"
    using assms(2) unfolding publisher_safe_def by (metis fst_conv)+
  show ?thesis
  proof (cases "mt7921_dma_tx first second info")
    case (Ok d)
    note nd = tx_not_done [OF Ok]
    let ?n = "length (wr_descriptors r)"
    let ?x = "of_nat ((unat (wr_producer r) + 1) mod ?n) :: u16"
    have ne: "?n \<noteq> 0" "\<not> ?n \<le> unat (wr_producer r)" using I(1,4) by linarith+
    obtain w p1 where w: "pb_write_descriptor P (wr_producer r) d p = (w, p1)" by fastforce
    obtain v p2 where v: "pb_publish_producer P ?x (pb_release_fence P p1) = (v, p2)" by fastforce
    have e: "(res, r', p') =
      (case w of Ok _ \<Rightarrow>
         (case v of Ok _ \<Rightarrow>
            (Ok (wr_producer r), r\<lparr>wr_descriptors := (wr_descriptors r)[unat (wr_producer r) := d],
               wr_producer := ?x, wr_queued := wr_queued r + 1\<rparr>, p2)
          | Err e \<Rightarrow> (Err (Publish e), r, p2) | Panic \<Rightarrow> (Panic, r, p2))
       | Err e \<Rightarrow> (Err (Publish e), r, p1) | Panic \<Rightarrow> (Panic, r, p1))"
      unfolding assms(3) [symmetric]
      by (simp add: enqueue_def Let_def False Ok w v [simplified] nw ne ne(1) [simplified] split: res.split)
    have "w \<noteq> Panic" "v \<noteq> Panic" using safe w v by metis+
    moreover have "unat (wr_queued r) < ?n" using I(3) False by simp
    ultimately show ?thesis
      using e that nd by (cases w; cases v) auto
  next
    case Panic
    then show ?thesis
      by (auto simp: mt7921_dma_tx_def validate_mt7921_segment_def map_err_def descriptor_tx_def
          validate_segment_def Let_def and_then_eq_Panic split: option.splits res.splits if_splits)
  qed (use assms(3) False that(1) in \<open>auto simp: enqueue_def\<close>)
qed

lemma enqueue_inv:
  assumes inv: "wfdma_inv r es" and q: "unat (wr_queued r) < length (wr_descriptors r)" and nd: "\<not> is_dma_done d"
  shows "wfdma_inv (r\<lparr>wr_descriptors := (wr_descriptors r)[unat (wr_producer r) := d],
            wr_producer := of_nat ((unat (wr_producer r) + 1) mod length (wr_descriptors r)),
            wr_queued := wr_queued r + 1\<rparr>) (Enqueued (unat (wr_producer r)) # es)"
proof -
  let ?n = "length (wr_descriptors r)" and ?c = "unat (wr_consumer r)" and ?q = "unat (wr_queued r)"
  let ?i = "unat (wr_producer r)"
  from inv have I: "2 \<le> ?n" "?n < 2 ^ 16" "?c < ?n" "?i = (?c + ?q) mod ?n"
    "reclaimed_of es @ circ ?n ?c ?q = enqueued_of es" "reclaims_ok es"
    "\<And>i. i \<in> set (circ ?n ?c ?q) \<Longrightarrow> is_dma_done (wr_descriptors r ! i) \<Longrightarrow> i \<in> signalled es"
    by (auto simp: wfdma_inv_def Let_def)
  have q1: "unat (wr_queued r + 1) = Suc ?q"
    using q I(2) by (simp add: unat_word_ariths)
  have fresh: "?i \<notin> set (circ ?n ?c ?q)"
    using circ_fresh [OF q I(3)] I(4) by simp
  have nx: "unat (of_nat ((?i + 1) mod ?n) :: u16) = (?i + 1) mod ?n"
    by (rule u16_mod [OF I(1,2)])
  have wrap: "(?i + 1) mod ?n = (?c + Suc ?q) mod ?n"
    using I(4) by (simp add: mod_simps)
  have lt: "?i < ?n" using mod_lt_two [OF I(1)] I(4) by simp
  show ?thesis
    unfolding wfdma_inv_def Let_def
    using I q q1 nx wrap fresh lt nd circ_snoc [of ?n ?c ?q] by (auto simp: nth_list_update)
qed

lemma complete_inv:
  assumes "wfdma_inv r es" "complete i r = (b, r')"
  shows "wfdma_inv r' (if b then Completed (unat i) # es else es)"
  using assms by (auto simp: complete_def wfdma_inv_def Let_def nth_list_update split: if_splits)

lemma reclaim_inv:
  assumes inv: "wfdma_inv r es" and e: "reclaim_one P (r, p) = (res, (r', p'))"
  shows "res = Ok None \<and> r' = r \<or> (\<exists>i. res = Ok (Some i) \<and> wfdma_inv r' (Reclaimed (unat i) # es))"
proof -
  let ?n = "length (wr_descriptors r)" and ?c = "unat (wr_consumer r)" and ?q = "unat (wr_queued r)"
  from inv have I: "2 \<le> ?n" "?n < 2 ^ 16" "?c < ?n" "?q \<le> ?n" "unat (wr_producer r) = (?c + ?q) mod ?n"
    "reclaimed_of es @ circ ?n ?c ?q = enqueued_of es" "reclaims_ok es"
    "\<And>i. i \<in> set (circ ?n ?c ?q) \<Longrightarrow> is_dma_done (wr_descriptors r ! i) \<Longrightarrow> i \<in> signalled es"
    by (auto simp: wfdma_inv_def Let_def)
  show ?thesis
  proof (cases "wr_queued r = 0 \<or> \<not> is_dma_done (wr_descriptors r ! ?c)")
    case True
    then show ?thesis using e I(3) by (auto simp: reclaim_one_def Let_def split: if_splits)
  next
    case False
    then obtain k where k: "?q = Suc k" by (metis not0_implies_Suc unat_eq_zero)
    note C = circ_Cons [OF I(3), of k]
    have r': "res = Ok (Some (wr_consumer r))"
      "r' = r\<lparr>wr_descriptors := (wr_descriptors r)[?c := descriptor_reset],
               wr_consumer := of_nat ((?c + 1) mod ?n), wr_queued := wr_queued r - 1\<rparr>"
      using e False I(3) by (auto simp: reclaim_one_def Let_def)
    have q1: "unat (wr_queued r - 1) = k"
      using k False by (simp add: unat_minus_one)
    have nx: "unat (of_nat ((?c + 1) mod ?n) :: u16) = Suc ?c mod ?n"
      using u16_mod [OF I(1,2), of "Suc ?c"] by simp
    have out: "?c \<notin> set (circ ?n (Suc ?c mod ?n) k)"
      using distinct_circ [OF I(3,4)] k C by simp
    have wrap: "(?c + Suc k) mod ?n = (Suc ?c mod ?n + k) mod ?n"
      by (simp add: mod_simps)
    have "wfdma_inv r' (Reclaimed ?c # es)"
      unfolding wfdma_inv_def Let_def
      using I k C q1 nx out wrap False mod_lt_two [OF I(1), of "Suc ?c"] by (auto simp: r' nth_list_update)
    then show ?thesis using r'(1) by blast
  qed
qed

lemma wfdma_do_inv:
  assumes "wfdma_inv r es" "publisher_safe P"
  shows "\<exists>r' p' es'. wfdma_do P x (r, p, es) = Some (r', p', es') \<and> wfdma_inv r' es'"
proof (cases x)
  case (OpEnqueue first second info)
  obtain res r' p' where e: "enqueue P first second info (r, p) = (res, (r', p'))" by (metis surj_pair)
  then show ?thesis
    by (cases rule: enqueue_cases [OF assms e])
      (use OpEnqueue assms(1) enqueue_inv [OF assms(1)] in \<open>auto simp: wfdma_do_def\<close>)
next
  case (OpComplete i)
  obtain b r' where e: "complete i r = (b, r')" by (cases "complete i r")
  then show ?thesis using complete_inv [OF assms(1) e] OpComplete by (cases b) (auto simp: wfdma_do_def)
next
  case OpReclaim
  obtain res r' p' where e: "reclaim_one P (r, p) = (res, (r', p'))" by (metis surj_pair)
  then show ?thesis using reclaim_inv [OF assms(1) e] OpReclaim assms(1) by (auto simp: wfdma_do_def)
qed

lemma wfdma_run_inv:
  assumes "publisher_safe P"
  shows "wfdma_inv r es \<Longrightarrow> \<exists>r' p' es'. wfdma_run P xs (r, p, es) = Some (r', p', es') \<and> wfdma_inv r' es'"
proof (induction xs arbitrary: r p es)
  case (Cons x xs)
  obtain r1 p1 es1 where 1: "wfdma_do P x (r, p, es) = Some (r1, p1, es1)" "wfdma_inv r1 es1"
    using wfdma_do_inv [OF Cons.prems assms] by blast
  then show ?case using Cons.IH [OF 1(2)] by simp
qed simp

lemma wfdma_do_length:
  assumes "wfdma_do P x (r, p, es) = Some (r', p', es')"
  shows "length (wr_descriptors r') = length (wr_descriptors r)"
  using assms
  by (cases x) (auto simp: wfdma_do_def enqueue_def complete_def reclaim_one_def Let_def
      split: if_splits res.splits prod.splits option.splits)

lemma wfdma_allocate_inv:
  assumes "wfdma_allocate M count s = (Ok r, s')"
  shows "wfdma_inv r []"
proof -
  have f: "wr_descriptors r = replicate (unat count) descriptor_reset" "wr_producer r = 0"
      "wr_consumer r = 0" "wr_queued r = 0" "2 \<le> unat count"
    using assms by (auto simp: wfdma_allocate_def word_less_nat_alt split: if_splits option.splits res.splits prod.splits)
  moreover have "unat count < 2 ^ 16" using unsigned_less [of count] by simp
  ultimately show ?thesis
    by (simp add: wfdma_inv_def circ_def reclaimed_of_def enqueued_of_def)
qed

section \<open>Guarantees\<close>

text \<open>C29: the transmit ring. A ring that was allocated survives every schedule of enqueues,
  completions in any order and reclaims, with any publisher that reports its failures as
  errors: no call panics, the reclaimed slots are the enqueued ones in order of enqueueing, the
  slots in flight are the remaining ones and at most the ring's size, and a slot is reclaimed
  only after a completion that came after its last enqueue.\<close>

theorem transmit_ring_in_order:
  assumes "wfdma_allocate M count s = (Ok r, s')" "publisher_safe P"
  shows "\<exists>r' p' es. wfdma_run P ops (r, p, []) = Some (r', p', es) \<and>
    reclaimed_of es @ circ (unat count) (unat (wr_consumer r')) (unat (wr_queued r')) = enqueued_of es \<and>
    length (wr_descriptors r') = unat count \<and> unat (wr_queued r') \<le> unat count \<and> reclaims_ok es"
proof -
  have len: "length (wr_descriptors r') = length (wr_descriptors q)"
    if "wfdma_run P xs (q, p, es) = Some (r', p', es')" for xs q p es r' p' es'
    using that
  proof (induction xs arbitrary: q p es)
    case (Cons x xs)
    then obtain q1 p1 es1 where 1: "wfdma_do P x (q, p, es) = Some (q1, p1, es1)"
      "wfdma_run P xs (q1, p1, es1) = Some (r', p', es')"
      by (auto simp: bind_eq_Some_conv)
    from Cons.IH [OF 1(2)] wfdma_do_length [OF 1(1)] show ?case by simp
  qed simp
  have "length (wr_descriptors r) = unat count"
    using assms(1) by (auto simp: wfdma_allocate_def split: if_splits option.splits res.splits prod.splits)
  moreover obtain r' p' es where run: "wfdma_run P ops (r, p, []) = Some (r', p', es)" "wfdma_inv r' es"
    using wfdma_run_inv [OF assms(2) wfdma_allocate_inv [OF assms(1)]] by blast
  ultimately show ?thesis
    using len [OF run(1)] by (auto simp: wfdma_inv_def Let_def)
qed

definition log_publisher :: "(nat list, unit) ring_publisher" where
  "log_publisher = \<lparr>pb_write_descriptor = (\<lambda>i d p. (Ok (), p)), pb_release_fence = id,
     pb_publish_producer = (\<lambda>i p. (Ok (), unat i # p)), pb_acquire_fence = id\<rparr>"

definition page_memory :: "(unit, unit) low32_ring_memory" where
  "page_memory = \<lparr>lm_allocate_low32 = (\<lambda>sz al s. (Ok \<lparr>ra_id = 1, ra_iova = 0x1000, ra_len = sz\<rparr>, s)),
     lm_free = (\<lambda>_ s. s)\<rparr>"

theorem transmit_ring_in_order_witness:
  "\<exists>r r' p' es. wfdma_allocate page_memory 2 () = (Ok r, ()) \<and>
     wfdma_run log_publisher [OpEnqueue \<lparr>sg_iova = 0, sg_len = 4\<rparr> None 0, OpEnqueue \<lparr>sg_iova = 8, sg_len = 4\<rparr> None 0,
       OpComplete 1, OpReclaim, OpComplete 0, OpReclaim, OpReclaim] (r, [], []) = Some (r', p', es) \<and>
     reclaims_ok es"
proof -
  have "\<exists>r. wfdma_allocate page_memory 2 () = (Ok r, ())"
    by (simp add: wfdma_allocate_def page_memory_def DMA_DESCRIPTOR_LEN_def checked_mul_def
        checked_add_word_def USIZE_MAX_def)
  then obtain r where r: "wfdma_allocate page_memory 2 () = (Ok r, ())" by blast
  have "publisher_safe log_publisher" by (simp add: publisher_safe_def log_publisher_def)
  from transmit_ring_in_order [OF r this] r show ?thesis by blast
qed

end
