(* ===== verification/Wlan_Fidl.thy ===== *)
theory Wlan_Fidl
  imports Drv_Prelude
begin

text \<open>
  The WLAN values that cross the policy seam
  (\<open>crates/net/netstack3-port-spike/upstream-cargo/sdk/fidl\<close>: \<open>fuchsia.wlan.sme\<close>,
  \<open>fuchsia.wlan.internal\<close>, \<open>fuchsia.wlan.common\<close>, \<open>fuchsia.wlan.ieee80211\<close>).

  A flexible FIDL enumeration is a wrapper around its primitive, which may be a value the schema
  does not name; \<open>from_primitive\<close> accepts only the named ones. Signed 8- and 64-bit fields are
  words, read in two's complement. A string is its UTF-8 bytes.
\<close>

type_synonym i8 = "8 word"
type_synonym i64 = "64 word"

section \<open>Flexible enumerations and codes\<close>

datatype protocol = Protocol (protocol_bits: u32)
datatype wlan_mac_role = WlanMacRole (mac_role_bits: u32)
datatype channel_bandwidth = ChannelBandwidth (bandwidth_bits: u32)
datatype wlan_band = WlanBand (band_bits: u8)
datatype bss_type = BssType (bss_type_bits: u32)
datatype reason_code = ReasonCode (reason_bits: u16)
datatype status_code = StatusCode (status_bits: u16)

definition protocol_from_primitive :: "u32 \<Rightarrow> protocol option" where
  "protocol_from_primitive v = (if 1 \<le> v \<and> v \<le> 8 then Some (Protocol v) else None)"

definition mac_role_from_primitive :: "u32 \<Rightarrow> wlan_mac_role option" where
  "mac_role_from_primitive v = (if v = 1 \<or> v = 2 \<or> v = 3 then Some (WlanMacRole v) else None)"

definition bandwidth_from_primitive :: "u32 \<Rightarrow> channel_bandwidth option" where
  "bandwidth_from_primitive v =
     (if v = 1 \<or> v = 2 \<or> v = 3 \<or> v = 4 \<or> v = 5 \<or> v = 6 then Some (ChannelBandwidth v) else None)"

definition band_from_primitive :: "u8 \<Rightarrow> wlan_band option" where
  "band_from_primitive v = (if v = 0 \<or> v = 1 then Some (WlanBand v) else None)"

definition bss_type_from_primitive :: "u32 \<Rightarrow> bss_type option" where
  "bss_type_from_primitive v =
     (if v = 0 \<or> v = 1 \<or> v = 2 \<or> v = 3 \<or> v = 4 then Some (BssType v) else None)"

definition in_ranges :: "(u16 \<times> u16) list \<Rightarrow> u16 \<Rightarrow> bool" where
  "in_ranges rs v \<longleftrightarrow> list_ex (\<lambda>(lo, hi). lo \<le> v \<and> v \<le> hi) rs"

definition valid_reason_code :: "u16 \<Rightarrow> bool" where
  "valid_reason_code = in_ranges [(1, 39), (45, 66), (128, 130)]"

definition valid_status_code :: "u16 \<Rightarrow> bool" where
  "valid_status_code = in_ranges
     [(0, 3), (5, 7), (10, 19), (22, 25), (27, 35), (37, 65), (67, 68), (72, 89), (92, 113),
      (116, 123), (125, 126), (128, 129), (256, 260)]"

definition reason_from_primitive :: "u16 \<Rightarrow> reason_code option" where
  "reason_from_primitive v = (if valid_reason_code v then Some (ReasonCode v) else None)"

definition status_from_primitive :: "u16 \<Rightarrow> status_code option" where
  "status_from_primitive v = (if valid_status_code v then Some (StatusCode v) else None)"

section \<open>Strict enumerations\<close>

datatype scan_type = ScanActive | ScanPassive

definition scan_type_u32 :: "scan_type \<Rightarrow> u32" where
  "scan_type_u32 t = (case t of ScanActive \<Rightarrow> 1 | ScanPassive \<Rightarrow> 2)"

datatype user_disconnect_reason =
    ReasonUnknown | FailedToConnect | FidlConnectRequest | FidlStopClientConnectionsRequest
  | ProactiveNetworkSwitch | DisconnectDetectedFromSme | RegulatoryRegionChange | Startup
  | NetworkUnsaved | NetworkConfigUpdated | Recovery | WlanstackUnitTesting | WlanSmeUnitTesting
  | WlanServiceUtilTesting | WlanDevTool

definition user_disconnect_reason_u32 :: "user_disconnect_reason \<Rightarrow> u32" where
  "user_disconnect_reason_u32 v =
     (case v of
        ReasonUnknown \<Rightarrow> 0 | FailedToConnect \<Rightarrow> 1 | FidlConnectRequest \<Rightarrow> 2
      | FidlStopClientConnectionsRequest \<Rightarrow> 3 | ProactiveNetworkSwitch \<Rightarrow> 4
      | DisconnectDetectedFromSme \<Rightarrow> 5 | RegulatoryRegionChange \<Rightarrow> 6 | Startup \<Rightarrow> 7
      | NetworkUnsaved \<Rightarrow> 8 | NetworkConfigUpdated \<Rightarrow> 9 | Recovery \<Rightarrow> 10
      | WlanstackUnitTesting \<Rightarrow> 124 | WlanSmeUnitTesting \<Rightarrow> 125 | WlanServiceUtilTesting \<Rightarrow> 126
      | WlanDevTool \<Rightarrow> 127)"

datatype disconnect_mlme_event_name =
    DeauthenticateIndication | DisassociateIndication | RoamStartIndication | RoamResultIndication
  | SaeHandshakeResponse | RoamRequestEvent | RoamConfirmation

definition mlme_event_u32 :: "disconnect_mlme_event_name \<Rightarrow> u32" where
  "mlme_event_u32 v =
     (case v of
        DeauthenticateIndication \<Rightarrow> 1 | DisassociateIndication \<Rightarrow> 2 | RoamStartIndication \<Rightarrow> 3
      | RoamResultIndication \<Rightarrow> 4 | SaeHandshakeResponse \<Rightarrow> 5 | RoamRequestEvent \<Rightarrow> 6
      | RoamConfirmation \<Rightarrow> 7)"

datatype scan_error_code =
    NotSupported | InternalError | InternalMlmeError | ShouldWait | CanceledByDriverOrFirmware

definition scan_error_u32 :: "scan_error_code \<Rightarrow> u32" where
  "scan_error_u32 v =
     (case v of NotSupported \<Rightarrow> 1 | InternalError \<Rightarrow> 2 | InternalMlmeError \<Rightarrow> 3 | ShouldWait \<Rightarrow> 4
      | CanceledByDriverOrFirmware \<Rightarrow> 5)"

section \<open>Structures\<close>

record channel_number =
  cn_band :: wlan_band
  cn_number :: u8

record bss_description =
  bd_bssid :: bytes
  bd_bss_type :: bss_type
  bd_beacon_period :: u16
  bd_capability_info :: u16
  bd_ies :: bytes
  bd_primary :: channel_number
  bd_bandwidth :: channel_bandwidth
  bd_vht_secondary_80_channel :: channel_number
  bd_rssi_dbm :: i8
  bd_snr_db :: i8

record disconnect_cause =
  dc_mlme_event_name :: disconnect_mlme_event_name
  dc_reason_code :: reason_code

datatype disconnect_source =
    SourceAp disconnect_cause | SourceUser user_disconnect_reason | SourceMlme disconnect_cause

record disjoint_security_protocol =
  ds_protocol :: protocol
  ds_role :: wlan_mac_role

datatype compatibility =
    Compatible "protocol list"
  | Incompatible bytes "disjoint_security_protocol list option"

record scan_result =
  sc_compatibility :: compatibility
  sc_timestamp_nanos :: i64
  sc_bss_description :: bss_description

datatype scan_request = ActiveScan "bytes list" bytes | PassiveScan bytes

record connect_result =
  cr_code :: status_code
  cr_is_credential_rejected :: bool
  cr_is_reconnect :: bool

record disconnect_info =
  di_is_sme_reconnecting :: bool
  di_disconnect_source :: disconnect_source

record roam_result =
  rr_bssid :: bytes
  rr_status_code :: status_code
  rr_original_association_maintained :: bool
  rr_bss_description :: "bss_description option"
  rr_disconnect_info :: "disconnect_info option"
  rr_is_credential_rejected :: bool

datatype wpa_credentials = Psk bytes | Passphrase bytes | WpaUnknown u64 bytes

datatype credentials = Wep bytes | Wpa wpa_credentials | CredentialsUnknown u64 bytes

record authentication =
  au_protocol :: protocol
  au_credentials :: "credentials option"

record connect_request =
  cq_ssid :: bytes
  cq_bss_description :: bss_description
  cq_multiple_bss_candidates :: bool
  cq_authentication :: authentication
  cq_deprecated_scan_type :: scan_type

record signal_report_indication =
  sr_rssi_dbm :: i8
  sr_snr_db :: i8

record channel_switch_info =
  cs_new_primary_channel :: channel_number
  cs_bandwidth :: channel_bandwidth
  cs_vht_secondary_80_channel :: channel_number

datatype connect_transaction_event =
    OnConnectResult connect_result
  | OnDisconnect disconnect_info
  | OnRoamResult roam_result
  | OnSignalReport signal_report_indication
  | OnChannelSwitched channel_switch_info

end
