(* ===== verification/Wlan_Control_Wire.thy ===== *)
theory Wlan_Control_Wire
  imports Wlan_Fidl
begin

text \<open>
  The policy packets of the Wi-Fi service (\<open>crates/wifi/wlan-control-wire/src/lib.rs\<close>): header,
  messages, and the encoder and decoder of every structure they contain.

  An encoder appends to a vector in the source and returns what it appends here, or the error. A
  decoder is an operation on a reader, which is a byte slice and a position.
\<close>

section \<open>Deadlines, messages and errors\<close>

definition MAGIC :: bytes where "MAGIC = [0x57, 0x4c, 0x43, 0x50]"
definition VERSION :: u16 where "VERSION = 3"
definition HEADER_LEN :: nat where "HEADER_LEN = 36"
definition MAX_PACKET :: nat where "MAX_PACKET = 8192"
definition MAX_BSS_IE_LEN :: nat where "MAX_BSS_IE_LEN = 4096"

datatype wire_error =
    PacketTooLarge
  | Truncated
  | BadMagic
  | UnsupportedVersion u16
  | UnknownKind u16
  | InvalidLength
  | TrailingBytes
  | ZeroRequestId
  | WrongGeneration
  | NonIncreasingRequestId
  | UnknownDiscriminant string u64
  | BoundExceeded string
  | InvalidValue string

datatype monotonic_deadline = MonotonicDeadline (into_nanos: u64)

definition from_nanos :: "u64 \<Rightarrow> (wire_error, monotonic_deadline) res" where
  "from_nanos nanos =
     (if nanos = 0 \<or> nanos > 0x7fffffffffffffff then Err (InvalidValue ''monotonic deadline'')
      else Ok (MonotonicDeadline nanos))"

text \<open>A duration is its number of nanoseconds, which need not fit 64 bits.\<close>

definition from_now :: "u64 \<Rightarrow> nat \<Rightarrow> monotonic_deadline option" where
  "from_now now duration =
     (if duration < 2 ^ 64
      then Option.bind (checked_add_word now (of_nat duration)) (\<lambda>deadline.
             case from_nanos deadline of Ok d \<Rightarrow> Some d | _ \<Rightarrow> None)
      else None)"

definition deadline_checked_add :: "monotonic_deadline \<Rightarrow> nat \<Rightarrow> monotonic_deadline option" where
  "deadline_checked_add d allowance = from_now (into_nanos d) allowance"

definition deadline_remaining :: "monotonic_deadline \<Rightarrow> u64 \<Rightarrow> u64 option" where
  "deadline_remaining d now = (if now < into_nanos d then Some (into_nanos d - now) else None)"

datatype connect_reply = Completed connect_result

datatype command_reply = Success | Busy | NotConnected | Unsupported_reply

datatype power_save_mode = Performance | Balanced

datatype generation_end_reason =
  Shutdown | Timeout | DriverFault | ContainmentFault | Backpressure | ProtocolViolation

record 'a reply =
  re_in_reply_to :: u64
  re_result :: 'a

datatype message =
    Ready
  | Scan monotonic_deadline scan_request
  | ScanReply "(scan_error_code + scan_result list) reply"
  | Connect monotonic_deadline connect_request
  | ConnectReply "connect_reply reply"
  | Disconnect monotonic_deadline user_disconnect_reason
  | DisconnectReply "command_reply reply"
  | Roam monotonic_deadline bss_description
  | RoamReply "command_reply reply"
  | SetPowerSave monotonic_deadline power_save_mode
  | SetPowerSaveReply "command_reply reply"
  | Event connect_transaction_event
  | GenerationEnd generation_end_reason
  | DeadlineExceeded "unit reply"

definition message_deadline :: "message \<Rightarrow> monotonic_deadline option" where
  "message_deadline m =
     (case m of Scan d _ \<Rightarrow> Some d | Connect d _ \<Rightarrow> Some d | Disconnect d _ \<Rightarrow> Some d | Roam d _ \<Rightarrow> Some d
      | SetPowerSave d _ \<Rightarrow> Some d | _ \<Rightarrow> None)"

definition in_reply_to :: "message \<Rightarrow> u64 option" where
  "in_reply_to m =
     (case m of ScanReply r \<Rightarrow> Some (re_in_reply_to r) | ConnectReply r \<Rightarrow> Some (re_in_reply_to r)
      | DisconnectReply r \<Rightarrow> Some (re_in_reply_to r) | RoamReply r \<Rightarrow> Some (re_in_reply_to r)
      | SetPowerSaveReply r \<Rightarrow> Some (re_in_reply_to r) | DeadlineExceeded r \<Rightarrow> Some (re_in_reply_to r)
      | _ \<Rightarrow> None)"

record packet =
  pk_generation :: bytes
  pk_request_id :: u64
  pk_message :: message

section \<open>Sessions\<close>

record session_validator =
  sv_generation :: bytes
  sv_last_request_id :: u64

definition validator_new :: "bytes \<Rightarrow> session_validator" where
  "validator_new generation = \<lparr>sv_generation = generation, sv_last_request_id = 0\<rparr>"

definition validate_packet :: "packet \<Rightarrow> (session_validator, wire_error, unit) op" where
  "validate_packet p v =
     (if pk_generation p \<noteq> sv_generation v then (Err WrongGeneration, v)
      else if pk_request_id p = 0 then (Err ZeroRequestId, v)
      else if pk_request_id p \<le> sv_last_request_id v then (Err NonIncreasingRequestId, v)
      else (Ok (), v\<lparr>sv_last_request_id := pk_request_id p\<rparr>))"

section \<open>Readers and writers\<close>

record reader =
  rd_bytes :: bytes
  rd_pos :: nat

type_synonym 'a getter = "(reader, wire_error, 'a) op"
type_synonym 'a putter = "'a \<Rightarrow> (wire_error, bytes) res"

definition reader_new :: "bytes \<Rightarrow> reader" where
  "reader_new bs = \<lparr>rd_bytes = bs, rd_pos = 0\<rparr>"

definition rd_done :: "reader \<Rightarrow> bool" where
  "rd_done r \<longleftrightarrow> rd_pos r = length (rd_bytes r)"

definition rd_take :: "nat \<Rightarrow> bytes getter" where
  "rd_take n r =
     (case checked_add (rd_pos r) n of
        None \<Rightarrow> (Err Truncated, r)
      | Some stop \<Rightarrow>
          (case slice_get (rd_pos r) stop (rd_bytes r) of
             None \<Rightarrow> (Err Truncated, r)
           | Some v \<Rightarrow> (Ok v, r\<lparr>rd_pos := stop\<rparr>)))"

definition rd_u8 :: "u8 getter" where
  "rd_u8 = st_then (rd_take 1) (\<lambda>v. st_return (index v 0))"

definition rd_u16 :: "u16 getter" where
  "rd_u16 = st_then (rd_take 2) (\<lambda>v. st_return (Ok (from_le v)))"

definition rd_u32 :: "u32 getter" where
  "rd_u32 = st_then (rd_take 4) (\<lambda>v. st_return (Ok (from_le v)))"

definition rd_u64 :: "u64 getter" where
  "rd_u64 = st_then (rd_take 8) (\<lambda>v. st_return (Ok (from_le v)))"

definition rd_bool :: "bool getter" where
  "rd_bool = st_then rd_u8 (\<lambda>n. st_return
     (if n = 0 then Ok False else if n = 1 then Ok True else Err (UnknownDiscriminant ''bool'' (ucast n))))"

definition rd_vec :: "nat \<Rightarrow> string \<Rightarrow> bytes getter" where
  "rd_vec mx name = st_then rd_u32 (\<lambda>n.
     if unat n > mx then st_return (Err (BoundExceeded name)) else rd_take (unat n))"

fun rd_times :: "nat \<Rightarrow> 'a getter \<Rightarrow> 'a list getter" where
  "rd_times 0 get = st_return (Ok [])"
| "rd_times (Suc n) get = st_then get (\<lambda>x. st_then (rd_times n get) (\<lambda>xs. st_return (Ok (x # xs))))"

definition put_u8 :: "u8 putter" where "put_u8 v = Ok [v]"
definition put_u16 :: "u16 putter" where "put_u16 v = Ok (le_bytes 2 v)"
definition put_u32 :: "u32 putter" where "put_u32 v = Ok (le_bytes 4 v)"
definition put_u64 :: "u64 putter" where "put_u64 v = Ok (le_bytes 8 v)"
definition put_bool :: "bool putter" where "put_bool v = Ok [if v then 1 else 0]"
definition put_raw :: "bytes putter" where "put_raw v = Ok v"

definition put_vec :: "nat \<Rightarrow> string \<Rightarrow> bytes putter" where
  "put_vec mx name v =
     (if length v > mx then Err (BoundExceeded name)
      else Ok (le_bytes 4 (of_nat (length v) :: u32) @ v))"

text \<open>Two writes in sequence.\<close>

definition cat :: "(wire_error, bytes) res \<Rightarrow> (wire_error, bytes) res \<Rightarrow> (wire_error, bytes) res" where
  "cat a b = and_then a (\<lambda>x. and_then b (\<lambda>y. Ok (x @ y)))"

fun put_each :: "'a putter \<Rightarrow> 'a list putter" where
  "put_each put [] = Ok []"
| "put_each put (x # xs) = cat (put x) (put_each put xs)"

definition put_count :: "'a list \<Rightarrow> (wire_error, bytes) res" where
  "put_count xs = put_u32 (of_nat (length xs))"

definition put_option :: "'a putter \<Rightarrow> 'a option putter" where
  "put_option put v = (case v of None \<Rightarrow> put_u8 0 | Some x \<Rightarrow> cat (put_u8 1) (put x))"

definition rd_option :: "'a getter \<Rightarrow> 'a option getter" where
  "rd_option get = st_then rd_u8 (\<lambda>n.
     if n = 0 then st_return (Ok None)
     else if n = 1 then st_then get (\<lambda>x. st_return (Ok (Some x)))
     else st_return (Err (UnknownDiscriminant ''Option'' (ucast n))))"

section \<open>Codes\<close>

definition flexible :: "string \<Rightarrow> ('w::len word \<Rightarrow> 'a option) \<Rightarrow> 'w word getter \<Rightarrow> 'a getter" where
  "flexible name from get = st_then get (\<lambda>raw.
     st_return (ok_or (from raw) (UnknownDiscriminant name (ucast raw))))"

definition dec_scan_error :: "u32 \<Rightarrow> (wire_error, scan_error_code) res" where
  "dec_scan_error n =
     (if n = 1 then Ok NotSupported else if n = 2 then Ok InternalError else if n = 3 then Ok InternalMlmeError
      else if n = 4 then Ok ShouldWait else if n = 5 then Ok CanceledByDriverOrFirmware
      else Err (UnknownDiscriminant ''ScanErrorCode'' (ucast n)))"

definition dec_scan_type :: "u32 \<Rightarrow> (wire_error, scan_type) res" where
  "dec_scan_type n =
     (if n = 1 then Ok ScanActive else if n = 2 then Ok ScanPassive
      else Err (UnknownDiscriminant ''ScanType'' (ucast n)))"

definition dec_disconnect_reason :: "u32 \<Rightarrow> (wire_error, user_disconnect_reason) res" where
  "dec_disconnect_reason n =
     (if n = 0 then Ok ReasonUnknown else if n = 1 then Ok FailedToConnect
      else if n = 2 then Ok FidlConnectRequest else if n = 3 then Ok FidlStopClientConnectionsRequest
      else if n = 4 then Ok ProactiveNetworkSwitch else if n = 5 then Ok DisconnectDetectedFromSme
      else if n = 6 then Ok RegulatoryRegionChange else if n = 7 then Ok Startup
      else if n = 8 then Ok NetworkUnsaved else if n = 9 then Ok NetworkConfigUpdated
      else if n = 10 then Ok Recovery else if n = 124 then Ok WlanstackUnitTesting
      else if n = 125 then Ok WlanSmeUnitTesting else if n = 126 then Ok WlanServiceUtilTesting
      else if n = 127 then Ok WlanDevTool
      else Err (UnknownDiscriminant ''UserDisconnectReason'' (ucast n)))"

definition dec_mlme_event :: "u32 \<Rightarrow> (wire_error, disconnect_mlme_event_name) res" where
  "dec_mlme_event n =
     (if n = 1 then Ok DeauthenticateIndication else if n = 2 then Ok DisassociateIndication
      else if n = 3 then Ok RoamStartIndication else if n = 4 then Ok RoamResultIndication
      else if n = 5 then Ok SaeHandshakeResponse else if n = 6 then Ok RoamRequestEvent
      else if n = 7 then Ok RoamConfirmation
      else Err (UnknownDiscriminant ''DisconnectMlmeEventName'' (ucast n)))"

definition command_reply_u8 :: "command_reply \<Rightarrow> u8" where
  "command_reply_u8 v = (case v of Success \<Rightarrow> 1 | Busy \<Rightarrow> 2 | NotConnected \<Rightarrow> 3 | Unsupported_reply \<Rightarrow> 4)"

definition dec_command_reply :: "u8 \<Rightarrow> (wire_error, command_reply) res" where
  "dec_command_reply n =
     (if n = 1 then Ok Success else if n = 2 then Ok Busy else if n = 3 then Ok NotConnected
      else if n = 4 then Ok Unsupported_reply else Err (UnknownDiscriminant ''CommandReply'' (ucast n)))"

definition generation_end :: "generation_end_reason \<Rightarrow> u8" where
  "generation_end v =
     (case v of Shutdown \<Rightarrow> 1 | Timeout \<Rightarrow> 2 | DriverFault \<Rightarrow> 3 | ContainmentFault \<Rightarrow> 4 | Backpressure \<Rightarrow> 5
      | ProtocolViolation \<Rightarrow> 6)"

definition dec_generation_end :: "u8 \<Rightarrow> (wire_error, generation_end_reason) res" where
  "dec_generation_end n =
     (if n = 1 then Ok Shutdown else if n = 2 then Ok Timeout else if n = 3 then Ok DriverFault
      else if n = 4 then Ok ContainmentFault else if n = 5 then Ok Backpressure
      else if n = 6 then Ok ProtocolViolation
      else Err (UnknownDiscriminant ''GenerationEndReason'' (ucast n)))"

definition power_save_u8 :: "power_save_mode \<Rightarrow> u8" where
  "power_save_u8 v = (case v of Performance \<Rightarrow> 0 | Balanced \<Rightarrow> 1)"

definition dec_power_save :: "u8 \<Rightarrow> (wire_error, power_save_mode) res" where
  "dec_power_save n =
     (if n = 0 then Ok Performance else if n = 1 then Ok Balanced
      else Err (UnknownDiscriminant ''PowerSaveMode'' (ucast n)))"

text \<open>A code read with a decoder of its primitive.\<close>

definition coded :: "'w getter \<Rightarrow> ('w \<Rightarrow> (wire_error, 'a) res) \<Rightarrow> 'a getter" where
  "coded get dec = st_then get (\<lambda>n. st_return (dec n))"

section \<open>Structures\<close>

definition enc_channel :: "channel_number putter" where
  "enc_channel c = cat (put_u8 (band_bits (cn_band c))) (put_u8 (cn_number c))"

definition dec_channel :: "channel_number getter" where
  "dec_channel =
     st_then (flexible ''WlanBand'' band_from_primitive rd_u8) (\<lambda>band.
     st_then rd_u8 (\<lambda>number. st_return (Ok \<lparr>cn_band = band, cn_number = number\<rparr>)))"

definition enc_bss :: "bss_description putter" where
  "enc_bss b =
     cat (put_raw (bd_bssid b))
     (cat (put_u32 (bss_type_bits (bd_bss_type b)))
     (cat (put_u16 (bd_beacon_period b))
     (cat (put_u16 (bd_capability_info b))
     (cat (put_vec MAX_BSS_IE_LEN ''BSS IEs'' (bd_ies b))
     (cat (enc_channel (bd_primary b))
     (cat (put_u32 (bandwidth_bits (bd_bandwidth b)))
     (cat (enc_channel (bd_vht_secondary_80_channel b))
     (cat (put_u8 (bd_rssi_dbm b)) (put_u8 (bd_snr_db b))))))))))"

definition dec_bss :: "bss_description getter" where
  "dec_bss =
     st_then (rd_take 6) (\<lambda>bssid.
     st_then (flexible ''BssType'' bss_type_from_primitive rd_u32) (\<lambda>bss_type.
     st_then rd_u16 (\<lambda>beacon_period.
     st_then rd_u16 (\<lambda>capability_info.
     st_then (rd_vec MAX_BSS_IE_LEN ''BSS IEs'') (\<lambda>ies.
     st_then dec_channel (\<lambda>primary.
     st_then (flexible ''ChannelBandwidth'' bandwidth_from_primitive rd_u32) (\<lambda>bandwidth.
     st_then dec_channel (\<lambda>vht_secondary_80_channel.
     st_then rd_u8 (\<lambda>rssi_dbm.
     st_then rd_u8 (\<lambda>snr_db.
       st_return (Ok \<lparr>bd_bssid = bssid, bd_bss_type = bss_type, bd_beacon_period = beacon_period,
         bd_capability_info = capability_info, bd_ies = ies, bd_primary = primary,
         bd_bandwidth = bandwidth, bd_vht_secondary_80_channel = vht_secondary_80_channel,
         bd_rssi_dbm = rssi_dbm, bd_snr_db = snr_db\<rparr>)))))))))))"

definition enc_credentials :: "credentials putter" where
  "enc_credentials c =
     (case c of
        Wep key \<Rightarrow> cat (put_u8 1) (put_vec 32 ''WEP key'' key)
      | Wpa (Psk psk) \<Rightarrow> cat (put_u8 2) (put_raw psk)
      | Wpa (Passphrase p) \<Rightarrow> cat (put_u8 3) (put_vec 63 ''WPA passphrase'' p)
      | Wpa (WpaUnknown _ _) \<Rightarrow> Err (InvalidValue ''unknown credentials union'')
      | CredentialsUnknown _ _ \<Rightarrow> Err (InvalidValue ''unknown credentials union''))"

definition dec_credentials :: "credentials getter" where
  "dec_credentials = st_then rd_u8 (\<lambda>n.
     if n = 1 then st_then (rd_vec 32 ''WEP key'') (\<lambda>key. st_return (Ok (Wep key)))
     else if n = 2 then st_then (rd_take 32) (\<lambda>psk. st_return (Ok (Wpa (Psk psk))))
     else if n = 3 then st_then (rd_vec 63 ''WPA passphrase'') (\<lambda>p. st_return (Ok (Wpa (Passphrase p))))
     else st_return (Err (UnknownDiscriminant ''Credentials'' (ucast n))))"

definition enc_auth :: "authentication putter" where
  "enc_auth v =
     cat (put_u32 (protocol_bits (au_protocol v)))
       (case au_credentials v of None \<Rightarrow> put_u8 0 | Some c \<Rightarrow> cat (put_u8 1) (enc_credentials c))"

definition dec_auth :: "authentication getter" where
  "dec_auth =
     st_then (flexible ''Protocol'' protocol_from_primitive rd_u32) (\<lambda>protocol.
     st_then (st_then rd_u8 (\<lambda>n.
        if n = 0 then st_return (Ok None)
        else if n = 1 then st_then dec_credentials (\<lambda>c. st_return (Ok (Some c)))
        else st_return (Err (UnknownDiscriminant ''Option<Credentials>'' (ucast n))))) (\<lambda>credentials.
       st_return (Ok \<lparr>au_protocol = protocol, au_credentials = credentials\<rparr>)))"

definition enc_connect :: "connect_request putter" where
  "enc_connect v =
     cat (put_vec 32 ''SSID'' (cq_ssid v))
     (cat (enc_bss (cq_bss_description v))
     (cat (put_bool (cq_multiple_bss_candidates v))
     (cat (enc_auth (cq_authentication v))
     (put_u32 (scan_type_u32 (cq_deprecated_scan_type v))))))"

definition dec_connect :: "connect_request getter" where
  "dec_connect =
     st_then (rd_vec 32 ''SSID'') (\<lambda>ssid.
     st_then dec_bss (\<lambda>bss_description.
     st_then rd_bool (\<lambda>multiple_bss_candidates.
     st_then dec_auth (\<lambda>authentication.
     st_then (coded rd_u32 dec_scan_type) (\<lambda>scan_type.
       st_return (Ok \<lparr>cq_ssid = ssid, cq_bss_description = bss_description,
         cq_multiple_bss_candidates = multiple_bss_candidates, cq_authentication = authentication,
         cq_deprecated_scan_type = scan_type\<rparr>))))))"

definition enc_reply :: "'a putter \<Rightarrow> 'a reply putter" where
  "enc_reply encode_result r =
     (if re_in_reply_to r = 0 then Err ZeroRequestId
      else cat (put_u64 (re_in_reply_to r)) (encode_result (re_result r)))"

definition dec_reply :: "'a getter \<Rightarrow> 'a reply getter" where
  "dec_reply decode_result = st_then rd_u64 (\<lambda>i.
     if i = 0 then st_return (Err ZeroRequestId)
     else st_then decode_result (\<lambda>x. st_return (Ok \<lparr>re_in_reply_to = i, re_result = x\<rparr>)))"

definition enc_scan :: "scan_request putter" where
  "enc_scan v =
     (case v of
        ActiveScan ssids channels \<Rightarrow>
          cat (put_u8 1) (cat (put_count ssids) (cat (put_each (put_vec 32 ''SSID'') ssids)
            (put_vec 256 ''scan channels'' channels)))
      | PassiveScan channels \<Rightarrow> cat (put_u8 2) (put_vec 256 ''scan channels'' channels))"

definition dec_scan :: "scan_request getter" where
  "dec_scan = st_then rd_u8 (\<lambda>n.
     if n = 1 then
       st_then rd_u32 (\<lambda>count.
         if unat count > 84 then st_return (Err (BoundExceeded ''scan SSIDs''))
         else st_then (rd_times (unat count) (rd_vec 32 ''SSID'')) (\<lambda>ssids.
              st_then (rd_vec 256 ''scan channels'') (\<lambda>channels. st_return (Ok (ActiveScan ssids channels)))))
     else if n = 2 then
       st_then (rd_vec 256 ''scan channels'') (\<lambda>channels. st_return (Ok (PassiveScan channels)))
     else st_return (Err (UnknownDiscriminant ''ScanRequest'' (ucast n))))"

definition enc_protocol :: "protocol putter" where
  "enc_protocol p = put_u32 (protocol_bits p)"

definition enc_disjoint :: "disjoint_security_protocol putter" where
  "enc_disjoint v = cat (put_u32 (protocol_bits (ds_protocol v))) (put_u32 (mac_role_bits (ds_role v)))"

definition dec_disjoint :: "disjoint_security_protocol getter" where
  "dec_disjoint =
     st_then (flexible ''Protocol'' protocol_from_primitive rd_u32) (\<lambda>protocol.
     st_then (flexible ''WlanMacRole'' mac_role_from_primitive rd_u32) (\<lambda>role.
       st_return (Ok \<lparr>ds_protocol = protocol, ds_role = role\<rparr>)))"

definition enc_compatibility :: "compatibility putter" where
  "enc_compatibility c =
     (case c of
        Compatible ps \<Rightarrow> cat (put_u8 1) (cat (put_count ps) (put_each enc_protocol ps))
      | Incompatible description disjoint \<Rightarrow>
          cat (put_u8 2) (cat (put_vec MAX_PACKET ''compatibility description'' description)
            (case disjoint of None \<Rightarrow> put_u8 0
             | Some vs \<Rightarrow> cat (put_u8 1) (cat (put_count vs) (put_each enc_disjoint vs)))))"

definition dec_counted :: "nat \<Rightarrow> string \<Rightarrow> 'a getter \<Rightarrow> 'a list getter" where
  "dec_counted limit name get = st_then rd_u32 (\<lambda>count.
     if unat count > limit then st_return (Err (BoundExceeded name)) else rd_times (unat count) get)"

definition dec_compatibility :: "compatibility getter" where
  "dec_compatibility = st_then rd_u8 (\<lambda>n.
     if n = 1 then
       st_then (dec_counted (MAX_PACKET div 4) ''security protocols''
                 (flexible ''Protocol'' protocol_from_primitive rd_u32)) (\<lambda>ps. st_return (Ok (Compatible ps)))
     else if n = 2 then
       st_then (rd_vec MAX_PACKET ''compatibility description'') (\<lambda>bs.
         if \<not> utf8_valid bs then st_return (Err (InvalidValue ''compatibility description UTF-8''))
         else st_then (rd_option (dec_counted (MAX_PACKET div 8) ''disjoint protocols'' dec_disjoint)) (\<lambda>disjoint.
                st_return (Ok (Incompatible bs disjoint))))
     else st_return (Err (UnknownDiscriminant ''Compatibility'' (ucast n))))"

definition enc_scan_result :: "scan_result putter" where
  "enc_scan_result v =
     cat (enc_compatibility (sc_compatibility v))
     (cat (put_u64 (sc_timestamp_nanos v)) (enc_bss (sc_bss_description v)))"

definition dec_scan_result :: "scan_result getter" where
  "dec_scan_result =
     st_then dec_compatibility (\<lambda>compatibility.
     st_then rd_u64 (\<lambda>timestamp_nanos.
     st_then dec_bss (\<lambda>bss_description.
       st_return (Ok \<lparr>sc_compatibility = compatibility, sc_timestamp_nanos = timestamp_nanos,
                     sc_bss_description = bss_description\<rparr>))))"

definition enc_scan_reply :: "(scan_error_code + scan_result list) putter" where
  "enc_scan_reply v =
     (case v of
        Inr results \<Rightarrow> cat (put_u8 1) (cat (put_count results) (put_each enc_scan_result results))
      | Inl error \<Rightarrow> cat (put_u8 2) (put_u32 (scan_error_u32 error)))"

definition dec_scan_reply :: "(scan_error_code + scan_result list) getter" where
  "dec_scan_reply = st_then rd_u8 (\<lambda>n.
     if n = 1 then
       st_then (dec_counted MAX_PACKET ''scan results'' dec_scan_result) (\<lambda>results. st_return (Ok (Inr results)))
     else if n = 2 then st_then (coded rd_u32 dec_scan_error) (\<lambda>error. st_return (Ok (Inl error)))
     else st_return (Err (UnknownDiscriminant ''ScanReply'' (ucast n))))"

definition enc_connect_result :: "connect_result putter" where
  "enc_connect_result v =
     cat (put_u16 (status_bits (cr_code v)))
     (cat (put_bool (cr_is_credential_rejected v)) (put_bool (cr_is_reconnect v)))"

definition dec_connect_result :: "connect_result getter" where
  "dec_connect_result =
     st_then (flexible ''StatusCode'' status_from_primitive rd_u16) (\<lambda>code.
     st_then rd_bool (\<lambda>rejected.
     st_then rd_bool (\<lambda>reconnect.
       st_return (Ok \<lparr>cr_code = code, cr_is_credential_rejected = rejected, cr_is_reconnect = reconnect\<rparr>))))"

definition enc_connect_reply :: "connect_reply putter" where
  "enc_connect_reply v = (case v of Completed r \<Rightarrow> cat (put_u8 1) (enc_connect_result r))"

definition dec_connect_reply :: "connect_reply getter" where
  "dec_connect_reply = st_then rd_u8 (\<lambda>n.
     if n = 1 then st_then dec_connect_result (\<lambda>r. st_return (Ok (Completed r)))
     else st_return (Err (UnknownDiscriminant ''ConnectReply'' (ucast n))))"

definition enc_cause :: "disconnect_cause putter" where
  "enc_cause c =
     cat (put_u32 (mlme_event_u32 (dc_mlme_event_name c))) (put_u16 (reason_bits (dc_reason_code c)))"

definition dec_cause :: "disconnect_cause getter" where
  "dec_cause =
     st_then (coded rd_u32 dec_mlme_event) (\<lambda>event.
     st_then (flexible ''ReasonCode'' reason_from_primitive rd_u16) (\<lambda>reason.
       st_return (Ok \<lparr>dc_mlme_event_name = event, dc_reason_code = reason\<rparr>)))"

definition enc_disconnect_source :: "disconnect_source putter" where
  "enc_disconnect_source v =
     (case v of
        SourceAp c \<Rightarrow> cat (put_u8 1) (enc_cause c)
      | SourceUser r \<Rightarrow> cat (put_u8 2) (put_u32 (user_disconnect_reason_u32 r))
      | SourceMlme c \<Rightarrow> cat (put_u8 3) (enc_cause c))"

definition dec_disconnect_source :: "disconnect_source getter" where
  "dec_disconnect_source = st_then rd_u8 (\<lambda>n.
     if n = 1 then st_then dec_cause (\<lambda>c. st_return (Ok (SourceAp c)))
     else if n = 2 then st_then (coded rd_u32 dec_disconnect_reason) (\<lambda>r. st_return (Ok (SourceUser r)))
     else if n = 3 then st_then dec_cause (\<lambda>c. st_return (Ok (SourceMlme c)))
     else st_return (Err (UnknownDiscriminant ''DisconnectSource'' (ucast n))))"

definition enc_disconnect_info :: "disconnect_info putter" where
  "enc_disconnect_info v =
     cat (put_bool (di_is_sme_reconnecting v)) (enc_disconnect_source (di_disconnect_source v))"

definition dec_disconnect_info :: "disconnect_info getter" where
  "dec_disconnect_info =
     st_then rd_bool (\<lambda>reconnecting.
     st_then dec_disconnect_source (\<lambda>source.
       st_return (Ok \<lparr>di_is_sme_reconnecting = reconnecting, di_disconnect_source = source\<rparr>)))"

definition enc_roam_result :: "roam_result putter" where
  "enc_roam_result v =
     cat (put_raw (rr_bssid v))
     (cat (put_u16 (status_bits (rr_status_code v)))
     (cat (put_bool (rr_original_association_maintained v))
     (cat (put_option enc_bss (rr_bss_description v))
     (cat (put_option enc_disconnect_info (rr_disconnect_info v))
     (put_bool (rr_is_credential_rejected v))))))"

definition dec_roam_result :: "roam_result getter" where
  "dec_roam_result =
     st_then (rd_take 6) (\<lambda>bssid.
     st_then (flexible ''StatusCode'' status_from_primitive rd_u16) (\<lambda>status_code.
     st_then rd_bool (\<lambda>maintained.
     st_then (rd_option dec_bss) (\<lambda>bss_description.
     st_then (rd_option dec_disconnect_info) (\<lambda>disconnect_info.
     st_then rd_bool (\<lambda>rejected.
       st_return (Ok \<lparr>rr_bssid = bssid, rr_status_code = status_code,
         rr_original_association_maintained = maintained, rr_bss_description = bss_description,
         rr_disconnect_info = disconnect_info, rr_is_credential_rejected = rejected\<rparr>)))))))"

definition enc_signal :: "signal_report_indication putter" where
  "enc_signal ind = cat (put_u8 (sr_rssi_dbm ind)) (put_u8 (sr_snr_db ind))"

definition dec_signal :: "signal_report_indication getter" where
  "dec_signal = st_then rd_u8 (\<lambda>rssi_dbm. st_then rd_u8 (\<lambda>snr_db.
     st_return (Ok \<lparr>sr_rssi_dbm = rssi_dbm, sr_snr_db = snr_db\<rparr>)))"

definition enc_channel_switch :: "channel_switch_info putter" where
  "enc_channel_switch info =
     cat (enc_channel (cs_new_primary_channel info))
     (cat (put_u32 (bandwidth_bits (cs_bandwidth info))) (enc_channel (cs_vht_secondary_80_channel info)))"

definition dec_channel_switch :: "channel_switch_info getter" where
  "dec_channel_switch =
     st_then dec_channel (\<lambda>primary.
     st_then (flexible ''ChannelBandwidth'' bandwidth_from_primitive rd_u32) (\<lambda>bandwidth.
     st_then dec_channel (\<lambda>secondary.
       st_return (Ok \<lparr>cs_new_primary_channel = primary, cs_bandwidth = bandwidth,
                     cs_vht_secondary_80_channel = secondary\<rparr>))))"

definition enc_event :: "connect_transaction_event putter" where
  "enc_event v =
     (case v of
        OnConnectResult result \<Rightarrow> cat (put_u8 1) (enc_connect_result result)
      | OnDisconnect info \<Rightarrow> cat (put_u8 2) (enc_disconnect_info info)
      | OnRoamResult result \<Rightarrow> cat (put_u8 3) (enc_roam_result result)
      | OnSignalReport ind \<Rightarrow> cat (put_u8 4) (enc_signal ind)
      | OnChannelSwitched info \<Rightarrow> cat (put_u8 5) (enc_channel_switch info))"

definition dec_event :: "connect_transaction_event getter" where
  "dec_event = st_then rd_u8 (\<lambda>n.
     if n = 1 then st_then dec_connect_result (\<lambda>x. st_return (Ok (OnConnectResult x)))
     else if n = 2 then st_then dec_disconnect_info (\<lambda>x. st_return (Ok (OnDisconnect x)))
     else if n = 3 then st_then dec_roam_result (\<lambda>x. st_return (Ok (OnRoamResult x)))
     else if n = 4 then st_then dec_signal (\<lambda>x. st_return (Ok (OnSignalReport x)))
     else if n = 5 then st_then dec_channel_switch (\<lambda>x. st_return (Ok (OnChannelSwitched x)))
     else st_return (Err (UnknownDiscriminant ''ConnectTransactionEvent'' (ucast n))))"

section \<open>Messages and packets\<close>

definition READY :: u16 where "READY = 1"
definition CONNECT :: u16 where "CONNECT = 2"
definition CONNECT_REPLY :: u16 where "CONNECT_REPLY = 3"
definition DISCONNECT :: u16 where "DISCONNECT = 4"
definition DISCONNECT_REPLY :: u16 where "DISCONNECT_REPLY = 5"
definition ROAM :: u16 where "ROAM = 6"
definition ROAM_REPLY :: u16 where "ROAM_REPLY = 7"
definition EVENT :: u16 where "EVENT = 8"
definition GENERATION_END :: u16 where "GENERATION_END = 9"
definition SCAN :: u16 where "SCAN = 11"
definition SCAN_REPLY :: u16 where "SCAN_REPLY = 12"
definition DEADLINE_EXCEEDED :: u16 where "DEADLINE_EXCEEDED = 13"
definition SET_POWER_SAVE :: u16 where "SET_POWER_SAVE = 14"
definition SET_POWER_SAVE_REPLY :: u16 where "SET_POWER_SAVE_REPLY = 15"

definition put_deadline :: "monotonic_deadline putter" where
  "put_deadline d = put_u64 (into_nanos d)"

definition rd_deadline :: "monotonic_deadline getter" where
  "rd_deadline = coded rd_u64 from_nanos"

definition put_command_reply :: "command_reply putter" where
  "put_command_reply v = put_u8 (command_reply_u8 v)"

definition encode_message :: "message \<Rightarrow> u16 \<times> (wire_error, bytes) res" where
  "encode_message m =
     (case m of
        Ready \<Rightarrow> (READY, Ok [])
      | Scan d v \<Rightarrow> (SCAN, cat (put_deadline d) (enc_scan v))
      | ScanReply v \<Rightarrow> (SCAN_REPLY, enc_reply enc_scan_reply v)
      | Connect d v \<Rightarrow> (CONNECT, cat (put_deadline d) (enc_connect v))
      | ConnectReply v \<Rightarrow> (CONNECT_REPLY, enc_reply enc_connect_reply v)
      | Disconnect d v \<Rightarrow> (DISCONNECT, cat (put_deadline d) (put_u32 (user_disconnect_reason_u32 v)))
      | DisconnectReply v \<Rightarrow> (DISCONNECT_REPLY, enc_reply put_command_reply v)
      | Roam d v \<Rightarrow> (ROAM, cat (put_deadline d) (enc_bss v))
      | RoamReply v \<Rightarrow> (ROAM_REPLY, enc_reply put_command_reply v)
      | SetPowerSave d v \<Rightarrow> (SET_POWER_SAVE, cat (put_deadline d) (put_u8 (power_save_u8 v)))
      | SetPowerSaveReply v \<Rightarrow> (SET_POWER_SAVE_REPLY, enc_reply put_command_reply v)
      | Event v \<Rightarrow> (EVENT, enc_event v)
      | DeadlineExceeded v \<Rightarrow> (DEADLINE_EXCEEDED, enc_reply (\<lambda>_. Ok []) v)
      | GenerationEnd v \<Rightarrow> (GENERATION_END, put_u8 (generation_end v)))"

definition decode_message :: "u16 \<Rightarrow> message getter" where
  "decode_message kind =
     (if kind = READY then st_return (Ok Ready)
      else if kind = SCAN then st_then rd_deadline (\<lambda>d. st_then dec_scan (\<lambda>v. st_return (Ok (Scan d v))))
      else if kind = SCAN_REPLY then st_then (dec_reply dec_scan_reply) (\<lambda>v. st_return (Ok (ScanReply v)))
      else if kind = CONNECT then st_then rd_deadline (\<lambda>d. st_then dec_connect (\<lambda>v. st_return (Ok (Connect d v))))
      else if kind = CONNECT_REPLY then st_then (dec_reply dec_connect_reply) (\<lambda>v. st_return (Ok (ConnectReply v)))
      else if kind = DISCONNECT then
        st_then rd_deadline (\<lambda>d. st_then (coded rd_u32 dec_disconnect_reason) (\<lambda>v. st_return (Ok (Disconnect d v))))
      else if kind = DISCONNECT_REPLY then
        st_then (dec_reply (coded rd_u8 dec_command_reply)) (\<lambda>v. st_return (Ok (DisconnectReply v)))
      else if kind = ROAM then st_then rd_deadline (\<lambda>d. st_then dec_bss (\<lambda>v. st_return (Ok (Roam d v))))
      else if kind = ROAM_REPLY then
        st_then (dec_reply (coded rd_u8 dec_command_reply)) (\<lambda>v. st_return (Ok (RoamReply v)))
      else if kind = SET_POWER_SAVE then
        st_then rd_deadline (\<lambda>d. st_then (coded rd_u8 dec_power_save) (\<lambda>v. st_return (Ok (SetPowerSave d v))))
      else if kind = SET_POWER_SAVE_REPLY then
        st_then (dec_reply (coded rd_u8 dec_command_reply)) (\<lambda>v. st_return (Ok (SetPowerSaveReply v)))
      else if kind = EVENT then st_then dec_event (\<lambda>v. st_return (Ok (Event v)))
      else if kind = GENERATION_END then st_then (coded rd_u8 dec_generation_end) (\<lambda>v. st_return (Ok (GenerationEnd v)))
      else if kind = DEADLINE_EXCEEDED then
        st_then (dec_reply (st_return (Ok ()))) (\<lambda>v. st_return (Ok (DeadlineExceeded v)))
      else st_return (Err (UnknownKind kind)))"

definition encode :: "packet \<Rightarrow> (wire_error, bytes) res" where
  "encode p =
     (if pk_request_id p = 0 then Err ZeroRequestId
      else let (kind, encoded) = encode_message (pk_message p) in
      and_then encoded (\<lambda>body.
      and_then (ok_or (checked_add HEADER_LEN (length body)) PacketTooLarge) (\<lambda>total.
        if total > MAX_PACKET then Err PacketTooLarge
        else Ok (MAGIC @ le_bytes 2 VERSION @ le_bytes 2 kind @ le_bytes 4 (of_nat (length body) :: u32)
                 @ pk_generation p @ le_bytes 8 (pk_request_id p) @ body))))"

text \<open>The header fields behind the magic number, in their order.\<close>

definition rd_header :: "(u16 \<times> u16 \<times> u32 \<times> bytes \<times> u64) getter" where
  "rd_header =
     st_then rd_u16 (\<lambda>version.
       if version \<noteq> VERSION then st_return (Err (UnsupportedVersion version))
       else st_then rd_u16 (\<lambda>kind.
            st_then rd_u32 (\<lambda>body_len.
            st_then (rd_take 16) (\<lambda>generation.
            st_then rd_u64 (\<lambda>request_id. st_return (Ok (version, kind, body_len, generation, request_id)))))))"

definition decode :: "bytes \<Rightarrow> (wire_error, packet) res" where
  "decode bs =
     (if length bs > MAX_PACKET then Err PacketTooLarge
      else if length bs < HEADER_LEN then Err Truncated
      else if take 4 bs \<noteq> MAGIC then Err BadMagic
      else and_then (slice 4 HEADER_LEN bs) (\<lambda>header.
      and_then (fst (rd_header (reader_new header))) (\<lambda>(version, kind, body_len, generation, request_id).
        if request_id = 0 then Err ZeroRequestId
        else if unat body_len \<noteq> length bs - HEADER_LEN then Err InvalidLength
        else and_then (slice HEADER_LEN (length bs) bs) (\<lambda>body.
          let (m, r) = decode_message kind (reader_new body) in
          and_then m (\<lambda>message.
            if \<not> rd_done r then Err TrailingBytes
            else Ok \<lparr>pk_generation = generation, pk_request_id = request_id, pk_message = message\<rparr>)))))"

end
