(* ===== verification/Wlan_Control_Fields.thy ===== *)
theory Wlan_Control_Fields
  imports Wlan_Control_Wire
begin

text \<open>
  The policy packet format is canonical. The interface \<open>field_codec\<close> states what an encoder and a
  decoder of one field promise each other; lemmas show how it passes to sequences, alternatives,
  lists and codes, and every structure of the format is an interpretation of it.
\<close>

section \<open>Fields\<close>

definition reader_wf :: "reader \<Rightarrow> bool" where
  "reader_wf r \<longleftrightarrow> rd_pos r \<le> length (rd_bytes r) \<and> length (rd_bytes r) \<le> USIZE_MAX"

text \<open>The bytes \<open>bs\<close> stand between the positions of two readers of the same slice.\<close>

definition reads :: "reader \<Rightarrow> bytes \<Rightarrow> reader \<Rightarrow> bool" where
  "reads r bs r' \<longleftrightarrow> reader_wf r \<and> reader_wf r' \<and> rd_bytes r' = rd_bytes r \<and> rd_pos r' = rd_pos r + length bs
     \<and> take (length bs) (drop (rd_pos r) (rd_bytes r)) = bs"

lemma reads_wf: "reads r bs r' \<Longrightarrow> reader_wf r" "reads r bs r' \<Longrightarrow> reader_wf r'"
  unfolding reads_def by blast+

lemma reads_det: "reads r bs r1 \<Longrightarrow> reads r bs r2 \<Longrightarrow> r1 = r2"
  unfolding reads_def by (rule reader.equality) simp_all

lemma reads_refl: "reader_wf r \<Longrightarrow> reads r [] r"
  by (simp add: reads_def)

lemma reads_NilD: "reads r [] r' \<Longrightarrow> r' = r"
  using reads_det reads_refl reads_wf(1) by blast

lemma reads_append: "reads r (a @ b) r' \<longleftrightarrow> (\<exists>r1. reads r a r1 \<and> reads r1 b r')"
proof
  assume h: "reads r (a @ b) r'"
  let ?r1 = "r\<lparr>rd_pos := rd_pos r + length a\<rparr>"
  have e: "take (length a) (drop (rd_pos r) (rd_bytes r))
      @ take (length b) (drop (rd_pos r + length a) (rd_bytes r)) = a @ b"
    using h by (simp add: reads_def take_add add.commute)
  have "length (take (length a) (drop (rd_pos r) (rd_bytes r))) = length a"
    using h by (auto simp: reads_def reader_wf_def min_def)
  with e have s: "take (length a) (drop (rd_pos r) (rd_bytes r)) = a"
    "take (length b) (drop (rd_pos r + length a) (rd_bytes r)) = b"
    by (simp_all add: append_eq_append_conv)
  then have "reads r a ?r1" "reads ?r1 b r'"
    using h by (auto simp: reads_def reader_wf_def)
  then show "\<exists>r1. reads r a r1 \<and> reads r1 b r'" by blast
next
  assume "\<exists>r1. reads r a r1 \<and> reads r1 b r'"
  then obtain r1 where 1: "reads r a r1" "reads r1 b r'" by blast
  then have "take (length a + length b) (drop (rd_pos r) (rd_bytes r)) = a @ b"
    by (simp add: reads_def take_add add.commute)
  then show "reads r (a @ b) r'"
    using 1 by (simp add: reads_def)
qed

locale field_codec =
  fixes put :: "'a putter" and get :: "'a getter" and ok :: "'a \<Rightarrow> bool"
  assumes get_put: "ok x \<Longrightarrow> put x = Ok bs \<Longrightarrow> reads r bs r' \<Longrightarrow> get r = (Ok x, r')"
    and put_get: "reader_wf r \<Longrightarrow> get r = (Ok x, r') \<Longrightarrow> ok x \<and> (\<exists>bs. put x = Ok bs \<and> reads r bs r')"
    and get_safe: "reader_wf r \<Longrightarrow> fst (get r) \<noteq> Panic"

lemma cat_eq_Ok: "cat a b = Ok bs \<longleftrightarrow> (\<exists>x y. a = Ok x \<and> b = Ok y \<and> bs = x @ y)"
  by (auto simp: cat_def)

lemma cat_unit [simp]: "cat a (Ok []) = a"
  by (cases a) (simp_all add: cat_def)

text \<open>A different encoder that agrees on the acceptable values.\<close>

lemma codec_cong:
  assumes c: "field_codec p g ok" and "g' = g" "\<And>x. ok' x \<Longrightarrow> p' x = p x" "\<And>x. ok' x = ok x"
  shows "field_codec p' g' ok'"
proof unfold_locales
  show "g' r = (Ok x, r')" if "ok' x" "p' x = Ok bs" "reads r bs r'" for x bs r r'
    using that field_codec.get_put [OF c] assms(2-4) by metis
  show "ok' x \<and> (\<exists>bs. p' x = Ok bs \<and> reads r bs r')" if "reader_wf r" "g' r = (Ok x, r')" for r x r'
    using that field_codec.put_get [OF c] assms(2-4) by metis
  show "fst (g' r) \<noteq> Panic" if "reader_wf r" for r
    using that field_codec.get_safe [OF c] assms(2) by metis
qed

text \<open>Nothing, and a failure.\<close>

lemma codec_return: "field_codec (\<lambda>x. Ok []) (st_return (Ok c)) (\<lambda>x. x = c)"
  by unfold_locales (auto dest: reads_NilD intro: reads_refl)

lemma codec_err: "field_codec p (st_return (Err e)) (\<lambda>x. False)"
  by unfold_locales auto

text \<open>A field after which the rest depends on its value.\<close>

lemma codec_seq:
  fixes sel :: "'x \<Rightarrow> 'a"
  assumes A: "field_codec pA gA okA" and B: "\<And>a. field_codec (pB a) (gB a) (okB a)"
    and sel: "\<And>a x. okB a x \<Longrightarrow> sel x = a"
  shows "field_codec (\<lambda>x. cat (pA (sel x)) (pB (sel x) x)) (st_then gA gB)
    (\<lambda>x. okA (sel x) \<and> okB (sel x) x)"
proof unfold_locales
  fix x bs r r'
  assume ok: "okA (sel x) \<and> okB (sel x) x" and p: "cat (pA (sel x)) (pB (sel x) x) = Ok bs" and r: "reads r bs r'"
  obtain a b where ab: "pA (sel x) = Ok a" "pB (sel x) x = Ok b" "bs = a @ b"
    using p by (auto simp: cat_eq_Ok)
  then obtain r1 where r1: "reads r a r1" "reads r1 b r'"
    using r by (auto simp: reads_append)
  show "st_then gA gB r = (Ok x, r')"
    using field_codec.get_put [OF A conjunct1 [OF ok] ab(1) r1(1)]
      field_codec.get_put [OF B conjunct2 [OF ok] ab(2) r1(2)] by simp
next
  fix r x r'
  assume w: "reader_wf r" and g: "st_then gA gB r = (Ok x, r')"
  then obtain a r1 where 1: "gA r = (Ok a, r1)" "gB a r1 = (Ok x, r')"
    by (auto simp: st_then_eq_Ok)
  obtain ba where a: "okA a" "pA a = Ok ba" "reads r ba r1"
    using field_codec.put_get [OF A w 1(1)] by blast
  obtain bb where b: "okB a x" "pB a x = Ok bb" "reads r1 bb r'"
    using field_codec.put_get [OF B reads_wf(2) [OF a(3)] 1(2)] by blast
  show "(okA (sel x) \<and> okB (sel x) x) \<and> (\<exists>bs. cat (pA (sel x)) (pB (sel x) x) = Ok bs \<and> reads r bs r')"
    using a b sel [OF b(1)] by (auto simp: cat_eq_Ok reads_append)
next
  fix r assume w: "reader_wf r"
  show "fst (st_then gA gB r) \<noteq> Panic"
  proof (cases "gA r")
    case (Pair v r1)
    show ?thesis
    proof (cases v)
      case (Ok a)
      then have "reader_wf r1"
        using field_codec.put_get [OF A w] Pair reads_wf(2) by blast
      then show ?thesis
        using field_codec.get_safe [OF B] Pair Ok by simp
    qed (use Pair field_codec.get_safe [OF A w] in simp_all)
  qed
qed

lemma codec_if:
  assumes "b \<Longrightarrow> field_codec p1 g1 ok1" "\<not> b \<Longrightarrow> field_codec p2 g2 ok2"
  shows "field_codec (\<lambda>x. if b then p1 x else p2 x) (if b then g1 else g2) (\<lambda>x. if b then ok1 x else ok2 x)"
  using assms by (cases b) simp_all

text \<open>Raw bytes.\<close>

lemma codec_take: "field_codec put_raw (rd_take n) (\<lambda>v. length v = n)"
proof unfold_locales
  fix v bs r r'
  assume "length v = n" "put_raw v = Ok bs" "reads r bs r'"
  then show "rd_take n r = (Ok v, r')"
    by (cases r; cases r') (auto simp: rd_take_def put_raw_def reads_def reader_wf_def checked_add_def slice_get_def)
next
  fix r v r'
  assume "reader_wf r" "rd_take n r = (Ok v, r')"
  then show "length v = n \<and> (\<exists>bs. put_raw v = Ok bs \<and> reads r bs r')"
    by (auto simp: rd_take_def put_raw_def reads_def reader_wf_def checked_add_def slice_get_def
        split: option.splits if_splits)
qed (auto simp: rd_take_def split: option.splits)

text \<open>A value read through its representation.\<close>

lemma codec_map:
  assumes A: "field_codec p g ok" and f: "\<And>v. f v \<noteq> Panic" and inv: "\<And>v x. f v = Ok x \<Longrightarrow> num x = v"
  shows "field_codec (\<lambda>x. p (num x)) (st_then g (\<lambda>v. st_return (f v))) (\<lambda>x. ok (num x) \<and> f (num x) = Ok x)"
proof -
  have "field_codec (\<lambda>x. Ok []) (st_return (f v)) (\<lambda>x. f v = Ok x)" for v
  proof (cases "f v")
    case (Ok y)
    then have "(\<lambda>x. f v = Ok x) = (\<lambda>x. x = y)" by auto
    then show ?thesis using Ok codec_return [of y] by simp
  next
    case (Err e)
    then show ?thesis using codec_err by simp
  qed (use f in simp)
  note c = this
  have "field_codec (\<lambda>x. cat (p (num x)) (Ok [])) (st_then g (\<lambda>v. st_return (f v)))
      (\<lambda>x. ok (num x) \<and> f (num x) = Ok x)"
    by (rule codec_seq [OF A c inv])
  then show ?thesis by simp
qed

text \<open>Little-endian integers.\<close>

lemma codec_le:
  assumes "LENGTH('w) = 8 * n"
  shows "field_codec (\<lambda>v. Ok (le_bytes n v)) (st_then (rd_take n) (\<lambda>v. st_return (Ok (from_le v :: 'w::len word))))
    (\<lambda>_. True)"
proof -
  show ?thesis
  proof unfold_locales
    fix x :: "'w word" and bs r r' assume "True" "Ok (le_bytes n x) = Ok bs" "reads r bs r'"
    then show "st_then (rd_take n) (\<lambda>v. st_return (Ok (from_le v))) r = (Ok x, r')"
      using field_codec.get_put [OF codec_take, of bs n bs r r'] from_le_le_bytes [of n x] assms
      by (auto simp: put_raw_def)
  next
    fix r and x :: "'w word" and r'
    assume w: "reader_wf r" and g: "st_then (rd_take n) (\<lambda>v. st_return (Ok (from_le v))) r = (Ok x, r')"
    then obtain bs where 1: "rd_take n r = (Ok bs, r')" "x = from_le bs"
      by (auto simp: st_then_eq_Ok)
    then have "length bs = n" "reads r bs r'"
      using field_codec.put_get [OF codec_take w 1(1)] by (auto simp: put_raw_def)
    then show "True \<and> (\<exists>bs. Ok (le_bytes n x) = Ok bs \<and> reads r bs r')"
      using le_bytes_from_le [of bs, where 'w = 'w] assms 1(2) by auto
  next
    fix r assume "reader_wf r"
    then show "fst (st_then (rd_take n) (\<lambda>v. st_return (Ok (from_le v :: 'w word))) r) \<noteq> Panic"
      using field_codec.get_safe [OF codec_take, of r n] by (auto simp: st_then_def split: prod.splits res.splits)
  qed
qed

interpretation u16_field: field_codec put_u16 rd_u16 "\<lambda>_. True"
  by (rule codec_cong [OF codec_le [of 2]]) (simp_all add: put_u16_def rd_u16_def)

interpretation u32_field: field_codec put_u32 rd_u32 "\<lambda>_. True"
  by (rule codec_cong [OF codec_le [of 4]]) (simp_all add: put_u32_def rd_u32_def)

interpretation u64_field: field_codec put_u64 rd_u64 "\<lambda>_. True"
  by (rule codec_cong [OF codec_le [of 8]]) (simp_all add: put_u64_def rd_u64_def)

interpretation u8_field: field_codec put_u8 rd_u8 "\<lambda>_. True"
proof (rule codec_cong [OF codec_le [of 1]])
  show "put_u8 x = Ok (le_bytes 1 x)" for x by (simp add: put_u8_def)
  show "rd_u8 = st_then (rd_take 1) (\<lambda>v. st_return (Ok (from_le v)))"
  proof (rule ext)
    fix r
    have "length v = 1" if "rd_take 1 r = (Ok v, r')" for v r'
      using that by (auto simp: rd_take_def slice_get_def split: option.splits if_splits)
    moreover have "index v 0 = Ok (from_le v :: u8)" if "length v = 1" for v
      using that by (cases v) (auto simp: index_def)
    ultimately show "rd_u8 r = st_then (rd_take 1) (\<lambda>v. st_return (Ok (from_le v))) r"
      by (auto simp: rd_u8_def st_then_def split: prod.splits res.splits)
  qed
qed simp_all

interpretation bool_field: field_codec put_bool rd_bool "\<lambda>_. True"
  unfolding rd_bool_def
  by (rule codec_cong [OF codec_map [OF u8_field.field_codec_axioms, where num = "\<lambda>b. if b then 1 else 0"]])
    (auto simp: put_bool_def put_u8_def split: if_splits)

section \<open>Vectors, lists and options\<close>

lemma of_nat_length_u32:
  assumes "unat (a :: u32) = length xs"
  shows "of_nat (length xs) = a"
proof -
  have "of_nat (length xs) = (of_nat (unat a) :: u32)" using assms by simp
  also have "\<dots> = a" by simp
  finally show ?thesis .
qed

lemma u32_of_nat: "n < 2 ^ 32 \<Longrightarrow> unat (of_nat n :: u32) = n"
  by (simp add: unat_of_nat)

lemma codec_vec:
  assumes "mx < 2 ^ 32"
  shows "field_codec (put_vec mx name) (rd_vec mx name) (\<lambda>v. length v \<le> mx)"
proof (rule codec_cong)
  show "field_codec (\<lambda>v. cat (put_u32 (of_nat (length v)))
      (if unat (of_nat (length v) :: u32) > mx then Ok [] else put_raw v))
     (st_then rd_u32 (\<lambda>n. if unat n > mx then st_return (Err (BoundExceeded name)) else rd_take (unat n)))
     (\<lambda>v. True \<and> (if unat (of_nat (length v) :: u32) > mx then False else length v = unat (of_nat (length v) :: u32)))"
    by (rule codec_seq [where sel = "\<lambda>v. of_nat (length v)" and pA = put_u32,
          OF u32_field.field_codec_axioms codec_if [OF codec_err codec_take]])
      (auto intro: of_nat_length_u32 split: if_splits)
  show "(length v \<le> mx) = (True \<and> (if unat (of_nat (length v) :: u32) > mx then False
      else length v = unat (of_nat (length v) :: u32)))" for v :: bytes
    using assms u32_of_nat [of "length v"] unsigned_less [of "of_nat (length v) :: u32"] by (auto simp: not_less)
  show "put_vec mx name v = cat (put_u32 (of_nat (length v)))
      (if unat (of_nat (length v) :: u32) > mx then Ok [] else put_raw v)" if "length v \<le> mx" for v
    using that assms u32_of_nat [of "length v"] by (simp add: put_vec_def cat_def put_u32_def put_raw_def)
qed (simp add: rd_vec_def)

lemma codec_times:
  assumes "field_codec put get ok"
  shows "field_codec (put_each put) (rd_times n get) (\<lambda>xs. length xs = n \<and> list_all ok xs)"
proof (induction n)
  case 0
  show ?case by (rule codec_cong [OF codec_return [of "[]"]]) auto
next
  case (Suc n)
  have c: "field_codec (\<lambda>xs. cat (put (hd xs)) (cat (put_each put (tl xs)) (Ok []))) (rd_times (Suc n) get)
     (\<lambda>xs. ok (hd xs) \<and> (length (tl xs) = n \<and> list_all ok (tl xs)) \<and> xs = hd xs # tl xs)"
    unfolding rd_times.simps
    by (rule codec_seq [where sel = hd and pA = put, OF assms codec_seq [where sel = tl, OF Suc codec_return]])
      (auto, metis list.sel(1))
  show ?case
  proof (rule codec_cong [OF c refl])
    show "(length xs = Suc n \<and> list_all ok xs) =
        (ok (hd xs) \<and> (length (tl xs) = n \<and> list_all ok (tl xs)) \<and> xs = hd xs # tl xs)" for xs
      by (cases xs) auto
    show "put_each put xs = cat (put (hd xs)) (cat (put_each put (tl xs)) (Ok []))"
      if "length xs = Suc n \<and> list_all ok xs" for xs
      using that by (cases xs) simp_all
  qed
qed

lemma codec_counted:
  assumes "field_codec put get ok" "limit < 2 ^ 32"
  shows "field_codec (\<lambda>xs. cat (put_count xs) (put_each put xs)) (dec_counted limit name get)
    (\<lambda>xs. length xs \<le> limit \<and> list_all ok xs)"
proof (rule codec_cong)
  show "field_codec (\<lambda>xs. cat (put_u32 (of_nat (length xs)))
      (if unat (of_nat (length xs) :: u32) > limit then Ok [] else put_each put xs))
     (dec_counted limit name get)
     (\<lambda>xs. True \<and> (if unat (of_nat (length xs) :: u32) > limit then False
        else length xs = unat (of_nat (length xs) :: u32) \<and> list_all ok xs))"
    unfolding dec_counted_def
    by (rule codec_seq [where sel = "\<lambda>v. of_nat (length v)" and pA = put_u32,
          OF u32_field.field_codec_axioms codec_if [OF codec_err codec_times [OF assms(1)]]])
      (auto intro: of_nat_length_u32 split: if_splits)
  show "(length xs \<le> limit \<and> list_all ok xs) = (True \<and> (if unat (of_nat (length xs) :: u32) > limit then False
        else length xs = unat (of_nat (length xs) :: u32) \<and> list_all ok xs))" for xs :: "'a list"
    using assms(2) u32_of_nat [of "length xs"] by (auto simp: not_less)
  show "cat (put_count xs) (put_each put xs) = cat (put_u32 (of_nat (length xs)))
      (if unat (of_nat (length xs) :: u32) > limit then Ok [] else put_each put xs)"
    if "length xs \<le> limit \<and> list_all ok xs" for xs :: "'a list"
    using that assms(2) u32_of_nat [of "length xs"] by (simp add: put_count_def)
qed simp

lemma codec_option:
  assumes "field_codec put get ok"
  shows "field_codec (put_option put) (rd_option get) (\<lambda>v. \<forall>x. v = Some x \<longrightarrow> ok x)"
proof (rule codec_cong)
  let ?tag = "\<lambda>v. if v = None then 0 else 1 :: u8"
  show "field_codec (\<lambda>v. cat (put_u8 (?tag v))
      (if ?tag v = 0 then Ok [] else if ?tag v = 1 then cat (put (the v)) (Ok []) else Ok []))
     (rd_option get)
     (\<lambda>v. True \<and> (if ?tag v = 0 then v = None else if ?tag v = 1 then ok (the v) \<and> v = Some (the v) else False))"
    unfolding rd_option_def
    by (rule codec_seq [where sel = ?tag and pA = put_u8, OF u8_field.field_codec_axioms
          codec_if [OF codec_return codec_if [OF codec_seq [where sel = the, OF assms codec_return] codec_err]]])
      (auto split: if_splits)
qed (auto simp: put_option_def split: option.splits)

section \<open>Codes\<close>

lemma codec_flexible:
  fixes bits :: "'x \<Rightarrow> 'w::len word"
  assumes "field_codec p g (\<lambda>_. True)" "\<And>v x. from v = Some x \<Longrightarrow> bits x = v"
  shows "field_codec (\<lambda>x. p (bits x)) (flexible name from g) (\<lambda>x. from (bits x) = Some x)"
proof (rule codec_cong)
  show "field_codec (\<lambda>x. p (bits x)) (flexible name from g)
      (\<lambda>x. True \<and> ok_or (from (bits x)) (UnknownDiscriminant name (ucast (bits x))) = Ok x)"
    unfolding flexible_def
  proof (rule codec_map [OF assms(1)])
    show "ok_or (from v) (UnknownDiscriminant name (ucast v)) \<noteq> Panic" for v
      by (cases "from v") simp_all
  qed (use assms(2) in simp)
qed simp_all

lemma codec_coded:
  assumes "field_codec p g (\<lambda>_. True)" "\<And>v. f v \<noteq> Panic" "\<And>v x. f v = Ok x \<Longrightarrow> num x = v"
  shows "field_codec (\<lambda>x. p (num x)) (coded g f) (\<lambda>x. f (num x) = Ok x)"
proof (rule codec_cong)
  show "field_codec (\<lambda>x. p (num x)) (coded g f) (\<lambda>x. True \<and> f (num x) = Ok x)"
    unfolding coded_def by (rule codec_map [OF assms])
qed simp_all

definition band_ok :: "wlan_band \<Rightarrow> bool" where "band_ok b \<longleftrightarrow> band_bits b \<in> {0, 1}"
definition bandwidth_ok :: "channel_bandwidth \<Rightarrow> bool" where
  "bandwidth_ok b \<longleftrightarrow> bandwidth_bits b \<in> {1, 2, 3, 4, 5, 6}"
definition bss_type_ok :: "bss_type \<Rightarrow> bool" where "bss_type_ok b \<longleftrightarrow> bss_type_bits b \<in> {0, 1, 2, 3, 4}"
definition protocol_ok :: "protocol \<Rightarrow> bool" where "protocol_ok p \<longleftrightarrow> 1 \<le> protocol_bits p \<and> protocol_bits p \<le> 8"
definition mac_role_ok :: "wlan_mac_role \<Rightarrow> bool" where "mac_role_ok r \<longleftrightarrow> mac_role_bits r \<in> {1, 2, 3}"
definition status_ok :: "status_code \<Rightarrow> bool" where "status_ok s \<longleftrightarrow> valid_status_code (status_bits s)"
definition reason_ok :: "reason_code \<Rightarrow> bool" where "reason_ok s \<longleftrightarrow> valid_reason_code (reason_bits s)"

lemma wrapped_eq:
  "WlanBand a = x1 \<longleftrightarrow> a = band_bits x1" "ChannelBandwidth b = x2 \<longleftrightarrow> b = bandwidth_bits x2"
  "BssType b = x3 \<longleftrightarrow> b = bss_type_bits x3" "Protocol b = x4 \<longleftrightarrow> b = protocol_bits x4"
  "WlanMacRole b = x5 \<longleftrightarrow> b = mac_role_bits x5" "StatusCode c = x6 \<longleftrightarrow> c = status_bits x6"
  "ReasonCode c = x7 \<longleftrightarrow> c = reason_bits x7" "MonotonicDeadline d = x8 \<longleftrightarrow> d = into_nanos x8"
  by (cases x1; cases x2; cases x3; cases x4; cases x5; cases x6; cases x7; cases x8; simp)+

lemmas code_oks = wrapped_eq band_ok_def bandwidth_ok_def bss_type_ok_def protocol_ok_def mac_role_ok_def status_ok_def
  reason_ok_def

lemmas from_primitives = band_from_primitive_def bandwidth_from_primitive_def bss_type_from_primitive_def
  protocol_from_primitive_def mac_role_from_primitive_def status_from_primitive_def reason_from_primitive_def

interpretation band_field: field_codec "\<lambda>b. put_u8 (band_bits b)" "flexible ''WlanBand'' band_from_primitive rd_u8" band_ok
  by (rule codec_cong [OF codec_flexible [OF u8_field.field_codec_axioms, where bits = band_bits]])
    (auto simp: from_primitives code_oks split: if_splits)

interpretation bandwidth_field: field_codec "\<lambda>b. put_u32 (bandwidth_bits b)"
    "flexible ''ChannelBandwidth'' bandwidth_from_primitive rd_u32" bandwidth_ok
  by (rule codec_cong [OF codec_flexible [OF u32_field.field_codec_axioms, where bits = bandwidth_bits]])
    (auto simp: from_primitives code_oks split: if_splits)

interpretation bss_type_field: field_codec "\<lambda>b. put_u32 (bss_type_bits b)"
    "flexible ''BssType'' bss_type_from_primitive rd_u32" bss_type_ok
  by (rule codec_cong [OF codec_flexible [OF u32_field.field_codec_axioms, where bits = bss_type_bits]])
    (auto simp: from_primitives code_oks split: if_splits)

interpretation protocol_field: field_codec "\<lambda>b. put_u32 (protocol_bits b)"
    "flexible ''Protocol'' protocol_from_primitive rd_u32" protocol_ok
  by (rule codec_cong [OF codec_flexible [OF u32_field.field_codec_axioms, where bits = protocol_bits]])
    (auto simp: from_primitives code_oks split: if_splits)

interpretation mac_role_field: field_codec "\<lambda>b. put_u32 (mac_role_bits b)"
    "flexible ''WlanMacRole'' mac_role_from_primitive rd_u32" mac_role_ok
  by (rule codec_cong [OF codec_flexible [OF u32_field.field_codec_axioms, where bits = mac_role_bits]])
    (auto simp: from_primitives code_oks split: if_splits)

interpretation status_field: field_codec "\<lambda>b. put_u16 (status_bits b)"
    "flexible ''StatusCode'' status_from_primitive rd_u16" status_ok
  by (rule codec_cong [OF codec_flexible [OF u16_field.field_codec_axioms, where bits = status_bits]])
    (auto simp: from_primitives code_oks split: if_splits)

interpretation reason_field: field_codec "\<lambda>b. put_u16 (reason_bits b)"
    "flexible ''ReasonCode'' reason_from_primitive rd_u16" reason_ok
  by (rule codec_cong [OF codec_flexible [OF u16_field.field_codec_axioms, where bits = reason_bits]])
    (auto simp: from_primitives code_oks split: if_splits)

lemma if_split_cases: "(if b then x else y) = z \<Longrightarrow> (b \<Longrightarrow> x = z \<Longrightarrow> P) \<Longrightarrow> (\<not> b \<Longrightarrow> y = z \<Longrightarrow> P) \<Longrightarrow> P"
  by (simp split: if_splits)

lemma scan_error_code:
  "dec_scan_error (scan_error_u32 x) = Ok x" "dec_scan_error v = Ok x \<Longrightarrow> scan_error_u32 x = v" "dec_scan_error v \<noteq> Panic"
proof -
  show "dec_scan_error (scan_error_u32 x) = Ok x" by (cases x) (simp_all add: dec_scan_error_def scan_error_u32_def)
  show "scan_error_u32 x = v" if "dec_scan_error v = Ok x"
    using that unfolding dec_scan_error_def by (elim if_split_cases) (auto simp: scan_error_u32_def)
  show "dec_scan_error v \<noteq> Panic" by (simp add: dec_scan_error_def)
qed

interpretation scan_error_field: field_codec "\<lambda>x. put_u32 (scan_error_u32 x)" "coded rd_u32 dec_scan_error" "\<lambda>_. True"
  by (rule codec_cong [OF codec_coded [OF u32_field.field_codec_axioms scan_error_code(3,2)]])
    (simp, simp, simp, simp add: scan_error_code(1))

lemma scan_type_code:
  "dec_scan_type (scan_type_u32 x) = Ok x" "dec_scan_type v = Ok x \<Longrightarrow> scan_type_u32 x = v" "dec_scan_type v \<noteq> Panic"
proof -
  show "dec_scan_type (scan_type_u32 x) = Ok x" by (cases x) (simp_all add: dec_scan_type_def scan_type_u32_def)
  show "scan_type_u32 x = v" if "dec_scan_type v = Ok x"
    using that unfolding dec_scan_type_def by (elim if_split_cases) (auto simp: scan_type_u32_def)
  show "dec_scan_type v \<noteq> Panic" by (simp add: dec_scan_type_def)
qed

interpretation scan_type_field: field_codec "\<lambda>x. put_u32 (scan_type_u32 x)" "coded rd_u32 dec_scan_type" "\<lambda>_. True"
  by (rule codec_cong [OF codec_coded [OF u32_field.field_codec_axioms scan_type_code(3,2)]])
    (simp, simp, simp, simp add: scan_type_code(1))

lemma disconnect_reason_code:
  "dec_disconnect_reason (user_disconnect_reason_u32 x) = Ok x" "dec_disconnect_reason v = Ok x \<Longrightarrow> user_disconnect_reason_u32 x = v" "dec_disconnect_reason v \<noteq> Panic"
proof -
  show "dec_disconnect_reason (user_disconnect_reason_u32 x) = Ok x" by (cases x) (simp_all add: dec_disconnect_reason_def user_disconnect_reason_u32_def)
  show "user_disconnect_reason_u32 x = v" if "dec_disconnect_reason v = Ok x"
    using that unfolding dec_disconnect_reason_def by (elim if_split_cases) (auto simp: user_disconnect_reason_u32_def)
  show "dec_disconnect_reason v \<noteq> Panic" by (simp add: dec_disconnect_reason_def)
qed

interpretation disconnect_reason_field: field_codec "\<lambda>x. put_u32 (user_disconnect_reason_u32 x)" "coded rd_u32 dec_disconnect_reason" "\<lambda>_. True"
  by (rule codec_cong [OF codec_coded [OF u32_field.field_codec_axioms disconnect_reason_code(3,2)]])
    (simp, simp, simp, simp add: disconnect_reason_code(1))

lemma mlme_event_code:
  "dec_mlme_event (mlme_event_u32 x) = Ok x" "dec_mlme_event v = Ok x \<Longrightarrow> mlme_event_u32 x = v" "dec_mlme_event v \<noteq> Panic"
proof -
  show "dec_mlme_event (mlme_event_u32 x) = Ok x" by (cases x) (simp_all add: dec_mlme_event_def mlme_event_u32_def)
  show "mlme_event_u32 x = v" if "dec_mlme_event v = Ok x"
    using that unfolding dec_mlme_event_def by (elim if_split_cases) (auto simp: mlme_event_u32_def)
  show "dec_mlme_event v \<noteq> Panic" by (simp add: dec_mlme_event_def)
qed

interpretation mlme_event_field: field_codec "\<lambda>x. put_u32 (mlme_event_u32 x)" "coded rd_u32 dec_mlme_event" "\<lambda>_. True"
  by (rule codec_cong [OF codec_coded [OF u32_field.field_codec_axioms mlme_event_code(3,2)]])
    (simp, simp, simp, simp add: mlme_event_code(1))

lemma command_reply_code:
  "dec_command_reply (command_reply_u8 x) = Ok x" "dec_command_reply v = Ok x \<Longrightarrow> command_reply_u8 x = v" "dec_command_reply v \<noteq> Panic"
proof -
  show "dec_command_reply (command_reply_u8 x) = Ok x" by (cases x) (simp_all add: dec_command_reply_def command_reply_u8_def)
  show "command_reply_u8 x = v" if "dec_command_reply v = Ok x"
    using that unfolding dec_command_reply_def by (elim if_split_cases) (auto simp: command_reply_u8_def)
  show "dec_command_reply v \<noteq> Panic" by (simp add: dec_command_reply_def)
qed

interpretation command_reply_field: field_codec put_command_reply "coded rd_u8 dec_command_reply" "\<lambda>_. True"
  by (rule codec_cong [OF codec_coded [OF u8_field.field_codec_axioms command_reply_code(3,2)]])
    (simp, simp, simp add: put_command_reply_def, simp add: command_reply_code(1))

lemma generation_end_code:
  "dec_generation_end (generation_end x) = Ok x" "dec_generation_end v = Ok x \<Longrightarrow> generation_end x = v" "dec_generation_end v \<noteq> Panic"
proof -
  show "dec_generation_end (generation_end x) = Ok x" by (cases x) (simp_all add: dec_generation_end_def generation_end_def)
  show "generation_end x = v" if "dec_generation_end v = Ok x"
    using that unfolding dec_generation_end_def by (elim if_split_cases) (auto simp: generation_end_def)
  show "dec_generation_end v \<noteq> Panic" by (simp add: dec_generation_end_def)
qed

interpretation generation_end_field: field_codec "\<lambda>x. put_u8 (generation_end x)" "coded rd_u8 dec_generation_end" "\<lambda>_. True"
  by (rule codec_cong [OF codec_coded [OF u8_field.field_codec_axioms generation_end_code(3,2)]])
    (simp, simp, simp, simp add: generation_end_code(1))

lemma power_save_code:
  "dec_power_save (power_save_u8 x) = Ok x" "dec_power_save v = Ok x \<Longrightarrow> power_save_u8 x = v" "dec_power_save v \<noteq> Panic"
proof -
  show "dec_power_save (power_save_u8 x) = Ok x" by (cases x) (simp_all add: dec_power_save_def power_save_u8_def)
  show "power_save_u8 x = v" if "dec_power_save v = Ok x"
    using that unfolding dec_power_save_def by (elim if_split_cases) (auto simp: power_save_u8_def)
  show "dec_power_save v \<noteq> Panic" by (simp add: dec_power_save_def)
qed

interpretation power_save_field: field_codec "\<lambda>x. put_u8 (power_save_u8 x)" "coded rd_u8 dec_power_save" "\<lambda>_. True"
  by (rule codec_cong [OF codec_coded [OF u8_field.field_codec_axioms power_save_code(3,2)]])
    (simp, simp, simp, simp add: power_save_code(1))

definition deadline_ok :: "monotonic_deadline \<Rightarrow> bool" where
  "deadline_ok d \<longleftrightarrow> into_nanos d \<noteq> 0 \<and> into_nanos d \<le> 0x7fffffffffffffff"

interpretation deadline_field: field_codec put_deadline rd_deadline deadline_ok
  unfolding rd_deadline_def
  by (rule codec_cong [OF codec_coded [OF u64_field.field_codec_axioms, where num = into_nanos]])
    (auto simp: wrapped_eq put_deadline_def from_nanos_def deadline_ok_def split: if_splits)

section \<open>Structures\<close>

text \<open>One case of a union.\<close>

lemma codec_con:
  assumes "field_codec p g ok" "\<And>v. sel (C v) = v"
  shows "field_codec (\<lambda>x. p (sel x)) (st_then g (\<lambda>v. st_return (Ok (C v)))) (\<lambda>x. \<exists>v. x = C v \<and> ok v)"
proof (rule codec_cong [OF codec_seq [where sel = sel, OF assms(1) codec_return] refl])
  show "sel x = v" if "x = C v" for v x using that assms(2) by simp
  show "(\<exists>v. x = C v \<and> ok v) = (ok (sel x) \<and> x = C (sel x))" for x
    using assms(2) by metis
qed simp

lemma record_eqs [simp]:
  "c = \<lparr>cn_band = x1, cn_number = x2\<rparr> \<longleftrightarrow> cn_band c = x1 \<and> cn_number c = x2"
  "b = \<lparr>bd_bssid = y1, bd_bss_type = y2, bd_beacon_period = y3, bd_capability_info = y4, bd_ies = y5,
      bd_primary = y6, bd_bandwidth = y7, bd_vht_secondary_80_channel = y8, bd_rssi_dbm = y9, bd_snr_db = y0\<rparr> \<longleftrightarrow>
    bd_bssid b = y1 \<and> bd_bss_type b = y2 \<and> bd_beacon_period b = y3 \<and> bd_capability_info b = y4 \<and>
    bd_ies b = y5 \<and> bd_primary b = y6 \<and> bd_bandwidth b = y7 \<and> bd_vht_secondary_80_channel b = y8 \<and>
    bd_rssi_dbm b = y9 \<and> bd_snr_db b = y0"
  "a = \<lparr>au_protocol = z1, au_credentials = z2\<rparr> \<longleftrightarrow> au_protocol a = z1 \<and> au_credentials a = z2"
  "q = \<lparr>cq_ssid = q1, cq_bss_description = q2, cq_multiple_bss_candidates = q3, cq_authentication = q4,
      cq_deprecated_scan_type = q5\<rparr> \<longleftrightarrow>
    cq_ssid q = q1 \<and> cq_bss_description q = q2 \<and> cq_multiple_bss_candidates q = q3 \<and>
    cq_authentication q = q4 \<and> cq_deprecated_scan_type q = q5"
  "d = \<lparr>ds_protocol = d1, ds_role = d2\<rparr> \<longleftrightarrow> ds_protocol d = d1 \<and> ds_role d = d2"
  "s = \<lparr>sc_compatibility = s1, sc_timestamp_nanos = s2, sc_bss_description = s3\<rparr> \<longleftrightarrow>
    sc_compatibility s = s1 \<and> sc_timestamp_nanos s = s2 \<and> sc_bss_description s = s3"
  "e = \<lparr>cr_code = e1, cr_is_credential_rejected = e2, cr_is_reconnect = e3\<rparr> \<longleftrightarrow>
    cr_code e = e1 \<and> cr_is_credential_rejected e = e2 \<and> cr_is_reconnect e = e3"
  by (cases c, simp, cases b, simp, cases a, simp, cases q, simp, cases d, simp, cases s, simp, cases e, simp)

lemma record_eqs2 [simp]:
  "f = \<lparr>dc_mlme_event_name = f1, dc_reason_code = f2\<rparr> \<longleftrightarrow> dc_mlme_event_name f = f1 \<and> dc_reason_code f = f2"
  "h = \<lparr>di_is_sme_reconnecting = h1, di_disconnect_source = h2\<rparr> \<longleftrightarrow>
    di_is_sme_reconnecting h = h1 \<and> di_disconnect_source h = h2"
  "i = \<lparr>rr_bssid = i1, rr_status_code = i2, rr_original_association_maintained = i3, rr_bss_description = i4,
      rr_disconnect_info = i5, rr_is_credential_rejected = i6\<rparr> \<longleftrightarrow>
    rr_bssid i = i1 \<and> rr_status_code i = i2 \<and> rr_original_association_maintained i = i3 \<and>
    rr_bss_description i = i4 \<and> rr_disconnect_info i = i5 \<and> rr_is_credential_rejected i = i6"
  "j = \<lparr>sr_rssi_dbm = j1, sr_snr_db = j2\<rparr> \<longleftrightarrow> sr_rssi_dbm j = j1 \<and> sr_snr_db j = j2"
  "k = \<lparr>cs_new_primary_channel = k1, cs_bandwidth = k2, cs_vht_secondary_80_channel = k3\<rparr> \<longleftrightarrow>
    cs_new_primary_channel k = k1 \<and> cs_bandwidth k = k2 \<and> cs_vht_secondary_80_channel k = k3"
  "l = \<lparr>re_in_reply_to = l1, re_result = l2\<rparr> \<longleftrightarrow> re_in_reply_to l = l1 \<and> re_result l = l2"
  by (cases f, simp, cases h, simp, cases i, simp, cases j, simp, cases k, simp, cases l, simp)

text \<open>The values of each structure that the decoder accepts.\<close>

definition channel_ok :: "channel_number \<Rightarrow> bool" where
  "channel_ok c \<longleftrightarrow> band_ok (cn_band c)"

definition bss_ok :: "bss_description \<Rightarrow> bool" where
  "bss_ok b \<longleftrightarrow> length (bd_bssid b) = 6 \<and> bss_type_ok (bd_bss_type b) \<and> length (bd_ies b) \<le> MAX_BSS_IE_LEN \<and>
     channel_ok (bd_primary b) \<and> bandwidth_ok (bd_bandwidth b) \<and> channel_ok (bd_vht_secondary_80_channel b)"

definition credentials_ok :: "credentials \<Rightarrow> bool" where
  "credentials_ok c =
     (case c of Wep key \<Rightarrow> length key \<le> 32 | Wpa (Psk psk) \<Rightarrow> length psk = 32
      | Wpa (Passphrase p) \<Rightarrow> length p \<le> 63 | _ \<Rightarrow> False)"

definition auth_ok :: "authentication \<Rightarrow> bool" where
  "auth_ok a \<longleftrightarrow> protocol_ok (au_protocol a) \<and> (\<forall>c. au_credentials a = Some c \<longrightarrow> credentials_ok c)"

definition connect_ok :: "connect_request \<Rightarrow> bool" where
  "connect_ok c \<longleftrightarrow> length (cq_ssid c) \<le> 32 \<and> bss_ok (cq_bss_description c) \<and> auth_ok (cq_authentication c)"

definition disjoint_ok :: "disjoint_security_protocol \<Rightarrow> bool" where
  "disjoint_ok d \<longleftrightarrow> protocol_ok (ds_protocol d) \<and> mac_role_ok (ds_role d)"

interpretation channel_field: field_codec enc_channel dec_channel channel_ok
  by (rule codec_cong [OF codec_seq [where sel = cn_band, OF band_field.field_codec_axioms
        codec_seq [where sel = cn_number, OF u8_field.field_codec_axioms codec_return]] dec_channel_def])
    (auto simp: enc_channel_def channel_ok_def)

interpretation bss_field: field_codec enc_bss dec_bss bss_ok
  by (rule codec_cong [OF codec_seq [where sel = bd_bssid, OF codec_take
        codec_seq [where sel = bd_bss_type, OF bss_type_field.field_codec_axioms
        codec_seq [where sel = bd_beacon_period, OF u16_field.field_codec_axioms
        codec_seq [where sel = bd_capability_info, OF u16_field.field_codec_axioms
        codec_seq [where sel = bd_ies, OF codec_vec
        codec_seq [where sel = bd_primary, OF channel_field.field_codec_axioms
        codec_seq [where sel = bd_bandwidth, OF bandwidth_field.field_codec_axioms
        codec_seq [where sel = bd_vht_secondary_80_channel, OF channel_field.field_codec_axioms
        codec_seq [where sel = bd_rssi_dbm, OF u8_field.field_codec_axioms
        codec_seq [where sel = bd_snr_db, OF u8_field.field_codec_axioms codec_return]]]]]]]]]] dec_bss_def])
    (auto simp: enc_bss_def bss_ok_def MAX_BSS_IE_LEN_def)

interpretation credentials_field: field_codec enc_credentials dec_credentials credentials_ok
  by (rule codec_cong [OF codec_seq [where sel = "\<lambda>c. case c of Wep _ \<Rightarrow> 1 | Wpa (Psk _) \<Rightarrow> 2 | _ \<Rightarrow> 3",
        OF u8_field.field_codec_axioms
        codec_if [OF codec_con [where sel = "\<lambda>c. case c of Wep k \<Rightarrow> k | _ \<Rightarrow> []", OF codec_vec]
        codec_if [OF codec_con [where sel = "\<lambda>c. case c of Wpa (Psk p) \<Rightarrow> p | _ \<Rightarrow> []", OF codec_take]
        codec_if [OF codec_con [where sel = "\<lambda>c. case c of Wpa (Passphrase p) \<Rightarrow> p | _ \<Rightarrow> []", OF codec_vec]
        codec_err]]]] dec_credentials_def])
    (auto simp: enc_credentials_def credentials_ok_def split: if_splits credentials.splits wpa_credentials.splits)

lemma auth_option_codec:
  "field_codec (\<lambda>v. case v of None \<Rightarrow> put_u8 0 | Some c \<Rightarrow> cat (put_u8 1) (enc_credentials c))
     (st_then rd_u8 (\<lambda>n.
        if n = 0 then st_return (Ok None)
        else if n = 1 then st_then dec_credentials (\<lambda>c. st_return (Ok (Some c)))
        else st_return (Err (UnknownDiscriminant ''Option<Credentials>'' (ucast n)))))
     (\<lambda>v. \<forall>c. v = Some c \<longrightarrow> credentials_ok c)"
  by (rule codec_cong [OF codec_seq [where sel = "\<lambda>v. if v = None then 0 else 1 :: u8",
        OF u8_field.field_codec_axioms codec_if [OF codec_return
        codec_if [OF codec_con [where sel = the, OF credentials_field.field_codec_axioms] codec_err]]] refl])
    (auto split: if_splits option.splits)

interpretation auth_field: field_codec enc_auth dec_auth auth_ok
  by (rule codec_cong [OF codec_seq [where sel = au_protocol, OF protocol_field.field_codec_axioms
        codec_seq [where sel = au_credentials, OF auth_option_codec codec_return]] dec_auth_def])
    (auto simp: enc_auth_def auth_ok_def)

interpretation connect_field: field_codec enc_connect dec_connect connect_ok
  by (rule codec_cong [OF codec_seq [where sel = cq_ssid, OF codec_vec
        codec_seq [where sel = cq_bss_description, OF bss_field.field_codec_axioms
        codec_seq [where sel = cq_multiple_bss_candidates, OF bool_field.field_codec_axioms
        codec_seq [where sel = cq_authentication, OF auth_field.field_codec_axioms
        codec_seq [where sel = cq_deprecated_scan_type, OF scan_type_field.field_codec_axioms codec_return]]]]]
        dec_connect_def])
    (auto simp: enc_connect_def connect_ok_def)

interpretation disjoint_field: field_codec enc_disjoint dec_disjoint disjoint_ok
  by (rule codec_cong [OF codec_seq [where sel = ds_protocol, OF protocol_field.field_codec_axioms
        codec_seq [where sel = ds_role, OF mac_role_field.field_codec_axioms codec_return]] dec_disjoint_def])
    (auto simp: enc_disjoint_def disjoint_ok_def)

interpretation enc_protocol_field: field_codec enc_protocol "flexible ''Protocol'' protocol_from_primitive rd_u32" protocol_ok
  by (rule codec_cong [OF protocol_field.field_codec_axioms refl]) (simp_all add: enc_protocol_def)

lemma reply_codec:
  assumes "field_codec p g ok"
  shows "field_codec (enc_reply p) (dec_reply g) (\<lambda>r. re_in_reply_to r \<noteq> 0 \<and> ok (re_result r))"
  by (rule codec_cong [OF codec_seq [where sel = re_in_reply_to, OF u64_field.field_codec_axioms
        codec_if [OF codec_err codec_seq [where sel = re_result, OF assms codec_return]]] dec_reply_def])
    (auto simp: enc_reply_def split: if_splits)

definition scan_ok :: "scan_request \<Rightarrow> bool" where
  "scan_ok v =
     (case v of ActiveScan ssids channels \<Rightarrow>
        length ssids \<le> 84 \<and> list_all (\<lambda>s. length s \<le> 32) ssids \<and> length channels \<le> 256
      | PassiveScan channels \<Rightarrow> length channels \<le> 256)"

lemma active_scan_codec:
  "field_codec (\<lambda>v. case v of ActiveScan ssids channels \<Rightarrow> cat (put_count ssids) (cat (put_each (put_vec 32 ''SSID'') ssids)
            (put_vec 256 ''scan channels'' channels)) | _ \<Rightarrow> Ok [])
    (st_then rd_u32 (\<lambda>count.
         if unat count > 84 then st_return (Err (BoundExceeded ''scan SSIDs''))
         else st_then (rd_times (unat count) (rd_vec 32 ''SSID'')) (\<lambda>ssids.
              st_then (rd_vec 256 ''scan channels'') (\<lambda>channels. st_return (Ok (ActiveScan ssids channels))))))
    (\<lambda>v. \<exists>ssids channels. v = ActiveScan ssids channels \<and> scan_ok v)"
  (is "field_codec ?p ?g ?ok")
proof -
  let ?ss = "\<lambda>v. case v of ActiveScan ssids _ \<Rightarrow> ssids | _ \<Rightarrow> []"
  let ?cs = "\<lambda>v. case v of ActiveScan _ channels \<Rightarrow> channels | _ \<Rightarrow> []"
  have c: "field_codec (\<lambda>v. cat (put_vec 256 ''scan channels'' (?cs v)) (Ok []))
      (st_then (rd_vec 256 ''scan channels'') (\<lambda>channels. st_return (Ok (ActiveScan ssids channels))))
      (\<lambda>v. length (?cs v) \<le> 256 \<and> v = ActiveScan ssids (?cs v))" for ssids
    by (rule codec_seq [where sel = ?cs, OF codec_vec codec_return]) (simp, metis scan_request.case(1))
  have s: "field_codec (\<lambda>v. cat (put_each (put_vec 32 ''SSID'') (?ss v)) (cat (put_vec 256 ''scan channels'' (?cs v)) (Ok [])))
      (st_then (rd_times n (rd_vec 32 ''SSID'')) (\<lambda>ssids.
         st_then (rd_vec 256 ''scan channels'') (\<lambda>channels. st_return (Ok (ActiveScan ssids channels)))))
      (\<lambda>v. (length (?ss v) = n \<and> list_all (\<lambda>s. length s \<le> 32) (?ss v)) \<and>
        length (?cs v) \<le> 256 \<and> v = ActiveScan (?ss v) (?cs v))" for n
    by (rule codec_seq [where sel = ?ss, OF codec_times [OF codec_vec] c]) (simp, metis scan_request.case(1))
  show ?thesis
  proof (rule codec_cong [OF codec_seq [where sel = "\<lambda>v. of_nat (length (?ss v))",
        OF u32_field.field_codec_axioms codec_if [OF codec_err s]] refl])
    show "of_nat (length (?ss v)) = a"
      if "if 84 < unat a then False else (length (?ss v) = unat a \<and> list_all (\<lambda>s. length s \<le> 32) (?ss v)) \<and>
        length (?cs v) \<le> 256 \<and> v = ActiveScan (?ss v) (?cs v)" for a :: u32 and v
      using that of_nat_length_u32 [of a "?ss v"] by (simp split: if_splits)
    show "?ok v = (True \<and> (if 84 < unat (of_nat (length (?ss v)) :: u32) then False
        else (length (?ss v) = unat (of_nat (length (?ss v)) :: u32) \<and> list_all (\<lambda>s. length s \<le> 32) (?ss v)) \<and>
          length (?cs v) \<le> 256 \<and> v = ActiveScan (?ss v) (?cs v)))" for v
      using u32_of_nat [of "length (?ss v)"] by (cases v) (auto simp: scan_ok_def)
    show "?p v = cat (put_u32 (of_nat (length (?ss v)))) (if 84 < unat (of_nat (length (?ss v)) :: u32) then Ok []
        else cat (put_each (put_vec 32 ''SSID'') (?ss v)) (cat (put_vec 256 ''scan channels'' (?cs v)) (Ok [])))"
      if "?ok v" for v
      using that u32_of_nat [of "length (?ss v)"] by (cases v) (auto simp: scan_ok_def put_count_def)
  qed
qed

interpretation scan_field: field_codec enc_scan dec_scan scan_ok
  by (rule codec_cong [OF codec_seq [where sel = "\<lambda>v. case v of ActiveScan _ _ \<Rightarrow> 1 | PassiveScan _ \<Rightarrow> 2",
        OF u8_field.field_codec_axioms codec_if [OF active_scan_codec
        codec_if [OF codec_con [where sel = "\<lambda>v. case v of PassiveScan c \<Rightarrow> c | _ \<Rightarrow> []", OF codec_vec]
        codec_err]]] dec_scan_def])
    (auto simp: enc_scan_def scan_ok_def split: if_splits scan_request.splits)

definition compatibility_ok :: "compatibility \<Rightarrow> bool" where
  "compatibility_ok c =
     (case c of
        Compatible ps \<Rightarrow> length ps \<le> MAX_PACKET div 4 \<and> list_all protocol_ok ps
      | Incompatible description disjoint \<Rightarrow>
          length description \<le> MAX_PACKET \<and> utf8_valid description \<and>
          (\<forall>vs. disjoint = Some vs \<longrightarrow> length vs \<le> MAX_PACKET div 8 \<and> list_all disjoint_ok vs))"

lemma incompatible_codec:
  "field_codec (\<lambda>c. case c of Incompatible description disjoint \<Rightarrow>
       cat (put_vec MAX_PACKET ''compatibility description'' description)
         (put_option (\<lambda>vs. cat (put_count vs) (put_each enc_disjoint vs)) disjoint) | _ \<Rightarrow> Ok [])
     (st_then (rd_vec MAX_PACKET ''compatibility description'') (\<lambda>bs.
         if \<not> utf8_valid bs then st_return (Err (InvalidValue ''compatibility description UTF-8''))
         else st_then (rd_option (dec_counted (MAX_PACKET div 8) ''disjoint protocols'' dec_disjoint)) (\<lambda>disjoint.
                st_return (Ok (Incompatible bs disjoint)))))
     (\<lambda>c. \<exists>description disjoint. c = Incompatible description disjoint \<and> compatibility_ok c)"
  (is "field_codec ?p ?g ?ok")
proof -
  let ?d = "\<lambda>c. case c of Incompatible description _ \<Rightarrow> description | _ \<Rightarrow> []"
  let ?o = "\<lambda>c. case c of Incompatible _ disjoint \<Rightarrow> disjoint | _ \<Rightarrow> None"
  have m: "MAX_PACKET < 2 ^ 32" "MAX_PACKET div 8 < 2 ^ 32" by (simp_all add: MAX_PACKET_def)
  have o: "field_codec (\<lambda>c. cat (put_option (\<lambda>vs. cat (put_count vs) (put_each enc_disjoint vs)) (?o c)) (Ok []))
     (st_then (rd_option (dec_counted (MAX_PACKET div 8) ''disjoint protocols'' dec_disjoint)) (\<lambda>disjoint.
                st_return (Ok (Incompatible bs disjoint))))
     (\<lambda>c. (\<forall>x. ?o c = Some x \<longrightarrow> length x \<le> MAX_PACKET div 8 \<and> list_all disjoint_ok x) \<and> c = Incompatible bs (?o c))" for bs
    by (rule codec_seq [where sel = ?o, OF codec_option
          [OF codec_counted [OF disjoint_field.field_codec_axioms m(2)]] codec_return])
      (metis compatibility.case(2))
  show ?thesis
  proof (rule codec_cong [OF codec_seq [where sel = ?d, OF codec_vec [OF m(1)] codec_if [OF codec_err o]] refl])
    show "?d c = a" if "if \<not> utf8_valid a then False
        else (\<forall>x. ?o c = Some x \<longrightarrow> length x \<le> MAX_PACKET div 8 \<and> list_all disjoint_ok x) \<and> c = Incompatible a (?o c)" for a c
      using that by (cases c) (auto split: if_splits)
    show "?ok c = (length (?d c) \<le> MAX_PACKET \<and> (if \<not> utf8_valid (?d c) then False
        else (\<forall>x. ?o c = Some x \<longrightarrow> length x \<le> MAX_PACKET div 8 \<and> list_all disjoint_ok x) \<and> c = Incompatible (?d c) (?o c)))" for c
      by (cases c) (auto simp: compatibility_ok_def)
    show "?p c = cat (put_vec MAX_PACKET ''compatibility description'' (?d c))
        (if \<not> utf8_valid (?d c) then Ok [] else
          cat (put_option (\<lambda>vs. cat (put_count vs) (put_each enc_disjoint vs)) (?o c)) (Ok []))" if "?ok c" for c
      using that by (cases c) (auto simp: compatibility_ok_def)
  qed
qed

interpretation compatibility_field: field_codec enc_compatibility dec_compatibility compatibility_ok
  by (rule codec_cong [OF codec_seq [where sel = "\<lambda>v. case v of Compatible _ \<Rightarrow> 1 | Incompatible _ _ \<Rightarrow> 2",
        OF u8_field.field_codec_axioms codec_if [OF codec_con [where sel = "\<lambda>v. case v of Compatible ps \<Rightarrow> ps | _ \<Rightarrow> []",
          OF codec_counted [OF enc_protocol_field.field_codec_axioms]]
        codec_if [OF incompatible_codec codec_err]]] dec_compatibility_def])
    (auto simp: enc_compatibility_def compatibility_ok_def put_option_def MAX_PACKET_def
      split: if_splits compatibility.splits option.splits)

definition scan_result_ok :: "scan_result \<Rightarrow> bool" where
  "scan_result_ok s \<longleftrightarrow> compatibility_ok (sc_compatibility s) \<and> bss_ok (sc_bss_description s)"

interpretation scan_result_field: field_codec enc_scan_result dec_scan_result scan_result_ok
  by (rule codec_cong [OF codec_seq [where sel = sc_compatibility, OF compatibility_field.field_codec_axioms
        codec_seq [where sel = sc_timestamp_nanos, OF u64_field.field_codec_axioms
        codec_seq [where sel = sc_bss_description, OF bss_field.field_codec_axioms codec_return]]] dec_scan_result_def])
    (auto simp: enc_scan_result_def scan_result_ok_def)

definition scan_reply_ok :: "scan_error_code + scan_result list \<Rightarrow> bool" where
  "scan_reply_ok v = (case v of Inl _ \<Rightarrow> True | Inr rs \<Rightarrow> length rs \<le> MAX_PACKET \<and> list_all scan_result_ok rs)"

interpretation scan_reply_field: field_codec enc_scan_reply dec_scan_reply scan_reply_ok
  by (rule codec_cong [OF codec_seq [where sel = "\<lambda>v. case v of Inr _ \<Rightarrow> 1 | Inl _ \<Rightarrow> 2",
        OF u8_field.field_codec_axioms codec_if [OF codec_con [where sel = projr,
          OF codec_counted [OF scan_result_field.field_codec_axioms]]
        codec_if [OF codec_con [where sel = projl, OF scan_error_field.field_codec_axioms] codec_err]]] dec_scan_reply_def])
    (auto simp: enc_scan_reply_def scan_reply_ok_def MAX_PACKET_def split: if_splits sum.splits)

definition connect_result_ok :: "connect_result \<Rightarrow> bool" where
  "connect_result_ok c \<longleftrightarrow> status_ok (cr_code c)"

interpretation connect_result_field: field_codec enc_connect_result dec_connect_result connect_result_ok
  by (rule codec_cong [OF codec_seq [where sel = cr_code, OF status_field.field_codec_axioms
        codec_seq [where sel = cr_is_credential_rejected, OF bool_field.field_codec_axioms
        codec_seq [where sel = cr_is_reconnect, OF bool_field.field_codec_axioms codec_return]]] dec_connect_result_def])
    (auto simp: enc_connect_result_def connect_result_ok_def)

interpretation connect_reply_field: field_codec enc_connect_reply dec_connect_reply
    "\<lambda>v. case v of Completed r \<Rightarrow> connect_result_ok r"
  by (rule codec_cong [OF codec_seq [where sel = "\<lambda>_. 1", OF u8_field.field_codec_axioms
        codec_if [OF codec_con [where sel = "\<lambda>v. case v of Completed r \<Rightarrow> r", OF connect_result_field.field_codec_axioms]
        codec_err]] dec_connect_reply_def])
    (auto simp: enc_connect_reply_def split: if_splits connect_reply.splits)

definition cause_ok :: "disconnect_cause \<Rightarrow> bool" where
  "cause_ok c \<longleftrightarrow> reason_ok (dc_reason_code c)"

interpretation cause_field: field_codec enc_cause dec_cause cause_ok
  by (rule codec_cong [OF codec_seq [where sel = dc_mlme_event_name, OF mlme_event_field.field_codec_axioms
        codec_seq [where sel = dc_reason_code, OF reason_field.field_codec_axioms codec_return]] dec_cause_def])
    (auto simp: enc_cause_def cause_ok_def)

definition source_ok :: "disconnect_source \<Rightarrow> bool" where
  "source_ok s = (case s of SourceAp c \<Rightarrow> cause_ok c | SourceUser _ \<Rightarrow> True | SourceMlme c \<Rightarrow> cause_ok c)"

interpretation source_field: field_codec enc_disconnect_source dec_disconnect_source source_ok
  by (rule codec_cong [OF codec_seq [where sel = "\<lambda>s. case s of SourceAp _ \<Rightarrow> 1 | SourceUser _ \<Rightarrow> 2 | SourceMlme _ \<Rightarrow> 3",
        OF u8_field.field_codec_axioms
        codec_if [OF codec_con [where sel = "\<lambda>s. case s of SourceAp c \<Rightarrow> c | SourceMlme c \<Rightarrow> c", OF cause_field.field_codec_axioms]
        codec_if [OF codec_con [where sel = "\<lambda>s. case s of SourceUser r \<Rightarrow> r | _ \<Rightarrow> ReasonUnknown", OF disconnect_reason_field.field_codec_axioms]
        codec_if [OF codec_con [where sel = "\<lambda>s. case s of SourceMlme c \<Rightarrow> c | SourceAp c \<Rightarrow> c", OF cause_field.field_codec_axioms]
        codec_err]]]] dec_disconnect_source_def])
    (auto simp: enc_disconnect_source_def source_ok_def split: if_splits disconnect_source.splits)

definition disconnect_info_ok :: "disconnect_info \<Rightarrow> bool" where
  "disconnect_info_ok d \<longleftrightarrow> source_ok (di_disconnect_source d)"

interpretation disconnect_info_field: field_codec enc_disconnect_info dec_disconnect_info disconnect_info_ok
  by (rule codec_cong [OF codec_seq [where sel = di_is_sme_reconnecting, OF bool_field.field_codec_axioms
        codec_seq [where sel = di_disconnect_source, OF source_field.field_codec_axioms codec_return]] dec_disconnect_info_def])
    (auto simp: enc_disconnect_info_def disconnect_info_ok_def)

definition roam_result_ok :: "roam_result \<Rightarrow> bool" where
  "roam_result_ok r \<longleftrightarrow> length (rr_bssid r) = 6 \<and> status_ok (rr_status_code r) \<and>
     (\<forall>b. rr_bss_description r = Some b \<longrightarrow> bss_ok b) \<and> (\<forall>d. rr_disconnect_info r = Some d \<longrightarrow> disconnect_info_ok d)"

interpretation roam_result_field: field_codec enc_roam_result dec_roam_result roam_result_ok
  by (rule codec_cong [OF codec_seq [where sel = rr_bssid, OF codec_take
        codec_seq [where sel = rr_status_code, OF status_field.field_codec_axioms
        codec_seq [where sel = rr_original_association_maintained, OF bool_field.field_codec_axioms
        codec_seq [where sel = rr_bss_description, OF codec_option [OF bss_field.field_codec_axioms]
        codec_seq [where sel = rr_disconnect_info, OF codec_option [OF disconnect_info_field.field_codec_axioms]
        codec_seq [where sel = rr_is_credential_rejected, OF bool_field.field_codec_axioms codec_return]]]]]]
        dec_roam_result_def])
    (auto simp: enc_roam_result_def roam_result_ok_def)

interpretation signal_field: field_codec enc_signal dec_signal "\<lambda>_. True"
  by (rule codec_cong [OF codec_seq [where sel = sr_rssi_dbm, OF u8_field.field_codec_axioms
        codec_seq [where sel = sr_snr_db, OF u8_field.field_codec_axioms codec_return]] dec_signal_def])
    (auto simp: enc_signal_def)

definition channel_switch_ok :: "channel_switch_info \<Rightarrow> bool" where
  "channel_switch_ok c \<longleftrightarrow> channel_ok (cs_new_primary_channel c) \<and> bandwidth_ok (cs_bandwidth c) \<and>
     channel_ok (cs_vht_secondary_80_channel c)"

interpretation channel_switch_field: field_codec enc_channel_switch dec_channel_switch channel_switch_ok
  by (rule codec_cong [OF codec_seq [where sel = cs_new_primary_channel, OF channel_field.field_codec_axioms
        codec_seq [where sel = cs_bandwidth, OF bandwidth_field.field_codec_axioms
        codec_seq [where sel = cs_vht_secondary_80_channel, OF channel_field.field_codec_axioms codec_return]]]
        dec_channel_switch_def])
    (auto simp: enc_channel_switch_def channel_switch_ok_def)

definition event_ok :: "connect_transaction_event \<Rightarrow> bool" where
  "event_ok e =
     (case e of OnConnectResult r \<Rightarrow> connect_result_ok r | OnDisconnect i \<Rightarrow> disconnect_info_ok i
      | OnRoamResult r \<Rightarrow> roam_result_ok r | OnSignalReport _ \<Rightarrow> True | OnChannelSwitched i \<Rightarrow> channel_switch_ok i)"

interpretation event_field: field_codec enc_event dec_event event_ok
  by (rule codec_cong [OF codec_seq [where sel = "\<lambda>e. case e of OnConnectResult _ \<Rightarrow> 1 | OnDisconnect _ \<Rightarrow> 2
          | OnRoamResult _ \<Rightarrow> 3 | OnSignalReport _ \<Rightarrow> 4 | OnChannelSwitched _ \<Rightarrow> 5", OF u8_field.field_codec_axioms
        codec_if [OF codec_con [where sel = "\<lambda>e. case e of OnConnectResult r \<Rightarrow> r", OF connect_result_field.field_codec_axioms]
        codec_if [OF codec_con [where sel = "\<lambda>e. case e of OnDisconnect r \<Rightarrow> r", OF disconnect_info_field.field_codec_axioms]
        codec_if [OF codec_con [where sel = "\<lambda>e. case e of OnRoamResult r \<Rightarrow> r", OF roam_result_field.field_codec_axioms]
        codec_if [OF codec_con [where sel = "\<lambda>e. case e of OnSignalReport r \<Rightarrow> r", OF signal_field.field_codec_axioms]
        codec_if [OF codec_con [where sel = "\<lambda>e. case e of OnChannelSwitched r \<Rightarrow> r", OF channel_switch_field.field_codec_axioms]
        codec_err]]]]]] dec_event_def])
    (auto simp: enc_event_def event_ok_def split: if_splits connect_transaction_event.splits)

section \<open>Messages\<close>

text \<open>A command carries its deadline in front of its argument.\<close>

lemma codec_timed:
  assumes "field_codec p g ok" "\<And>d v. sel (C d v) = v" "\<And>d v. dl (C d v) = d"
  shows "field_codec (\<lambda>m. cat (put_deadline (dl m)) (p (sel m)))
    (st_then rd_deadline (\<lambda>d. st_then g (\<lambda>v. st_return (Ok (C d v)))))
    (\<lambda>m. \<exists>d v. m = C d v \<and> deadline_ok d \<and> ok v)"
proof (rule codec_cong [OF codec_seq [where sel = dl, OF deadline_field.field_codec_axioms
        codec_con [where sel = sel and C = "C d" for d, OF assms(1,2)]] refl])
  show "dl m = d" if "\<exists>v. m = C d v \<and> ok v" for d m using that assms(3) by auto
  show "(\<exists>d v. m = C d v \<and> deadline_ok d \<and> ok v) = (deadline_ok (dl m) \<and> (\<exists>v. m = C (dl m) v \<and> ok v))" for m
    using assms(3) by metis
qed simp

definition reply_ok :: "('a \<Rightarrow> bool) \<Rightarrow> 'a reply \<Rightarrow> bool" where
  "reply_ok ok r \<longleftrightarrow> re_in_reply_to r \<noteq> 0 \<and> ok (re_result r)"

definition message_ok :: "message \<Rightarrow> bool" where
  "message_ok m =
     (case m of
        Ready \<Rightarrow> True
      | Scan d v \<Rightarrow> deadline_ok d \<and> scan_ok v
      | ScanReply v \<Rightarrow> reply_ok scan_reply_ok v
      | Connect d v \<Rightarrow> deadline_ok d \<and> connect_ok v
      | ConnectReply v \<Rightarrow> reply_ok (\<lambda>r. case r of Completed c \<Rightarrow> connect_result_ok c) v
      | Disconnect d v \<Rightarrow> deadline_ok d
      | DisconnectReply v \<Rightarrow> reply_ok (\<lambda>_. True) v
      | Roam d v \<Rightarrow> deadline_ok d \<and> bss_ok v
      | RoamReply v \<Rightarrow> reply_ok (\<lambda>_. True) v
      | SetPowerSave d v \<Rightarrow> deadline_ok d
      | SetPowerSaveReply v \<Rightarrow> reply_ok (\<lambda>_. True) v
      | Event v \<Rightarrow> event_ok v
      | GenerationEnd _ \<Rightarrow> True
      | DeadlineExceeded v \<Rightarrow> reply_ok (\<lambda>_. True) v)"

lemmas kinds = READY_def CONNECT_def CONNECT_REPLY_def DISCONNECT_def DISCONNECT_REPLY_def ROAM_def ROAM_REPLY_def
  EVENT_def GENERATION_END_def SCAN_def SCAN_REPLY_def DEADLINE_EXCEEDED_def SET_POWER_SAVE_def SET_POWER_SAVE_REPLY_def

lemma message_codec:
  "field_codec (\<lambda>m. snd (encode_message m)) (decode_message kind)
     (\<lambda>m. fst (encode_message m) = kind \<and> message_ok m)"
by (rule codec_cong [OF
    codec_if [OF codec_return
    codec_if [OF codec_timed [where sel = "\<lambda>m. case m of Scan d v \<Rightarrow> v" and dl = "\<lambda>m. case m of Scan d v \<Rightarrow> d",
      OF scan_field.field_codec_axioms]
    codec_if [OF codec_con [where sel = "\<lambda>m. case m of ScanReply v \<Rightarrow> v", OF reply_codec [OF scan_reply_field.field_codec_axioms]]
    codec_if [OF codec_timed [where sel = "\<lambda>m. case m of Connect d v \<Rightarrow> v" and dl = "\<lambda>m. case m of Connect d v \<Rightarrow> d",
      OF connect_field.field_codec_axioms]
    codec_if [OF codec_con [where sel = "\<lambda>m. case m of ConnectReply v \<Rightarrow> v", OF reply_codec [OF connect_reply_field.field_codec_axioms]]
    codec_if [OF codec_timed [where sel = "\<lambda>m. case m of Disconnect d v \<Rightarrow> v" and dl = "\<lambda>m. case m of Disconnect d v \<Rightarrow> d",
      OF disconnect_reason_field.field_codec_axioms]
    codec_if [OF codec_con [where sel = "\<lambda>m. case m of DisconnectReply v \<Rightarrow> v", OF reply_codec [OF command_reply_field.field_codec_axioms]]
    codec_if [OF codec_timed [where sel = "\<lambda>m. case m of Roam d v \<Rightarrow> v" and dl = "\<lambda>m. case m of Roam d v \<Rightarrow> d",
      OF bss_field.field_codec_axioms]
    codec_if [OF codec_con [where sel = "\<lambda>m. case m of RoamReply v \<Rightarrow> v", OF reply_codec [OF command_reply_field.field_codec_axioms]]
    codec_if [OF codec_timed [where sel = "\<lambda>m. case m of SetPowerSave d v \<Rightarrow> v" and dl = "\<lambda>m. case m of SetPowerSave d v \<Rightarrow> d",
      OF power_save_field.field_codec_axioms]
    codec_if [OF codec_con [where sel = "\<lambda>m. case m of SetPowerSaveReply v \<Rightarrow> v", OF reply_codec [OF command_reply_field.field_codec_axioms]]
    codec_if [OF codec_con [where sel = "\<lambda>m. case m of Event v \<Rightarrow> v", OF event_field.field_codec_axioms]
    codec_if [OF codec_con [where sel = "\<lambda>m. case m of GenerationEnd v \<Rightarrow> v", OF generation_end_field.field_codec_axioms]
    codec_if [OF codec_con [where sel = "\<lambda>m. case m of DeadlineExceeded v \<Rightarrow> v", OF reply_codec [OF codec_return]]
    codec_err [where p = "\<lambda>_. Ok []"]]]]]]]]]]]]]]] decode_message_def])
  (auto simp: kinds message_ok_def reply_ok_def encode_message_def split: message.splits)

end
