(* ===== verification/Wlan_Control_Guarantees.thy ===== *)
theory Wlan_Control_Guarantees
  imports Wlan_Control_Fields
begin

text \<open>
  What the policy packet format promises: the packet decoder accepts exactly the encodings of
  acceptable packets and reads each back, whatever bytes it is given, and a session accepts
  request numbers in increasing order only.
\<close>

section \<open>A codec on a whole slice\<close>

lemma reads_all:
  assumes "length bs \<le> USIZE_MAX"
  shows "reads (reader_new bs) cs r \<and> rd_done r \<longleftrightarrow> cs = bs \<and> r = \<lparr>rd_bytes = bs, rd_pos = length bs\<rparr>"
  using assms by (cases r) (auto simp: reads_def reader_wf_def reader_new_def rd_done_def)

lemma codec_whole:
  assumes c: "field_codec p g ok" and "length bs \<le> USIZE_MAX"
  shows "g (reader_new bs) = (Ok x, r) \<and> rd_done r \<longleftrightarrow>
    ok x \<and> p x = Ok bs \<and> r = \<lparr>rd_bytes = bs, rd_pos = length bs\<rparr>"
proof
  assume h: "g (reader_new bs) = (Ok x, r) \<and> rd_done r"
  have "reader_wf (reader_new bs)" using assms(2) by (simp add: reader_wf_def reader_new_def)
  then obtain cs where "ok x" "p x = Ok cs" "reads (reader_new bs) cs r"
    using field_codec.put_get [OF c _ conjunct1 [OF h]] by blast
  then show "ok x \<and> p x = Ok bs \<and> r = \<lparr>rd_bytes = bs, rd_pos = length bs\<rparr>"
    using reads_all [OF assms(2), of cs r] h by blast
next
  assume h: "ok x \<and> p x = Ok bs \<and> r = \<lparr>rd_bytes = bs, rd_pos = length bs\<rparr>"
  then have "reads (reader_new bs) bs r \<and> rd_done r" using reads_all [OF assms(2), of bs r] by blast
  then show "g (reader_new bs) = (Ok x, r) \<and> rd_done r"
    using field_codec.get_put [OF c, of x bs "reader_new bs" r] h by blast
qed

section \<open>Packets\<close>

definition header_bytes :: "u16 \<times> u16 \<times> u32 \<times> bytes \<times> u64 \<Rightarrow> bytes" where
  "header_bytes h = (case h of (version, kind, body_len, generation, request_id) \<Rightarrow>
     le_bytes 2 version @ le_bytes 2 kind @ le_bytes 4 body_len @ generation @ le_bytes 8 request_id)"

lemma header_codec:
  "field_codec (\<lambda>h. Ok (header_bytes h)) rd_header (\<lambda>(version, kind, body_len, generation, request_id).
     version = VERSION \<and> length generation = 16)"
  by (rule codec_cong [OF codec_seq [where sel = fst, OF u16_field.field_codec_axioms
        codec_if [OF codec_err
        codec_seq [where sel = "fst \<circ> snd", OF u16_field.field_codec_axioms
        codec_seq [where sel = "fst \<circ> snd \<circ> snd", OF u32_field.field_codec_axioms
        codec_seq [where sel = "fst \<circ> snd \<circ> snd \<circ> snd", OF codec_take
        codec_seq [where sel = "snd \<circ> snd \<circ> snd \<circ> snd", OF u64_field.field_codec_axioms codec_return]]]]]] rd_header_def])
    (auto simp: header_bytes_def cat_def put_u16_def put_u32_def put_u64_def put_raw_def split: if_splits)

lemma rd_header_iff:
  assumes "length hs = 32"
  shows "fst (rd_header (reader_new hs)) = Ok (version, kind, body_len, generation, request_id) \<longleftrightarrow>
    version = VERSION \<and> length generation = 16 \<and> hs = header_bytes (version, kind, body_len, generation, request_id)"
    (is "?l \<longleftrightarrow> ?r")
proof
  have s: "length hs \<le> USIZE_MAX" using assms by (simp add: USIZE_MAX_def)
  {
    assume ?l
    then obtain r where g: "rd_header (reader_new hs) = (Ok (version, kind, body_len, generation, request_id), r)"
      by (metis prod.collapse)
    have "reader_wf (reader_new hs)" using s by (simp add: reader_wf_def reader_new_def)
    from field_codec.put_get [OF header_codec this g]
    have ok: "version = VERSION" "length generation = 16"
      and r: "reads (reader_new hs) (header_bytes (version, kind, body_len, generation, request_id)) r" by auto
    from ok(2) have "rd_done r" using r assms by (simp add: reads_def rd_done_def header_bytes_def reader_new_def)
    then show ?r
      using codec_whole [OF header_codec s, of "(version, kind, body_len, generation, request_id)" r] g by auto
  }
  {
    assume ?r
    then show ?l
      using codec_whole [OF header_codec s, of "(version, kind, body_len, generation, request_id)"
          "\<lparr>rd_bytes = hs, rd_pos = length hs\<rparr>"] by auto
  }
qed

definition packet_ok :: "packet \<Rightarrow> bool" where
  "packet_ok p \<longleftrightarrow> length (pk_generation p) = 16 \<and> message_ok (pk_message p)"

text \<open>The pieces of a packet, and when an encoding is one.\<close>

lemma encode_eq_Ok:
  "encode p = Ok bs \<longleftrightarrow> pk_request_id p \<noteq> 0 \<and> (\<exists>body. snd (encode_message (pk_message p)) = Ok body \<and>
     length body \<le> MAX_PACKET - HEADER_LEN \<and>
     bs = MAGIC @ header_bytes (VERSION, fst (encode_message (pk_message p)), of_nat (length body), pk_generation p,
       pk_request_id p) @ body)"
  by (cases "snd (encode_message (pk_message p))")
    (auto simp: encode_def header_bytes_def Let_def case_prod_beta MAX_PACKET_def HEADER_LEN_def USIZE_MAX_def
      checked_add_def)

lemma decode_message_whole:
  assumes "length body \<le> MAX_PACKET"
  shows "(\<exists>r. decode_message kind (reader_new body) = (Ok m, r) \<and> rd_done r) \<longleftrightarrow>
    encode_message m = (kind, Ok body) \<and> message_ok m"
  using codec_whole [OF message_codec, of body kind m] assms
  by (auto simp: MAX_PACKET_def USIZE_MAX_def prod_eq_iff)

lemma decode_body:
  assumes "length body \<le> MAX_PACKET"
  shows "(let (m, r) = decode_message kind (reader_new body) in
      and_then m (\<lambda>message. if \<not> rd_done r then Err TrailingBytes
        else Ok \<lparr>pk_generation = generation, pk_request_id = request_id, pk_message = message\<rparr>)) = Ok p \<longleftrightarrow>
    pk_generation p = generation \<and> pk_request_id p = request_id \<and>
    encode_message (pk_message p) = (kind, Ok body) \<and> message_ok (pk_message p)"
proof -
  have "(\<exists>r. decode_message kind (reader_new body) = (Ok (pk_message p), r) \<and> rd_done r) \<longleftrightarrow>
      encode_message (pk_message p) = (kind, Ok body) \<and> message_ok (pk_message p)"
    by (rule decode_message_whole [OF assms])
  then show ?thesis
    by (cases p; cases "decode_message kind (reader_new body)") (auto split: if_splits)
qed

lemma decode_eq_Ok:
  "decode bs = Ok p \<longleftrightarrow> length bs \<le> MAX_PACKET \<and> HEADER_LEN \<le> length bs \<and> take 4 bs = MAGIC \<and>
     (\<exists>kind body_len.
       fst (rd_header (reader_new (take 32 (drop 4 bs)))) =
         Ok (VERSION, kind, body_len, pk_generation p, pk_request_id p) \<and>
       pk_request_id p \<noteq> 0 \<and> unat body_len = length bs - HEADER_LEN \<and>
       encode_message (pk_message p) = (kind, Ok (drop HEADER_LEN bs)) \<and> message_ok (pk_message p))"
    (is "?l \<longleftrightarrow> ?w \<and> ?g \<and> ?t \<and> ?h")
proof (cases "?w \<and> ?g \<and> ?t")
  case True
  define hs where "hs = take 32 (drop 4 bs)"
  have hs: "slice 4 HEADER_LEN bs = Ok hs" "length hs = 32"
    using True by (auto simp: slice_def hs_def HEADER_LEN_def)
  have body: "slice HEADER_LEN (length bs) bs = Ok (drop HEADER_LEN bs)" "length (drop HEADER_LEN bs) \<le> MAX_PACKET"
    using True by (auto simp: slice_def)
  define rest where "rest kind generation request_id =
      (let (m, r) = decode_message kind (reader_new (drop HEADER_LEN bs)) in
        and_then m (\<lambda>message. if \<not> rd_done r then Err TrailingBytes
          else Ok \<lparr>pk_generation = generation, pk_request_id = request_id, pk_message = message\<rparr>))"
    for kind generation request_id
  note rest = decode_body [OF body(2), folded rest_def]
  have d: "decode bs = and_then (fst (rd_header (reader_new hs))) (\<lambda>(version, kind, body_len, generation, request_id).
      if request_id = 0 then Err ZeroRequestId
      else if unat body_len \<noteq> length bs - HEADER_LEN then Err InvalidLength
      else rest kind generation request_id)"
    using True by (simp add: decode_def hs(1) body(1) rest_def not_less cong: if_cong)
  have "?l \<longleftrightarrow> (\<exists>version kind body_len.
       fst (rd_header (reader_new hs)) = Ok (version, kind, body_len, pk_generation p, pk_request_id p) \<and>
       pk_request_id p \<noteq> 0 \<and> unat body_len = length bs - HEADER_LEN \<and>
       encode_message (pk_message p) = (kind, Ok (drop HEADER_LEN bs)) \<and> message_ok (pk_message p))"
    unfolding d by (cases "fst (rd_header (reader_new hs))") (auto simp: rest split: if_splits)
  then show ?thesis
    using True rd_header_iff [OF hs(2)] by (auto simp: hs_def)
next
  case False
  then show ?thesis by (auto simp: decode_def not_less split: if_splits)
qed

lemma packet_bytes:
  assumes "length g = 16"
  shows "length (header_bytes (v, k, l, g, i)) = 32"
  using assms by (simp add: header_bytes_def)

lemma decode_iff_encode: "decode bs = Ok p \<longleftrightarrow> packet_ok p \<and> encode p = Ok bs"
proof
  assume d: "decode bs = Ok p"
  then obtain kind body_len where h: "length bs \<le> MAX_PACKET" "HEADER_LEN \<le> length bs" "take 4 bs = MAGIC"
      "fst (rd_header (reader_new (take 32 (drop 4 bs)))) = Ok (VERSION, kind, body_len, pk_generation p, pk_request_id p)"
      "pk_request_id p \<noteq> 0" "unat body_len = length bs - HEADER_LEN"
      "encode_message (pk_message p) = (kind, Ok (drop HEADER_LEN bs))" "message_ok (pk_message p)"
    unfolding decode_eq_Ok by blast
  have "length (take 32 (drop 4 bs)) = 32" using h(2) by (simp add: HEADER_LEN_def)
  from iffD1 [OF rd_header_iff [OF this] h(4)]
  have hd: "length (pk_generation p) = 16"
      "take 32 (drop 4 bs) = header_bytes (VERSION, kind, body_len, pk_generation p, pk_request_id p)"
    by auto
  have "unat body_len = length (drop HEADER_LEN bs)" using h(6) by simp
  then have "of_nat (length (drop HEADER_LEN bs)) = body_len" by (rule of_nat_length_u32)
  moreover have "bs = take 4 bs @ take 32 (drop 4 bs) @ drop HEADER_LEN bs"
    using append_take_drop_id [of 4 bs] append_take_drop_id [of 32 "drop 4 bs"] by (simp add: HEADER_LEN_def)
  ultimately show "packet_ok p \<and> encode p = Ok bs"
    using h hd by (auto simp: packet_ok_def encode_eq_Ok)
next
  assume e: "packet_ok p \<and> encode p = Ok bs"
  then obtain body where b: "pk_request_id p \<noteq> 0" "snd (encode_message (pk_message p)) = Ok body"
      "length body \<le> MAX_PACKET - HEADER_LEN" "bs = MAGIC @ header_bytes (VERSION, fst (encode_message (pk_message p)),
        of_nat (length body), pk_generation p, pk_request_id p) @ body"
    unfolding encode_eq_Ok by blast
  let ?hs = "header_bytes (VERSION, fst (encode_message (pk_message p)), of_nat (length body), pk_generation p, pk_request_id p)"
  have l: "length ?hs = 32" "length MAGIC = 4" using e by (simp_all add: packet_ok_def packet_bytes MAGIC_def)
  have u: "unat (of_nat (length body) :: u32) = length body"
    using b(3) by (intro u32_of_nat) (simp add: MAX_PACKET_def)
  have c: "take 4 bs = MAGIC" "take 32 (drop 4 bs) = ?hs" "drop HEADER_LEN bs = body" "length bs = HEADER_LEN + length body"
    using l by (simp_all add: b(4) HEADER_LEN_def)
  have "fst (rd_header (reader_new ?hs)) = Ok (VERSION, fst (encode_message (pk_message p)), of_nat (length body),
      pk_generation p, pk_request_id p)"
    using e by (simp add: rd_header_iff [OF l(1)] packet_ok_def)
  moreover have "encode_message (pk_message p) = (fst (encode_message (pk_message p)), Ok body)"
    using b(2) by (simp add: prod_eq_iff)
  ultimately show "decode bs = Ok p"
    unfolding decode_eq_Ok c using b e u by (auto simp: packet_ok_def MAX_PACKET_def HEADER_LEN_def)
qed

interpretation policy_packet: wire_codec encode decode packet_ok
  by unfold_locales (simp_all add: decode_iff_encode)

lemma safe_rd_header: "length hs \<le> USIZE_MAX \<Longrightarrow> fst (rd_header (reader_new hs)) \<noteq> Panic"
  by (rule field_codec.get_safe [OF header_codec]) (simp add: reader_wf_def reader_new_def)

lemma safe_decode_message: "length body \<le> USIZE_MAX \<Longrightarrow> fst (decode_message kind (reader_new body)) \<noteq> Panic"
  by (rule field_codec.get_safe [OF message_codec]) (simp add: reader_wf_def reader_new_def)

lemma safe_body:
  assumes "length body \<le> USIZE_MAX"
  shows "safe (let (m, r) = decode_message kind (reader_new body) in
      and_then m (\<lambda>message. if \<not> rd_done r then Err TrailingBytes
        else Ok \<lparr>pk_generation = generation, pk_request_id = request_id, pk_message = message\<rparr>))"
  using safe_decode_message [OF assms, of kind]
  by (cases "decode_message kind (reader_new body)"; cases "fst (decode_message kind (reader_new body))") auto

lemma decode_never_panics: "safe (decode bs)"
  unfolding decode_def
proof (intro safe_if safe_and_then safe_Err safe_slice)
  assume "\<not> length bs > MAX_PACKET" "\<not> length bs < HEADER_LEN"
  then have l: "length bs \<le> USIZE_MAX" "HEADER_LEN \<le> length bs" by (simp_all add: MAX_PACKET_def USIZE_MAX_def)
  then show "4 \<le> HEADER_LEN" "HEADER_LEN \<le> length bs" by (simp_all add: HEADER_LEN_def)
  fix header assume "slice 4 HEADER_LEN bs = Ok header"
  then show "safe (fst (rd_header (reader_new header)))"
    using l safe_rd_header [of header] by (auto simp: safe_def)
  fix h assume "fst (rd_header (reader_new header)) = Ok h"
  show "safe (case h of (version, kind, body_len, generation, request_id) \<Rightarrow>
      if request_id = 0 then Err ZeroRequestId
      else if unat body_len \<noteq> length bs - HEADER_LEN then Err InvalidLength
      else and_then (slice HEADER_LEN (length bs) bs) (\<lambda>body.
        let (m, r) = decode_message kind (reader_new body) in
        and_then m (\<lambda>message. if \<not> rd_done r then Err TrailingBytes
          else Ok \<lparr>pk_generation = generation, pk_request_id = request_id, pk_message = message\<rparr>)))"
    using l safe_body [of "drop HEADER_LEN bs"] by (cases h) (auto simp: slice_def)
qed

text \<open>C30: whatever bytes the peer sends, decoding a policy packet does not panic; it accepts exactly the byte strings
  that the encoder produces for acceptable packets, and returns the packet that was encoded. Nothing is lost, no packet
  has two encodings, and no other bytes are taken for a packet.\<close>
theorem packet_codec_canonical: "safe (decode bs) \<and> (decode bs = Ok p \<longleftrightarrow> packet_ok p \<and> encode p = Ok bs)"
  using decode_never_panics policy_packet.dec_iff by blast

section \<open>Sessions\<close>

text \<open>The packets of a sequence that a validator lets pass.\<close>

fun session_accepted :: "session_validator \<Rightarrow> packet list \<Rightarrow> packet list" where
  "session_accepted v [] = []"
| "session_accepted v (p # ps) =
     (case validate_packet p v of (Ok _, v') \<Rightarrow> p # session_accepted v' ps | (_, v') \<Rightarrow> session_accepted v' ps)"

lemma session_accepted_Cons:
  "session_accepted v (p # ps) =
     (if pk_generation p = sv_generation v \<and> sv_last_request_id v < pk_request_id p
      then p # session_accepted (v\<lparr>sv_last_request_id := pk_request_id p\<rparr>) ps else session_accepted v ps)"
proof -
  have "pk_request_id p \<noteq> 0" if "sv_last_request_id v < pk_request_id p"
    using that word_not_simps(1) by auto
  then show ?thesis by (auto simp: validate_packet_def not_le)
qed

lemma session_accepted_bound:
  "p \<in> set (session_accepted v ps) \<Longrightarrow> pk_generation p = sv_generation v \<and> sv_last_request_id v < pk_request_id p"
proof (induction ps arbitrary: v)
  case (Cons q ps)
  then show ?case
    by (fastforce simp: session_accepted_Cons simp del: session_accepted.simps split: if_splits)
qed simp

lemma session_accepted_sorted: "sorted_wrt (\<lambda>p q. pk_request_id p < pk_request_id q) (session_accepted v ps)"
proof (induction ps arbitrary: v)
  case (Cons q ps)
  then show ?case
    using session_accepted_bound by (fastforce simp: session_accepted_Cons simp del: session_accepted.simps)
qed simp

text \<open>C31: a session lets a packet pass exactly if it carries the generation of the session and a request number
  above every number it let pass before, so what passes is strictly increasing and no packet passes twice.\<close>
theorem session_accepts_increasing:
  "session_accepted (validator_new g) (ps @ [p]) = session_accepted (validator_new g) ps @
     (if pk_generation p = g \<and> pk_request_id p \<noteq> 0 \<and> list_all (\<lambda>q. pk_request_id q < pk_request_id p) (session_accepted (validator_new g) ps)
      then [p] else []) \<and>
   sorted_wrt (\<lambda>q r. pk_request_id q < pk_request_id r) (session_accepted (validator_new g) ps)"
proof -
  have "session_accepted v (ps @ [p]) = session_accepted v ps @ (if pk_generation p = sv_generation v \<and>
      sv_last_request_id v < pk_request_id p \<and> list_all (\<lambda>q. pk_request_id q < pk_request_id p) (session_accepted v ps)
      then [p] else [])" for v
  proof (induction ps arbitrary: v)
    case Nil
    show ?case by (simp add: session_accepted_Cons del: session_accepted.simps(2))
  next
    case (Cons q ps)
    then show ?case
      by (auto simp: session_accepted_Cons simp del: session_accepted.simps(2))
  qed
  then show ?thesis
    by (simp add: validator_new_def session_accepted_sorted word_neq_0_conv)
qed

end
