(* ===== verification/Supervisor_Wire.thy ===== *)
theory Supervisor_Wire
  imports Drv_Prelude
begin

text \<open>
  The lifecycle messages between the Wi-Fi service and the network supervisor
  (\<open>crates/wifi/wifi-supervisor-wire/src/lib.rs\<close>): 40 bytes, and a codec that is canonical.
\<close>

section \<open>Messages\<close>

definition MESSAGE_LEN :: nat where "MESSAGE_LEN = 40"
definition MAGIC :: bytes where "MAGIC = [0x57, 0x4c, 0x53, 0x56]"
definition VERSION :: u16 where "VERSION = 1"

datatype lifecycle_kind = Install | Revoke

record lifecycle_message =
  lm_kind :: lifecycle_kind
  lm_wifi_generation :: bytes
  lm_ethernet_generation :: u64
  lm_mac_address :: bytes

datatype lifecycle_error =
  InvalidLength | InvalidMagic | UnsupportedVersion | UnknownKind | InvalidFlags | InvalidReserved

text \<open>The array types of the fields: 16 bytes of generation and 6 of address.\<close>

definition lifecycle_typed :: "lifecycle_message \<Rightarrow> bool" where
  "lifecycle_typed m \<longleftrightarrow> length (lm_wifi_generation m) = 16 \<and> length (lm_mac_address m) = 6"

definition lifecycle_encode :: "lifecycle_message \<Rightarrow> bytes" where
  "lifecycle_encode m =
     (let bs = replicate MESSAGE_LEN 0;
          bs = overwrite 0 MAGIC bs;
          bs = overwrite 4 (le_bytes 2 VERSION) bs;
          bs = bs[6 := (case lm_kind m of Install \<Rightarrow> 1 | Revoke \<Rightarrow> 2)];
          bs = overwrite 8 (lm_wifi_generation m) bs;
          bs = overwrite 24 (le_bytes 8 (lm_ethernet_generation m)) bs
      in overwrite 32 (lm_mac_address m) bs)"

definition lifecycle_decode :: "bytes \<Rightarrow> (lifecycle_error, lifecycle_message) res" where
  "lifecycle_decode bs =
     (if length bs \<noteq> MESSAGE_LEN then Err InvalidLength
      else and_then (slice 0 4 bs) (\<lambda>magic.
        if magic \<noteq> MAGIC then Err InvalidMagic
        else and_then (slice 4 6 bs) (\<lambda>version.
        if from_le version \<noteq> VERSION then Err UnsupportedVersion
        else and_then (index bs 6) (\<lambda>k.
        and_then (if k = 1 then Ok Install else if k = 2 then Ok Revoke else Err UnknownKind) (\<lambda>kind.
        and_then (index bs 7) (\<lambda>flags.
        if flags \<noteq> 0 then Err InvalidFlags
        else and_then (slice 38 40 bs) (\<lambda>reserved.
        if reserved \<noteq> [0, 0] then Err InvalidReserved
        else and_then (slice 8 24 bs) (\<lambda>wifi_generation.
             and_then (slice 24 32 bs) (\<lambda>ethernet_generation.
             and_then (slice 32 38 bs) (\<lambda>mac_address.
               Ok \<lparr>lm_kind = kind, lm_wifi_generation = wifi_generation,
                   lm_ethernet_generation = from_le ethernet_generation,
                   lm_mac_address = mac_address\<rparr>))))))))))"

section \<open>The codec is canonical\<close>

lemma lifecycle_encode_fields:
  assumes "lifecycle_typed m"
  shows "lifecycle_encode m = MAGIC @ le_bytes 2 VERSION @ [case lm_kind m of Install \<Rightarrow> 1 | Revoke \<Rightarrow> 2, 0]
    @ lm_wifi_generation m @ le_bytes 8 (lm_ethernet_generation m) @ lm_mac_address m @ [0, 0]"
proof -
  have z: "replicate MESSAGE_LEN (0::u8) = replicate 4 0 @ replicate 2 0 @ [0, 0] @ replicate 16 0 @ replicate 8 0
      @ replicate 6 0 @ [0, 0]"
    by (simp add: MESSAGE_LEN_def numeral_eq_Suc)
  show ?thesis
    using assms unfolding lifecycle_encode_def Let_def lifecycle_typed_def z
    by (simp add: overwrite_def MAGIC_def list_update_append)
qed

lemma lifecycle_split:
  assumes "length bs = 40"
  shows "bs = take 4 bs @ take 2 (drop 4 bs) @ [bs ! 6, bs ! 7] @ take 16 (drop 8 bs) @ take 8 (drop 24 bs)
    @ take 6 (drop 32 bs) @ take 2 (drop 38 bs)"
proof -
  have d: "drop i bs = take n (drop i bs) @ drop (i + n) bs" for i n
    using append_take_drop_id [of n "drop i bs"] by (simp add: add.commute)
  have "drop 6 bs = [bs ! 6, bs ! 7] @ drop 8 bs" "drop 38 bs = take 2 (drop 38 bs)"
    using assms by (simp_all add: Cons_nth_drop_Suc [symmetric] numeral_eq_Suc)
  note e = this
  have "bs = take 4 bs @ drop 4 bs" by simp
  also have "drop 4 bs = take 2 (drop 4 bs) @ drop 6 bs" using d [of 4 2] by simp
  also note e(1)
  also have "drop 8 bs = take 16 (drop 8 bs) @ drop 24 bs" using d [of 8 16] by simp
  also have "drop 24 bs = take 8 (drop 24 bs) @ drop 32 bs" using d [of 24 8] by simp
  also have "drop 32 bs = take 6 (drop 32 bs) @ drop 38 bs" using d [of 32 6] by simp
  also note e(2)
  finally show ?thesis .
qed

lemma from_le_eq_iff:
  assumes "8 * length bs = LENGTH('w)"
  shows "from_le bs = (w :: 'w::len word) \<longleftrightarrow> bs = le_bytes (length bs) w"
  using le_bytes_from_le [of bs, where 'w = 'w] from_le_le_bytes [of "length bs" w] assms by auto

lemma lifecycle_decode_iff: "lifecycle_decode bs = Ok m \<longleftrightarrow> lifecycle_typed m \<and> lifecycle_encode m = bs"
proof
  assume d: "lifecycle_decode bs = Ok m"
  then have l: "length bs = 40" by (auto simp: lifecycle_decode_def MESSAGE_LEN_def split: if_splits)
  have f: "take 4 bs = MAGIC" "take 2 (drop 4 bs) = le_bytes 2 VERSION"
      "bs ! 6 = (case lm_kind m of Install \<Rightarrow> 1 | Revoke \<Rightarrow> 2)" "bs ! 7 = 0" "take 2 (drop 38 bs) = [0, 0]"
      "lm_wifi_generation m = take 16 (drop 8 bs)" "le_bytes 8 (lm_ethernet_generation m) = take 8 (drop 24 bs)"
      "lm_mac_address m = take 6 (drop 32 bs)"
    using d l from_le_eq_iff [of "take 2 (drop 4 bs)" VERSION]
      le_bytes_from_le [of "take 8 (drop 24 bs)", where 'w = 64]
    by (auto simp: lifecycle_decode_def MESSAGE_LEN_def split: if_splits)
  then have "lifecycle_typed m" using l by (simp add: lifecycle_typed_def)
  then show "lifecycle_typed m \<and> lifecycle_encode m = bs"
    using f lifecycle_split [OF l] by (simp add: lifecycle_encode_fields)
next
  assume m: "lifecycle_typed m \<and> lifecycle_encode m = bs"
  then have "bs = MAGIC @ le_bytes 2 VERSION @ [case lm_kind m of Install \<Rightarrow> 1 | Revoke \<Rightarrow> 2, 0]
      @ lm_wifi_generation m @ le_bytes 8 (lm_ethernet_generation m) @ lm_mac_address m @ [0, 0]"
    using lifecycle_encode_fields by blast
  then show "lifecycle_decode bs = Ok m"
    using m by (cases m) (simp add: lifecycle_decode_def lifecycle_typed_def MESSAGE_LEN_def MAGIC_def slice_def index_def
        nth_append from_le_le_bytes split: lifecycle_kind.split)
qed

interpretation lifecycle: wire_codec "\<lambda>m. Ok (lifecycle_encode m)" lifecycle_decode lifecycle_typed
  by unfold_locales (simp_all add: lifecycle_decode_iff)

text \<open>C32: the decoder of lifecycle messages accepts exactly the 40-byte encodings of messages and returns the message
  that was encoded.\<close>
theorem lifecycle_codec_canonical:
  "lifecycle_decode bs = Ok m \<longleftrightarrow> lifecycle_typed m \<and> lifecycle_encode m = bs"
  using lifecycle.dec_iff [of bs m] by simp

end
