(* ===== verification/Op_Hoare.thy ===== *)
theory Op_Hoare
  imports Drv_Prelude
begin

text \<open>
  Operations that read and write a state, written as in the source, and a program logic for them:
  \<open>triple P m Q E\<close> says that from a state with \<open>P\<close> the operation \<open>m\<close> does not panic, establishes
  \<open>Q\<close> when it returns a value and \<open>E\<close> when it returns an error.
\<close>

named_theorems triple_rules \<open>rules of the program logic, one for each way to build an operation\<close>

section \<open>Building operations\<close>

definition st_get :: "('s \<Rightarrow> ('s, 'e, 'a) op) \<Rightarrow> ('s, 'e, 'a) op" where
  "st_get m s = m s s"

definition st_modify :: "('s \<Rightarrow> 's) \<Rightarrow> ('s, 'e, unit) op" where
  "st_modify u s = (Ok (), u s)"

text \<open>A \<open>match\<close> on the result of a call.\<close>

definition st_match ::
  "('s, 'e, 'a) op \<Rightarrow> ('a \<Rightarrow> ('s, 'f, 'b) op) \<Rightarrow> ('e \<Rightarrow> ('s, 'f, 'b) op) \<Rightarrow> ('s, 'f, 'b) op" where
  "st_match m f h s =
     (case m s of (Ok x, s') \<Rightarrow> f x s' | (Err e, s') \<Rightarrow> h e s' | (Panic, s') \<Rightarrow> (Panic, s'))"

definition st_map_err :: "('e \<Rightarrow> 'f) \<Rightarrow> ('s, 'e, 'a) op \<Rightarrow> ('s, 'f, 'a) op" where
  "st_map_err g m = st_match m (\<lambda>x. st_return (Ok x)) (\<lambda>e. st_return (Err (g e)))"

text \<open>A call on a component of the state.\<close>

definition st_zoom :: "('s \<Rightarrow> 't) \<Rightarrow> ('t \<Rightarrow> 's \<Rightarrow> 's) \<Rightarrow> ('t, 'e, 'a) op \<Rightarrow> ('s, 'e, 'a) op" where
  "st_zoom get put m s = (case m (get s) of (r, t) \<Rightarrow> (r, put t s))"

lemmas st_defs = st_get_def st_modify_def st_match_def st_map_err_def st_zoom_def st_then_def st_return_def

lemma st_get_apply [simp]: "st_get m s = m s s"
  by (simp add: st_get_def)

lemma st_modify_apply [simp]: "st_modify u s = (Ok (), u s)"
  by (simp add: st_modify_def)

section \<open>Triples\<close>

definition triple :: "('s \<Rightarrow> bool) \<Rightarrow> ('s, 'e, 'a) op \<Rightarrow> ('a \<Rightarrow> 's \<Rightarrow> bool) \<Rightarrow> ('e \<Rightarrow> 's \<Rightarrow> bool) \<Rightarrow> bool" where
  "triple P m Q E \<longleftrightarrow>
     (\<forall>s. P s \<longrightarrow> (case m s of (Ok x, s') \<Rightarrow> Q x s' | (Err e, s') \<Rightarrow> E e s' | (Panic, s') \<Rightarrow> False))"

lemma tripleI:
  "(\<And>s. P s \<Longrightarrow> (case m s of (Ok x, s') \<Rightarrow> Q x s' | (Err e, s') \<Rightarrow> E e s' | (Panic, s') \<Rightarrow> False)) \<Longrightarrow> triple P m Q E"
  by (simp add: triple_def)

lemma tripleD:
  assumes "triple P m Q E" "P s"
  shows "fst (m s) \<noteq> Panic" "m s = (Ok x, s') \<Longrightarrow> Q x s'" "m s = (Err e, s') \<Longrightarrow> E e s'"
proof -
  have "case m s of (Ok x, s') \<Rightarrow> Q x s' | (Err e, s') \<Rightarrow> E e s' | (Panic, s') \<Rightarrow> False"
    using assms by (simp add: triple_def)
  then show "fst (m s) \<noteq> Panic" "m s = (Ok x, s') \<Longrightarrow> Q x s'" "m s = (Err e, s') \<Longrightarrow> E e s'"
    by (auto split: prod.splits res.splits)
qed

lemma triple_returns:
  assumes "triple P m Q (\<lambda>_ _. False)" "P s"
  shows "\<exists>x s'. m s = (Ok x, s') \<and> Q x s'"
proof -
  obtain r s' where m: "m s = (r, s')" by fastforce
  then show ?thesis using tripleD [OF assms] by (cases r) (fastforce, simp, simp)
qed

lemma triple_weaken:
  assumes "triple P m Q E" "\<And>s. P' s \<Longrightarrow> P s" "\<And>x s. Q x s \<Longrightarrow> Q' x s" "\<And>e s. E e s \<Longrightarrow> E' e s"
  shows "triple P' m Q' E'"
  using assms by (fastforce simp: triple_def split: prod.splits res.splits)

lemma triple_pure: "(b \<Longrightarrow> triple P m Q E) \<Longrightarrow> triple (\<lambda>s. P s \<and> b) m Q E"
  by (auto simp: triple_def)

lemma triple_ex:
  assumes "\<And>x. triple (P x) m Q E"
  shows "triple (\<lambda>s. \<exists>x. P x s) m Q E"
proof (rule tripleI, erule exE)
  fix s x assume "P x s"
  then show "case m s of (Ok x, s') \<Rightarrow> Q x s' | (Err e, s') \<Rightarrow> E e s' | (Panic, s') \<Rightarrow> False"
    using assms [of x] by (simp add: triple_def)
qed

lemma triple_pre: "triple P m Q E \<Longrightarrow> (\<And>s. P' s \<Longrightarrow> P s) \<Longrightarrow> triple P' m Q E"
  by (rule triple_weaken)

lemma triple_return [triple_rules]:
  "(\<And>s. P s \<Longrightarrow> Q x s) \<Longrightarrow> triple P (st_return (Ok x)) Q E"
  "(\<And>s. P s \<Longrightarrow> E e s) \<Longrightarrow> triple P (st_return (Err e)) Q E"
  by (simp_all add: triple_def)

lemma triple_panic [triple_rules]: "(\<And>s. \<not> P s) \<Longrightarrow> triple P (st_return Panic) Q E"
  by (simp add: triple_def)

lemma triple_modify [triple_rules]: "(\<And>s. P s \<Longrightarrow> Q () (u s)) \<Longrightarrow> triple P (st_modify u) Q E"
  by (simp add: triple_def)

lemma triple_then [triple_rules]:
  assumes "triple P m R E" "\<And>x. triple (R x) (f x) Q E"
  shows "triple P (st_then m f) Q E"
  using assms by (fastforce simp: triple_def st_then_def split: prod.splits res.splits)

lemma triple_match [triple_rules]:
  assumes "triple P m R F" "\<And>x. triple (R x) (f x) Q E" "\<And>e. triple (F e) (h e) Q E"
  shows "triple P (st_match m f h) Q E"
  using assms by (fastforce simp: triple_def st_match_def split: prod.splits res.splits)

lemma triple_map_err [triple_rules]:
  assumes "triple P m Q (\<lambda>e. E (g e))"
  shows "triple P (st_map_err g m) Q E"
  using assms by (fastforce simp: triple_def st_map_err_def st_match_def split: prod.splits res.splits)

lemma triple_get [triple_rules]:
  "(\<And>t. triple (\<lambda>s. P s \<and> s = t) (m t) Q E) \<Longrightarrow> triple P (st_get m) Q E"
  by (fastforce simp: triple_def split: prod.splits res.splits)

lemma triple_if [triple_rules]:
  "(b \<Longrightarrow> triple P m Q E) \<Longrightarrow> (\<not> b \<Longrightarrow> triple P n Q E) \<Longrightarrow> triple P (if b then m else n) Q E"
  by simp

lemma triple_option [triple_rules]:
  "(z = None \<Longrightarrow> triple P m Q E) \<Longrightarrow> (\<And>x. z = Some x \<Longrightarrow> triple P (f x) Q E) \<Longrightarrow>
   triple P (case z of None \<Rightarrow> m | Some x \<Rightarrow> f x) Q E"
  by (cases z) simp_all

lemma triple_zoom:
  assumes "\<And>s r t. P s \<Longrightarrow> m (get s) = (r, t) \<Longrightarrow>
    (case r of Ok x \<Rightarrow> Q x (put t s) | Err e \<Rightarrow> E e (put t s) | Panic \<Rightarrow> False)"
  shows "triple P (st_zoom get put m) Q E"
proof (rule tripleI)
  fix s assume "P s"
  then show "case st_zoom get put m s of (Ok x, s') \<Rightarrow> Q x s' | (Err e, s') \<Rightarrow> E e s' | (Panic, s') \<Rightarrow> False"
    using assms [of s] by (cases "m (get s)") (auto simp: st_zoom_def split: res.splits)
qed

end
