(* ===== verification/Wifi_Control_Service.thy ===== *)
theory Wifi_Control_Service
  imports Wlan_Control_Guarantees Supervisor_Wire Op_Hoare
begin

text \<open>
  The policy control service of the Wi-Fi process (\<open>crates/wifi/wifi-control-service/src/lib.rs\<close>):
  the server that admits commands from the policy process, drives the runtime, and queues replies,
  events and Ethernet installations.

  The kernel and the runtime are parameters. \<open>kernel\<close> has the calls the service makes on clocks and
  sockets, over an arbitrary world \<open>'w\<close>; \<open>wifi_runtime\<close> is the trait \<open>WifiRuntime\<close>, over an arbitrary
  state \<open>'r\<close>. An instant is its number of nanoseconds. The fields \<open>cs_sent\<close>, \<open>cs_supervisor_sent\<close>,
  \<open>cs_history\<close> and \<open>cs_admitted\<close> of the server record its past: the packets the kernel took, the
  messages queued, the request numbers accepted. No operation reads them.
\<close>

section \<open>Interfaces\<close>

datatype io_error = WouldBlock | UnexpectedEof | WriteZero | OtherIo

datatype recv_outcome =
    RecvFailed io_error
  | RecvMsg bytes bool bool \<comment> \<open>data, \<open>MSG_TRUNC\<close>, \<open>MSG_CTRUNC\<close>\<close>

datatype send_outcome = SendFailed io_error | SendCount nat

record 'w kernel =
  k_now :: "'w \<Rightarrow> nat \<times> 'w"
  k_clock_gettime :: "'w \<Rightarrow> (int \<times> int) option \<times> 'w"
  k_recvmsg :: "'w \<Rightarrow> recv_outcome \<times> 'w"
  k_send_policy :: "bytes \<Rightarrow> nat option \<Rightarrow> 'w \<Rightarrow> send_outcome \<times> 'w"
  k_send_supervisor :: "bytes \<Rightarrow> nat option \<Rightarrow> 'w \<Rightarrow> send_outcome \<times> 'w"

datatype runtime_error =
  RtFailed connect_result | RtTimeout | RtUnsupported | RtBusy | RtNotConnected | RtDriverFault | RtContainmentFault

datatype disconnect_outcome = Disconnected | ConnectCanceled connect_result

record 'r wifi_runtime =
  rt_public_mac :: "'r \<Rightarrow> bytes"
  rt_take_ethernet_device :: "'r \<Rightarrow> nat option \<times> 'r"
  rt_begin_connect :: "connect_request \<Rightarrow> nat \<Rightarrow> ('r, runtime_error, unit) op"
  rt_drive_connect_once :: "('r, runtime_error, connect_result option) op"
  rt_roam :: "bss_description \<Rightarrow> ('r, runtime_error, unit) op"
  rt_begin_scan :: "scan_request \<Rightarrow> nat \<Rightarrow> ('r, runtime_error, unit) op"
  rt_drive_scan_once :: "('r, runtime_error, (scan_error_code + scan_result list) option) op"
  rt_drive_once :: "('r, runtime_error, bool) op"
  rt_next_connection_event :: "('r, runtime_error, connect_transaction_event option) op"
  rt_begin_disconnect :: "user_disconnect_reason \<Rightarrow> nat \<Rightarrow> ('r, runtime_error, unit) op"
  rt_drive_disconnect_once :: "('r, runtime_error, disconnect_outcome option) op"
  rt_begin_power_save :: "power_save_mode \<Rightarrow> nat \<Rightarrow> ('r, runtime_error, unit) op"
  rt_drive_power_save_once :: "('r, runtime_error, unit option) op"

datatype endpoint_error =
    EpIo io_error
  | NotUnix
  | NotSeqpacket
  | EpNotConnected
  | AliasedEndpoints
  | TruncatedPacket
  | TruncatedAncillary
  | WrongFdCount nat nat
  | EpWire wire_error

datatype service_error = Endpoint endpoint_error | Runtime runtime_error

section \<open>State\<close>

definition MAX_OUTBOUND_PACKETS :: nat where "MAX_OUTBOUND_PACKETS = 64"
definition MAX_OUTBOUND_BYTES :: nat where "MAX_OUTBOUND_BYTES = 64 * 1024"
definition NORMAL_PACKET_LIMIT :: nat where "NORMAL_PACKET_LIMIT = MAX_OUTBOUND_PACKETS - 1"
definition NORMAL_BYTE_LIMIT :: nat where "NORMAL_BYTE_LIMIT = MAX_OUTBOUND_BYTES - MAX_PACKET"

record outbound_packet =
  ob_drain_deadline :: nat
  ob_bytes :: bytes
  ob_fd :: "nat option"

record pending_disconnect =
  pd_requests :: "(u64 \<times> nat) list"
  pd_connect_request :: "u64 option"

record ('r, 'w) control_server =
  cs_kernel :: 'w
  cs_runtime :: 'r
  cs_validator :: session_validator
  cs_generation :: bytes
  cs_next_request_id :: u64
  cs_outbound :: "outbound_packet list"
  cs_outbound_bytes :: nat
  cs_supervisor_outbound :: "outbound_packet list"
  cs_supervisor_outbound_bytes :: nat
  cs_connect_request :: "u64 option"
  cs_scan_request :: "u64 option"
  cs_disconnect_request :: "pending_disconnect option"
  cs_power_save_request :: "(u64 \<times> nat) option"
  cs_ethernet_generation :: u64
  cs_terminal :: bool
  cs_sent :: "bytes list"
  cs_supervisor_sent :: "bytes list"
  cs_history :: "message list"
  cs_admitted :: "u64 list"

type_synonym ('r, 'w, 'e, 'a) server_op = "(('r, 'w) control_server, 'e, 'a) op"

definition runtime_end :: "runtime_error \<Rightarrow> generation_end_reason" where
  "runtime_end e =
     (case e of RtFailed _ \<Rightarrow> DriverFault | RtDriverFault \<Rightarrow> DriverFault | RtTimeout \<Rightarrow> Timeout
      | RtUnsupported \<Rightarrow> ProtocolViolation | RtBusy \<Rightarrow> ProtocolViolation | RtNotConnected \<Rightarrow> ProtocolViolation
      | RtContainmentFault \<Rightarrow> ContainmentFault)"

definition terminal_service :: "generation_end_reason \<Rightarrow> service_error" where
  "terminal_service reason =
     Runtime (case reason of Timeout \<Rightarrow> RtTimeout | ContainmentFault \<Rightarrow> RtContainmentFault | _ \<Rightarrow> RtDriverFault)"

definition is_terminal :: "('r, 'w) control_server \<Rightarrow> bool" where
  "is_terminal s \<longleftrightarrow> cs_terminal s \<and> cs_outbound s = [] \<and> cs_supervisor_outbound s = []"

section \<open>Clocks and sockets\<close>

text \<open>The largest instant: 63 bits of seconds. Adding a duration beyond it panics.\<close>

definition INSTANT_MAX :: nat where "INSTANT_MAX = 2 ^ 63 * 1000000000 - 1"

definition instant_add :: "nat \<Rightarrow> nat \<Rightarrow> ('e, nat) res" where
  "instant_add t d = (if t + d \<le> INSTANT_MAX then Ok (t + d) else Panic)"

definition seconds :: "nat \<Rightarrow> nat" where "seconds n = n * 1000000000"

definition now :: "'w kernel \<Rightarrow> ('r, 'w, 'e, nat) server_op" where
  "now k s = (case k_now k (cs_kernel s) of (t, w) \<Rightarrow> (Ok t, s\<lparr>cs_kernel := w\<rparr>))"

definition monotonic_time_ns :: "'w kernel \<Rightarrow> ('r, 'w, io_error, u64) server_op" where
  "monotonic_time_ns k s =
     (case k_clock_gettime k (cs_kernel s) of
        (None, w) \<Rightarrow> (Err OtherIo, s\<lparr>cs_kernel := w\<rparr>)
      | (Some (tv_sec, tv_nsec), w) \<Rightarrow>
          (ok_or (if tv_sec < 0 then None
                  else Option.bind (if nat tv_sec * 1000000000 < 2 ^ 64 then Some (of_nat (nat tv_sec * 1000000000)) else None)
                    (\<lambda>secs :: u64. checked_add_word secs (of_int tv_nsec))) OtherIo,
           s\<lparr>cs_kernel := w\<rparr>))"

definition required_fd_count :: "message \<Rightarrow> nat" where
  "required_fd_count m = 0"

definition try_receive :: "'w kernel \<Rightarrow> ('r, 'w, endpoint_error, (packet \<times> nat list) option) server_op" where
  "try_receive k s =
     (case k_recvmsg k (cs_kernel s) of (outcome, w) \<Rightarrow>
        (case outcome of
           RecvFailed e \<Rightarrow> if e = WouldBlock then Ok None else Err (EpIo e)
         | RecvMsg bs trunc ctrunc \<Rightarrow>
             if bs = [] then Err (EpIo UnexpectedEof)
             else if trunc then Err TruncatedPacket
             else if ctrunc then Err TruncatedAncillary
             else if length bs > MAX_PACKET then Panic
             else (case decode bs of
                     Panic \<Rightarrow> Panic
                   | Err e \<Rightarrow> Err (EpWire e)
                   | Ok p \<Rightarrow> if required_fd_count (pk_message p) \<noteq> 0
                            then Err (WrongFdCount (required_fd_count (pk_message p)) 0)
                            else Ok (Some (p, []))),
         s\<lparr>cs_kernel := w\<rparr>))"

definition send_result :: "outbound_packet \<Rightarrow> send_outcome \<Rightarrow> (endpoint_error, bool) res" where
  "send_result p outcome =
     (case outcome of
        SendFailed e \<Rightarrow> if e = WouldBlock then Ok False else Err (EpIo e)
      | SendCount n \<Rightarrow> if n \<noteq> length (ob_bytes p) then Err (EpIo WriteZero) else Ok True)"

definition try_send_policy :: "'w kernel \<Rightarrow> outbound_packet \<Rightarrow> ('r, 'w, endpoint_error, bool) server_op" where
  "try_send_policy k p s =
     (case k_send_policy k (ob_bytes p) (ob_fd p) (cs_kernel s) of (outcome, w) \<Rightarrow>
        (send_result p outcome, s\<lparr>cs_kernel := w\<rparr>))"

definition try_send_supervisor :: "'w kernel \<Rightarrow> outbound_packet \<Rightarrow> ('r, 'w, endpoint_error, bool) server_op" where
  "try_send_supervisor k p s =
     (case k_send_supervisor k (ob_bytes p) (ob_fd p) (cs_kernel s) of (outcome, w) \<Rightarrow>
        (send_result p outcome, s\<lparr>cs_kernel := w\<rparr>))"

section \<open>Endpoints\<close>

text \<open>The calls that inspect and configure inherited sockets, and the Linux values of the constants they use.\<close>

record 'w sockets =
  so_getsockopt :: "nat \<Rightarrow> int \<Rightarrow> int \<Rightarrow> 'w \<Rightarrow> (io_error + int) \<times> 'w"
  so_getpeername :: "nat \<Rightarrow> 'w \<Rightarrow> int option \<times> 'w" \<comment> \<open>the address family\<close>
  so_getfl :: "nat \<Rightarrow> 'w \<Rightarrow> (io_error + int) \<times> 'w"
  so_setfl :: "nat \<Rightarrow> int \<Rightarrow> 'w \<Rightarrow> io_error option \<times> 'w"
  so_fstat :: "nat \<Rightarrow> 'w \<Rightarrow> (io_error + nat \<times> nat) \<times> 'w" \<comment> \<open>device and inode\<close>

abbreviation AF_UNIX :: int where "AF_UNIX \<equiv> 1"
abbreviation SOL_SOCKET :: int where "SOL_SOCKET \<equiv> 1"
abbreviation SO_TYPE :: int where "SO_TYPE \<equiv> 3"
abbreviation SO_DOMAIN :: int where "SO_DOMAIN \<equiv> 39"
abbreviation SOCK_SEQPACKET :: int where "SOCK_SEQPACKET \<equiv> 5"
abbreviation O_NONBLOCK :: int where "O_NONBLOCK \<equiv> 0x800"

definition io_result :: "('w \<Rightarrow> (io_error + 'a) \<times> 'w) \<Rightarrow> ('w, endpoint_error, 'a) op" where
  "io_result call w = (case call w of (Inl e, w) \<Rightarrow> (Err (EpIo e), w) | (Inr x, w) \<Rightarrow> (Ok x, w))"

definition socket_option :: "'w sockets \<Rightarrow> nat \<Rightarrow> int \<Rightarrow> int \<Rightarrow> ('w, endpoint_error, int) op" where
  "socket_option so fd level name = io_result (so_getsockopt so fd level name)"

definition fd_identity :: "'w sockets \<Rightarrow> nat \<Rightarrow> ('w, endpoint_error, nat \<times> nat) op" where
  "fd_identity so fd = io_result (so_fstat so fd)"

definition from_inherited_fd :: "'w sockets \<Rightarrow> nat \<Rightarrow> ('w, endpoint_error, nat) op" where
  "from_inherited_fd so raw =
     st_then (socket_option so raw SOL_SOCKET SO_DOMAIN) (\<lambda>domain.
     if domain \<noteq> AF_UNIX then st_return (Err NotUnix)
     else st_then (socket_option so raw SOL_SOCKET SO_TYPE) (\<lambda>kind.
     if kind \<noteq> SOCK_SEQPACKET then st_return (Err NotSeqpacket)
     else st_then (\<lambda>w. case so_getpeername so raw w of (family, w) \<Rightarrow> (Ok family, w)) (\<lambda>family.
     if family \<noteq> Some AF_UNIX then st_return (Err EpNotConnected)
     else st_then (io_result (so_getfl so raw)) (\<lambda>flags.
       st_then (io_result (\<lambda>w. case so_setfl so raw (flags OR O_NONBLOCK) w of
           (None, w) \<Rightarrow> (Inr (), w) | (Some e, w) \<Rightarrow> (Inl e, w))) (\<lambda>_.
         st_return (Ok raw))))))"

text \<open>\<open>PreparedServerEndpoints::new\<close>: both sockets checked, and refused if they are the same one.\<close>

definition prepared_endpoints :: "'w sockets \<Rightarrow> nat \<Rightarrow> nat \<Rightarrow> ('w, endpoint_error, nat \<times> nat) op" where
  "prepared_endpoints so policy_fd supervisor_fd =
     st_then (from_inherited_fd so policy_fd) (\<lambda>policy.
     st_then (from_inherited_fd so supervisor_fd) (\<lambda>supervisor.
     st_then (fd_identity so policy) (\<lambda>a.
     st_then (fd_identity so supervisor) (\<lambda>b.
       if a = b then st_return (Err AliasedEndpoints) else st_return (Ok (policy, supervisor))))))"

section \<open>Queues\<close>

definition on_runtime :: "('r, 'e, 'a) op \<Rightarrow> ('r, 'w, 'e, 'a) server_op" where
  "on_runtime = st_zoom cs_runtime (\<lambda>r. cs_runtime_update (\<lambda>_. r))"

definition next_packet :: "('r, 'w) control_server \<Rightarrow> message \<Rightarrow> packet" where
  "next_packet s m = \<lparr>pk_generation = cs_generation s, pk_request_id = cs_next_request_id s, pk_message = m\<rparr>"

definition queue :: "'w kernel \<Rightarrow> message \<Rightarrow> nat option \<Rightarrow> ('r, 'w, generation_end_reason, unit) server_op" where
  "queue k m fd = st_get (\<lambda>s.
     if fd \<noteq> None \<or> required_fd_count m \<noteq> 0 then st_return (Err ProtocolViolation)
     else if required_fd_count m \<noteq> (if fd \<noteq> None then 1 else 0) then st_return (Err ContainmentFault)
     else st_then (st_map_err (\<lambda>_. ProtocolViolation) (st_return (encode (next_packet s m)))) (\<lambda>bytes.
       if length (cs_outbound s) \<ge> NORMAL_PACKET_LIMIT \<or> cs_outbound_bytes s + length bytes > NORMAL_BYTE_LIMIT
       then st_return (Err Backpressure)
       else st_then (st_return (ok_or (checked_add_word (cs_next_request_id s) 1) ProtocolViolation)) (\<lambda>n.
            st_then (st_modify (\<lambda>s. s\<lparr>cs_next_request_id := n, cs_outbound_bytes := cs_outbound_bytes s + length bytes\<rparr>)) (\<lambda>_.
            st_then (now k) (\<lambda>t.
            st_then (st_return (instant_add t (seconds 2))) (\<lambda>drain_deadline.
              st_modify (\<lambda>s. s\<lparr>cs_outbound := cs_outbound s @
                  [\<lparr>ob_drain_deadline = drain_deadline, ob_bytes = bytes, ob_fd = fd\<rparr>],
                cs_history := cs_history s @ [m]\<rparr>)))))))"

definition queue_connect_result :: "'w kernel \<Rightarrow> u64 \<Rightarrow> connect_result \<Rightarrow> ('r, 'w, generation_end_reason, unit) server_op" where
  "queue_connect_result k i result =
     queue k (ConnectReply \<lparr>re_in_reply_to = i, re_result = Completed result\<rparr>) None"

definition queue_scan_reply ::
  "'w kernel \<Rightarrow> u64 \<Rightarrow> scan_error_code + scan_result list \<Rightarrow> ('r, 'w, generation_end_reason, unit) server_op" where
  "queue_scan_reply k i result = queue k (ScanReply \<lparr>re_in_reply_to = i, re_result = result\<rparr>) None"

definition queue_supervisor_install ::
  "'w kernel \<Rightarrow> u64 \<Rightarrow> bytes \<Rightarrow> nat \<Rightarrow> ('r, 'w, generation_end_reason, unit) server_op" where
  "queue_supervisor_install k ethernet_generation mac fd = st_get (\<lambda>s.
     let bytes = lifecycle_encode \<lparr>lm_kind = Install, lm_wifi_generation = cs_generation s,
           lm_ethernet_generation = ethernet_generation, lm_mac_address = mac\<rparr> in
     if length (cs_supervisor_outbound s) \<ge> NORMAL_PACKET_LIMIT
        \<or> cs_supervisor_outbound_bytes s + length bytes > NORMAL_BYTE_LIMIT
     then st_return (Err Backpressure)
     else st_then (st_modify (\<lambda>s. s\<lparr>cs_supervisor_outbound_bytes := cs_supervisor_outbound_bytes s + length bytes\<rparr>)) (\<lambda>_.
          st_then (now k) (\<lambda>t.
          st_then (st_return (instant_add t (seconds 2))) (\<lambda>drain_deadline.
            st_modify (\<lambda>s. s\<lparr>cs_supervisor_outbound := cs_supervisor_outbound s @
              [\<lparr>ob_drain_deadline = drain_deadline, ob_bytes = bytes, ob_fd = Some fd\<rparr>]\<rparr>)))))"

definition end_generation :: "'w kernel \<Rightarrow> generation_end_reason \<Rightarrow> ('r, 'w, service_error, unit) server_op" where
  "end_generation k reason = st_get (\<lambda>s.
     if cs_terminal s then st_return (Ok ())
     else st_then (st_map_err (\<lambda>e. Endpoint (EpWire e)) (st_return (encode (next_packet s (GenerationEnd reason))))) (\<lambda>bytes.
       if cs_next_request_id s = - 1 then st_return Panic
       else st_then (st_modify (\<lambda>s. s\<lparr>cs_next_request_id := cs_next_request_id s + 1,
                                       cs_outbound_bytes := cs_outbound_bytes s + length bytes\<rparr>)) (\<lambda>_.
            st_then (now k) (\<lambda>t.
            st_then (st_return (instant_add t (seconds 2))) (\<lambda>drain_deadline.
            st_then (st_modify (\<lambda>s. s\<lparr>cs_outbound := cs_outbound s @
                  [\<lparr>ob_drain_deadline = drain_deadline, ob_bytes = bytes, ob_fd = None\<rparr>],
                cs_history := cs_history s @ [GenerationEnd reason]\<rparr>)) (\<lambda>_.
            st_get (\<lambda>s.
              if \<not> length (cs_outbound s) \<le> MAX_OUTBOUND_PACKETS then st_return Panic
              else if \<not> cs_outbound_bytes s \<le> MAX_OUTBOUND_BYTES then st_return Panic
              else st_modify (\<lambda>s. s\<lparr>cs_terminal := True\<rparr>))))))))"

section \<open>Flushing\<close>

text \<open>Whether a packet at the front of a queue is past its drain deadline; the clock is read once per packet.\<close>

fun any_due :: "'w kernel \<Rightarrow> outbound_packet list \<Rightarrow> ('r, 'w, 'e, bool) server_op" where
  "any_due k [] = st_return (Ok False)"
| "any_due k (p # ps) = st_then (now k) (\<lambda>t.
     if t \<ge> ob_drain_deadline p then st_return (Ok True) else any_due k ps)"

function flush_policy :: "'w kernel \<Rightarrow> bool \<Rightarrow> ('r, 'w, service_error, bool) server_op" where
  "flush_policy k progressed s =
     (case cs_outbound s of
        [] \<Rightarrow> (Ok progressed, s)
      | p # ps \<Rightarrow>
          (case try_send_policy k p s of
             (Panic, s') \<Rightarrow> (Panic, s')
           | (Err e, s') \<Rightarrow> (Err (Endpoint e), s')
           | (Ok False, s') \<Rightarrow> (Ok progressed, s')
           | (Ok True, s') \<Rightarrow>
               if length (ob_bytes p) > cs_outbound_bytes s' then (Panic, s'\<lparr>cs_outbound := ps\<rparr>)
               else flush_policy k True (s'\<lparr>cs_outbound := ps,
                      cs_outbound_bytes := cs_outbound_bytes s' - length (ob_bytes p),
                      cs_sent := cs_sent s' @ [ob_bytes p]\<rparr>)))"
  by pat_completeness auto
termination
  by (relation "measure (\<lambda>(k, progressed, s). length (cs_outbound s))") auto

function flush_supervisor :: "'w kernel \<Rightarrow> bool \<Rightarrow> ('r, 'w, service_error, bool) server_op" where
  "flush_supervisor k progressed s =
     (case cs_supervisor_outbound s of
        [] \<Rightarrow> (Ok progressed, s)
      | p # ps \<Rightarrow>
          (case try_send_supervisor k p s of
             (Panic, s') \<Rightarrow> (Panic, s')
           | (Err e, s') \<Rightarrow> (Err (Endpoint e), s')
           | (Ok False, s') \<Rightarrow> (Ok progressed, s')
           | (Ok True, s') \<Rightarrow>
               if length (ob_bytes p) > cs_supervisor_outbound_bytes s' then (Panic, s'\<lparr>cs_supervisor_outbound := ps\<rparr>)
               else flush_supervisor k True (s'\<lparr>cs_supervisor_outbound := ps,
                      cs_supervisor_outbound_bytes := cs_supervisor_outbound_bytes s' - length (ob_bytes p),
                      cs_supervisor_sent := cs_supervisor_sent s' @ [ob_bytes p]\<rparr>)))"
  by pat_completeness auto
termination
  by (relation "measure (\<lambda>(k, progressed, s). length (cs_supervisor_outbound s))") auto

declare flush_policy.simps [simp del] flush_supervisor.simps [simp del]

definition flush :: "'w kernel \<Rightarrow> ('r, 'w, service_error, bool) server_op" where
  "flush k = st_get (\<lambda>s.
     st_then (any_due k (take 1 (cs_outbound s) @ take 1 (cs_supervisor_outbound s))) (\<lambda>due.
       if due then st_then (st_modify (\<lambda>s. s\<lparr>cs_terminal := True\<rparr>)) (\<lambda>_. st_return (Err (Runtime RtTimeout)))
       else st_then (flush_policy k False) (flush_supervisor k)))"

section \<open>Commands\<close>

definition queue_unit_reply :: "'w kernel \<Rightarrow> u64 \<Rightarrow> ('r, 'w, generation_end_reason, unit) server_op" where
  "queue_unit_reply k i = queue k (DeadlineExceeded \<lparr>re_in_reply_to = i, re_result = ()\<rparr>) None"

text \<open>The admission of a command by its deadline: \<open>Inl ()\<close> when it has passed and was answered, else the local
  instant, if the message has a deadline.\<close>

definition admit_deadline ::
  "'w kernel \<Rightarrow> packet \<Rightarrow> ('r, 'w, generation_end_reason, unit + nat option) server_op" where
  "admit_deadline k p =
     (case message_deadline (pk_message p) of
        None \<Rightarrow> st_return (Ok (Inr None))
      | Some deadline \<Rightarrow>
          st_then (now k) (\<lambda>local_now.
          st_then (st_map_err (\<lambda>_. DriverFault) (monotonic_time_ns k)) (\<lambda>t.
            case deadline_remaining deadline t of
              None \<Rightarrow> st_then (queue_unit_reply k (pk_request_id p)) (\<lambda>_. st_return (Ok (Inl ())))
            | Some left \<Rightarrow>
                if unat left > seconds 30 then st_return (Err ProtocolViolation)
                else st_then (st_return (instant_add local_now (unat left))) (\<lambda>d. st_return (Ok (Inr (Some d)))))))"

definition expect :: "'a option \<Rightarrow> ('r, 'w, 'e, 'a) server_op" where
  "expect z = st_return (case z of None \<Rightarrow> Panic | Some x \<Rightarrow> Ok x)"

definition dispatch_scan ::
  "'r wifi_runtime \<Rightarrow> 'w kernel \<Rightarrow> u64 \<Rightarrow> nat option \<Rightarrow> scan_request \<Rightarrow> ('r, 'w, generation_end_reason, unit) server_op" where
  "dispatch_scan rt k i admitted request = st_get (\<lambda>s.
     if cs_scan_request s \<noteq> None \<or> cs_disconnect_request s \<noteq> None \<or> cs_power_save_request s \<noteq> None
     then queue_scan_reply k i (Inl ShouldWait)
     else st_then (expect admitted) (\<lambda>deadline.
          st_match (on_runtime (rt_begin_scan rt request deadline))
            (\<lambda>_. st_modify (\<lambda>s. s\<lparr>cs_scan_request := Some i\<rparr>))
            (\<lambda>e. st_return (Err (runtime_end e)))))"

definition dispatch_connect ::
  "'r wifi_runtime \<Rightarrow> u64 \<Rightarrow> nat option \<Rightarrow> connect_request \<Rightarrow> ('r, 'w, generation_end_reason, unit) server_op" where
  "dispatch_connect rt i admitted request = st_get (\<lambda>s.
     if cs_connect_request s \<noteq> None \<or> cs_disconnect_request s \<noteq> None \<or> cs_power_save_request s \<noteq> None
     then st_return (Err ProtocolViolation)
     else st_then (expect admitted) (\<lambda>deadline.
          st_match (on_runtime (rt_begin_connect rt request deadline))
            (\<lambda>_. st_modify (\<lambda>s. s\<lparr>cs_connect_request := Some i\<rparr>))
            (\<lambda>e. st_return (Err (runtime_end e)))))"

definition dispatch_disconnect ::
  "'r wifi_runtime \<Rightarrow> u64 \<Rightarrow> nat option \<Rightarrow> user_disconnect_reason \<Rightarrow> ('r, 'w, generation_end_reason, unit) server_op" where
  "dispatch_disconnect rt i admitted reason =
     st_then (expect admitted) (\<lambda>deadline. st_get (\<lambda>s.
       if cs_power_save_request s \<noteq> None then st_return (Err ProtocolViolation)
       else case cs_disconnect_request s of
         Some pending \<Rightarrow>
           if length (pd_requests pending) = NORMAL_PACKET_LIMIT then st_return (Err Backpressure)
           else st_modify (\<lambda>s. s\<lparr>cs_disconnect_request :=
                  Some (pending\<lparr>pd_requests := pd_requests pending @ [(i, deadline)]\<rparr>)\<rparr>)
       | None \<Rightarrow>
           st_then (st_map_err runtime_end (on_runtime (rt_begin_disconnect rt reason deadline))) (\<lambda>_.
             st_modify (\<lambda>s. s\<lparr>cs_disconnect_request :=
                 Some \<lparr>pd_requests = [(i, deadline)], pd_connect_request = cs_connect_request s\<rparr>,
               cs_connect_request := None\<rparr>))))"

definition dispatch_roam ::
  "'r wifi_runtime \<Rightarrow> 'w kernel \<Rightarrow> u64 \<Rightarrow> bss_description \<Rightarrow> ('r, 'w, generation_end_reason, unit) server_op" where
  "dispatch_roam rt k i request = st_get (\<lambda>s.
     st_then
       (if cs_disconnect_request s \<noteq> None \<or> cs_power_save_request s \<noteq> None then st_return (Ok Busy)
        else st_match (on_runtime (rt_roam rt request))
          (\<lambda>_. st_return (Ok Success))
          (\<lambda>e. if e = RtUnsupported then st_return (Ok Unsupported_reply) else st_return (Err (runtime_end e))))
       (\<lambda>reply. queue k (RoamReply \<lparr>re_in_reply_to = i, re_result = reply\<rparr>) None))"

text \<open>How a refused power-save command is answered; other errors end the generation.\<close>

definition power_save_refusal :: "runtime_error \<Rightarrow> command_reply option" where
  "power_save_refusal e =
     (case e of RtBusy \<Rightarrow> Some Busy | RtNotConnected \<Rightarrow> Some NotConnected | RtUnsupported \<Rightarrow> Some Unsupported_reply
      | _ \<Rightarrow> None)"

definition queue_power_save_reply ::
  "'w kernel \<Rightarrow> u64 \<Rightarrow> command_reply \<Rightarrow> ('r, 'w, generation_end_reason, unit) server_op" where
  "queue_power_save_reply k i reply = queue k (SetPowerSaveReply \<lparr>re_in_reply_to = i, re_result = reply\<rparr>) None"

definition dispatch_power_save ::
  "'r wifi_runtime \<Rightarrow> 'w kernel \<Rightarrow> u64 \<Rightarrow> nat option \<Rightarrow> power_save_mode \<Rightarrow> ('r, 'w, generation_end_reason, unit) server_op" where
  "dispatch_power_save rt k i admitted mode =
     st_then (expect admitted) (\<lambda>deadline. st_get (\<lambda>s.
       if cs_power_save_request s \<noteq> None \<or> cs_disconnect_request s \<noteq> None \<or> cs_connect_request s \<noteq> None
          \<or> cs_scan_request s \<noteq> None
       then queue_power_save_reply k i Busy
       else st_match (on_runtime (rt_begin_power_save rt mode deadline))
         (\<lambda>_. st_modify (\<lambda>s. s\<lparr>cs_power_save_request := Some (i, deadline)\<rparr>))
         (\<lambda>e. case power_save_refusal e of
                Some reply \<Rightarrow> queue_power_save_reply k i reply
              | None \<Rightarrow> st_return (Err (runtime_end e)))))"

definition dispatch :: "'r wifi_runtime \<Rightarrow> 'w kernel \<Rightarrow> packet \<Rightarrow> ('r, 'w, generation_end_reason, unit) server_op" where
  "dispatch rt k p =
     st_then (admit_deadline k p) (\<lambda>admitted.
       case admitted of
         Inl _ \<Rightarrow> st_return (Ok ())
       | Inr d \<Rightarrow>
           (case pk_message p of
              Scan _ request \<Rightarrow> dispatch_scan rt k (pk_request_id p) d request
            | Connect _ request \<Rightarrow> dispatch_connect rt (pk_request_id p) d request
            | Disconnect _ reason \<Rightarrow> dispatch_disconnect rt (pk_request_id p) d reason
            | Roam _ request \<Rightarrow> dispatch_roam rt k (pk_request_id p) request
            | SetPowerSave _ mode \<Rightarrow> dispatch_power_save rt k (pk_request_id p) d mode
            | _ \<Rightarrow> st_return (Err ProtocolViolation)))"

section \<open>Driving the runtime\<close>

lemma queue_pushes:
  assumes "queue k m fd s = (Ok u, s')"
  shows "length (cs_outbound s) < NORMAL_PACKET_LIMIT \<and> length (cs_outbound s') = Suc (length (cs_outbound s))"
  using assms by (auto simp: queue_def st_defs now_def instant_add_def
      split: if_splits res.splits prod.splits option.splits)

text \<open>The loop over pending events ends because the queue that takes them is bounded.\<close>

function queue_connection_events ::
  "'r wifi_runtime \<Rightarrow> 'w kernel \<Rightarrow> bool \<Rightarrow> ('r, 'w, generation_end_reason, bool) server_op" where
  "queue_connection_events rt k progressed s =
     (case on_runtime (rt_next_connection_event rt) s of
        (Panic, s') \<Rightarrow> (Panic, s')
      | (Err e, s') \<Rightarrow> (Err (runtime_end e), s')
      | (Ok None, s') \<Rightarrow> (Ok progressed, s')
      | (Ok (Some event), s') \<Rightarrow>
          (case queue k (Event event) None s' of
             (Panic, t) \<Rightarrow> (Panic, t)
           | (Err e, t) \<Rightarrow> (Err e, t)
           | (Ok _, t) \<Rightarrow> queue_connection_events rt k True t))"
  by pat_completeness auto
termination
  by (relation "measure (\<lambda>(rt, k, progressed, s). NORMAL_PACKET_LIMIT - length (cs_outbound s))")
    (auto dest!: queue_pushes [OF sym] simp: on_runtime_def st_zoom_def split: prod.splits)

declare queue_connection_events.simps [simp del]

definition end_true :: "'w kernel \<Rightarrow> generation_end_reason \<Rightarrow> ('r, 'w, service_error, bool) server_op" where
  "end_true k reason = st_then (end_generation k reason) (\<lambda>_. st_return (Ok True))"

definition finish_power_save :: "'w kernel \<Rightarrow> u64 \<Rightarrow> command_reply \<Rightarrow> ('r, 'w, service_error, bool) server_op" where
  "finish_power_save k i reply =
     st_then (st_modify (\<lambda>s. s\<lparr>cs_power_save_request := None\<rparr>)) (\<lambda>_.
     st_then (st_map_err terminal_service (queue_power_save_reply k i reply)) (\<lambda>_. st_return (Ok True)))"

definition drive_power_save ::
  "'r wifi_runtime \<Rightarrow> 'w kernel \<Rightarrow> u64 \<Rightarrow> nat \<Rightarrow> bool \<Rightarrow> ('r, 'w, service_error, bool) server_op" where
  "drive_power_save rt k i deadline progressed =
     st_then (now k) (\<lambda>t.
       if t \<ge> deadline then end_true k Timeout
       else st_match (on_runtime (rt_drive_power_save_once rt))
         (\<lambda>r. case r of None \<Rightarrow> st_return (Ok progressed) | Some _ \<Rightarrow> finish_power_save k i Success)
         (\<lambda>e. case power_save_refusal e of
                None \<Rightarrow> end_true k (runtime_end e) | Some reply \<Rightarrow> finish_power_save k i reply))"

fun any_expired :: "'w kernel \<Rightarrow> (u64 \<times> nat) list \<Rightarrow> ('r, 'w, 'e, bool) server_op" where
  "any_expired k [] = st_return (Ok False)"
| "any_expired k (r # rs) = st_then (now k) (\<lambda>t. if t \<ge> snd r then st_return (Ok True) else any_expired k rs)"

fun queue_disconnect_replies :: "'w kernel \<Rightarrow> (u64 \<times> nat) list \<Rightarrow> ('r, 'w, generation_end_reason, unit) server_op" where
  "queue_disconnect_replies k [] = st_return (Ok ())"
| "queue_disconnect_replies k (r # rs) =
     st_then (queue k (DisconnectReply \<lparr>re_in_reply_to = fst r, re_result = Success\<rparr>) None) (\<lambda>_.
       queue_disconnect_replies k rs)"

definition finish_disconnect ::
  "'r wifi_runtime \<Rightarrow> 'w kernel \<Rightarrow> pending_disconnect \<Rightarrow> disconnect_outcome \<Rightarrow> ('r, 'w, generation_end_reason, unit) server_op" where
  "finish_disconnect rt k pending outcome =
     st_then (case pd_connect_request pending of
                Some i \<Rightarrow> (case outcome of ConnectCanceled result \<Rightarrow> queue_connect_result k i result
                          | Disconnected \<Rightarrow> st_return (Err DriverFault))
              | None \<Rightarrow> (case outcome of Disconnected \<Rightarrow> st_return (Ok ()) | ConnectCanceled _ \<Rightarrow> st_return (Err DriverFault)))
       (\<lambda>_. st_then (queue_connection_events rt k False) (\<lambda>_. queue_disconnect_replies k (pd_requests pending)))"

definition drive_disconnect ::
  "'r wifi_runtime \<Rightarrow> 'w kernel \<Rightarrow> pending_disconnect \<Rightarrow> bool \<Rightarrow> ('r, 'w, service_error, bool) server_op" where
  "drive_disconnect rt k pending progressed =
     st_then (any_expired k (pd_requests pending)) (\<lambda>expired.
       if expired then end_true k Timeout
       else st_match (on_runtime (rt_drive_disconnect_once rt))
         (\<lambda>r. case r of
                None \<Rightarrow> st_return (Ok progressed)
              | Some outcome \<Rightarrow>
                  st_then (st_modify (\<lambda>s. s\<lparr>cs_disconnect_request := None\<rparr>)) (\<lambda>_.
                    st_match (finish_disconnect rt k pending outcome) (\<lambda>_. st_return (Ok True)) (end_true k)))
         (\<lambda>e. end_true k (runtime_end e)))"

text \<open>A part of the drive that may end it early takes the rest of the drive as its continuation.\<close>

definition drive_connect ::
  "'r wifi_runtime \<Rightarrow> 'w kernel \<Rightarrow> (bool \<Rightarrow> ('r, 'w, service_error, bool) server_op) \<Rightarrow> bool \<Rightarrow>
   ('r, 'w, service_error, bool) server_op" where
  "drive_connect rt k rest progressed = st_get (\<lambda>s.
     case cs_connect_request s of
       None \<Rightarrow> rest progressed
     | Some i \<Rightarrow>
         st_match (on_runtime (rt_drive_connect_once rt))
           (\<lambda>r. case r of
                  None \<Rightarrow> rest progressed
                | Some result \<Rightarrow>
                    st_then (st_modify (\<lambda>s. s\<lparr>cs_connect_request := None\<rparr>)) (\<lambda>_.
                      st_match (queue_connect_result k i result)
                        (\<lambda>_. st_match (queue k (Event (OnConnectResult result)) None) (\<lambda>_. rest True) (end_true k))
                        (end_true k)))
           (\<lambda>e. case e of
                  RtFailed result \<Rightarrow>
                    st_then (st_modify (\<lambda>s. s\<lparr>cs_connect_request := None\<rparr>)) (\<lambda>_.
                      st_match (on_runtime (rt_next_connection_event rt))
                        (\<lambda>event. case event of
                           Some _ \<Rightarrow> end_true k DriverFault
                         | None \<Rightarrow> st_match (queue_connect_result k i result) (\<lambda>_. rest True) (end_true k))
                        (\<lambda>e. end_true k (runtime_end e)))
                | _ \<Rightarrow> end_true k (runtime_end e)))"

definition drive_scan ::
  "'r wifi_runtime \<Rightarrow> 'w kernel \<Rightarrow> (bool \<Rightarrow> ('r, 'w, service_error, bool) server_op) \<Rightarrow> bool \<Rightarrow>
   ('r, 'w, service_error, bool) server_op" where
  "drive_scan rt k rest progressed = st_get (\<lambda>s.
     case cs_scan_request s of
       None \<Rightarrow> rest progressed
     | Some i \<Rightarrow>
         st_match (on_runtime (rt_drive_scan_once rt))
           (\<lambda>r. case r of
                  None \<Rightarrow> rest progressed
                | Some result \<Rightarrow>
                    st_then (st_modify (\<lambda>s. s\<lparr>cs_scan_request := None\<rparr>)) (\<lambda>_.
                      st_match (queue_scan_reply k i result) (\<lambda>_. rest True) (end_true k)))
           (\<lambda>e. end_true k (runtime_end e)))"

definition take_ethernet :: "'r wifi_runtime \<Rightarrow> ('r, 'w, 'e, nat option) server_op" where
  "take_ethernet rt = on_runtime (\<lambda>r. case rt_take_ethernet_device rt r of (fd, r') \<Rightarrow> (Ok fd, r'))"

definition drive_ethernet :: "'r wifi_runtime \<Rightarrow> 'w kernel \<Rightarrow> bool \<Rightarrow> ('r, 'w, service_error, bool) server_op" where
  "drive_ethernet rt k progressed =
     st_then (take_ethernet rt) (\<lambda>device.
       case device of
         None \<Rightarrow> st_return (Ok progressed)
       | Some fd \<Rightarrow> st_get (\<lambda>s.
           case checked_add_word (cs_ethernet_generation s) 1 of
             None \<Rightarrow> end_true k ContainmentFault
           | Some generation \<Rightarrow>
               st_then (st_modify (\<lambda>s. s\<lparr>cs_ethernet_generation := generation\<rparr>)) (\<lambda>_.
                 st_match (queue_supervisor_install k generation (rt_public_mac rt (cs_runtime s)) fd)
                   (\<lambda>_. st_return (Ok True)) (end_true k))))"

definition drive_rest :: "'r wifi_runtime \<Rightarrow> 'w kernel \<Rightarrow> bool \<Rightarrow> ('r, 'w, service_error, bool) server_op" where
  "drive_rest rt k progressed =
     st_match (on_runtime (rt_drive_once rt))
       (\<lambda>value. drive_ethernet rt k (progressed \<or> value))
       (\<lambda>e. end_true k (runtime_end e))"

definition drive_runtime :: "'r wifi_runtime \<Rightarrow> 'w kernel \<Rightarrow> ('r, 'w, service_error, bool) server_op" where
  "drive_runtime rt k =
     st_match (queue_connection_events rt k False)
       (\<lambda>progressed. st_get (\<lambda>s.
          case cs_power_save_request s of
            Some (i, deadline) \<Rightarrow> drive_power_save rt k i deadline progressed
          | None \<Rightarrow>
              (case cs_disconnect_request s of
                 Some pending \<Rightarrow> drive_disconnect rt k pending progressed
               | None \<Rightarrow> drive_connect rt k (drive_scan rt k (drive_rest rt k)) progressed)))
       (end_true k)"

section \<open>The server\<close>

definition validate :: "packet \<Rightarrow> ('r, 'w, wire_error, unit) server_op" where
  "validate p = st_then (st_zoom cs_validator (\<lambda>v. cs_validator_update (\<lambda>_. v)) (validate_packet p)) (\<lambda>_.
     st_modify (\<lambda>s. s\<lparr>cs_admitted := cs_admitted s @ [pk_request_id p]\<rparr>))"

definition drive_receive :: "'r wifi_runtime \<Rightarrow> 'w kernel \<Rightarrow> bool \<Rightarrow> ('r, 'w, service_error, bool) server_op" where
  "drive_receive rt k progressed =
     st_match (try_receive k)
       (\<lambda>received. case received of
          None \<Rightarrow> st_return (Ok progressed)
        | Some (p, fds) \<Rightarrow>
            st_match (validate p)
              (\<lambda>_. if fds \<noteq> [] then end_true k ProtocolViolation
                   else st_match (dispatch rt k p) (\<lambda>_. st_return (Ok True)) (end_true k))
              (\<lambda>_. end_true k ProtocolViolation))
       (\<lambda>e. if e = EpIo UnexpectedEof
            then st_then (st_modify (\<lambda>s. s\<lparr>cs_terminal := True\<rparr>)) (\<lambda>_. st_return (Ok progressed))
            else st_then (end_generation k ProtocolViolation) (\<lambda>_. st_return (Ok progressed)))"

definition drive_once :: "'r wifi_runtime \<Rightarrow> 'w kernel \<Rightarrow> ('r, 'w, service_error, bool) server_op" where
  "drive_once rt k =
     st_then (flush k) (\<lambda>progressed.
     st_then (st_get (\<lambda>s. if \<not> cs_terminal s then drive_receive rt k progressed else st_return (Ok progressed))) (\<lambda>progressed.
     st_then (st_get (\<lambda>s. if \<not> cs_terminal s
                          then st_then (drive_runtime rt k) (\<lambda>more. st_return (Ok (progressed \<or> more)))
                          else st_return (Ok progressed))) (\<lambda>progressed.
     st_then (flush k) (\<lambda>more. st_return (Ok (progressed \<or> more))))))"

definition server_new :: "bytes \<Rightarrow> 'r \<Rightarrow> 'w \<Rightarrow> ('r, 'w) control_server" where
  "server_new generation r w =
     \<lparr>cs_kernel = w, cs_runtime = r, cs_validator = validator_new generation, cs_generation = generation,
      cs_next_request_id = 1, cs_outbound = [], cs_outbound_bytes = 0,
      cs_supervisor_outbound = [], cs_supervisor_outbound_bytes = 0,
      cs_connect_request = None, cs_scan_request = None, cs_disconnect_request = None, cs_power_save_request = None,
      cs_ethernet_generation = 0, cs_terminal = False,
      cs_sent = [], cs_supervisor_sent = [], cs_history = [], cs_admitted = []\<rparr>"

definition post_lockdown_open_complete ::
  "'w kernel \<Rightarrow> bytes \<Rightarrow> 'r \<Rightarrow> 'w \<Rightarrow> (service_error, unit) res \<times> ('r, 'w) control_server" where
  "post_lockdown_open_complete k generation r w =
     st_map_err terminal_service (queue k Ready None) (server_new generation r w)"

text \<open>The loop of the service process. It may run for ever, so its value is \<open>None\<close> if it never returns. The pauses
  between drives are steps of the kernel's world.\<close>

partial_function (option) run_to_terminal ::
  "'r wifi_runtime \<Rightarrow> 'w kernel \<Rightarrow> ('r, 'w) control_server \<Rightarrow>
   ((service_error, unit) res \<times> ('r, 'w) control_server) option" where
  "run_to_terminal rt k s =
     (if is_terminal s then Some (Ok (), s)
      else (case drive_once rt k s of
              (Ok progressed, s') \<Rightarrow> run_to_terminal rt k s'
            | (Err e, s') \<Rightarrow> Some (Err e, s')
            | (Panic, s') \<Rightarrow> Some (Panic, s')))"

text \<open>The states of a running server: opened, then driven any number of times without an error. A drive uses at most
  66 of the 64-bit request numbers, and a session that has fewer left is not driven on.\<close>

inductive serves :: "'r wifi_runtime \<Rightarrow> 'w kernel \<Rightarrow> bytes \<Rightarrow> ('r, 'w) control_server \<Rightarrow> bool"
  for rt :: "'r wifi_runtime" and k :: "'w kernel" and generation :: bytes where
  opened: "post_lockdown_open_complete k generation r w = (Ok (), s) \<Longrightarrow> serves rt k generation s"
| driven: "serves rt k generation s \<Longrightarrow> length (cs_history s) + 66 < 2 ^ 64 \<Longrightarrow>
    drive_once rt k s = (Ok progressed, s') \<Longrightarrow> serves rt k generation s'"

end
