(* ===== verification/Wifi_Control_Invariant.thy ===== *)
theory Wifi_Control_Invariant
  imports Wifi_Control_Service "HOL-Library.Sublist" "HOL-Library.Multiset"
begin

text \<open>
  The invariant of the policy control service, and that every queueing and command operation keeps it,
  for every runtime and every behaviour of the kernel. The triples are those of \<open>Op_Hoare\<close>: an
  operation that has one does not panic.
\<close>

section \<open>Assumptions on the kernel and the runtime\<close>

text \<open>The clock stays 30 seconds below the largest instant, and \<open>recvmsg\<close> fills at most the buffer it is given.\<close>

definition kernel_ok :: "'w kernel \<Rightarrow> bool" where
  "kernel_ok k \<longleftrightarrow>
     (\<forall>w. fst (k_now k w) + seconds 30 \<le> INSTANT_MAX) \<and>
     (\<forall>w bs a b. fst (k_recvmsg k w) = RecvMsg bs a b \<longrightarrow> length bs \<le> MAX_PACKET)"

text \<open>No method of the runtime panics, and its address has six bytes.\<close>

definition runtime_ok :: "'r wifi_runtime \<Rightarrow> bool" where
  "runtime_ok rt \<longleftrightarrow>
     (\<forall>r. length (rt_public_mac rt r) = 6) \<and>
     (\<forall>q d r. fst (rt_begin_connect rt q d r) \<noteq> Panic) \<and> (\<forall>r. fst (rt_drive_connect_once rt r) \<noteq> Panic) \<and>
     (\<forall>q r. fst (rt_roam rt q r) \<noteq> Panic) \<and>
     (\<forall>q d r. fst (rt_begin_scan rt q d r) \<noteq> Panic) \<and> (\<forall>r. fst (rt_drive_scan_once rt r) \<noteq> Panic) \<and>
     (\<forall>r. fst (rt_drive_once rt r) \<noteq> Panic) \<and> (\<forall>r. fst (rt_next_connection_event rt r) \<noteq> Panic) \<and>
     (\<forall>q d r. fst (rt_begin_disconnect rt q d r) \<noteq> Panic) \<and> (\<forall>r. fst (rt_drive_disconnect_once rt r) \<noteq> Panic) \<and>
     (\<forall>q d r. fst (rt_begin_power_save rt q d r) \<noteq> Panic) \<and> (\<forall>r. fst (rt_drive_power_save_once rt r) \<noteq> Panic)"

section \<open>Invariant\<close>

text \<open>The packets of a session that carry the given messages.\<close>

definition session_packets :: "bytes \<Rightarrow> message list \<Rightarrow> packet list" where
  "session_packets g ms =
     map2 (\<lambda>i m. \<lparr>pk_generation = g, pk_request_id = of_nat (Suc i), pk_message = m\<rparr>) [0..<length ms] ms"

lemma session_packets_snoc:
  "session_packets g (ms @ [m]) =
     session_packets g ms @ [\<lparr>pk_generation = g, pk_request_id = of_nat (Suc (length ms)), pk_message = m\<rparr>]"
  by (simp add: session_packets_def)

definition is_end :: "message \<Rightarrow> bool" where
  "is_end m \<longleftrightarrow> (\<exists>reason. m = GenerationEnd reason)"

definition ids_of :: "u64 option \<Rightarrow> u64 list" where
  "ids_of z = (case z of None \<Rightarrow> [] | Some i \<Rightarrow> [i])"

definition pending_ids :: "('r, 'w) control_server \<Rightarrow> u64 list" where
  "pending_ids s = ids_of (cs_connect_request s) @ ids_of (cs_scan_request s) @
     (case cs_disconnect_request s of None \<Rightarrow> []
      | Some p \<Rightarrow> map fst (pd_requests p) @ ids_of (pd_connect_request p)) @
     ids_of (map_option fst (cs_power_save_request s))"

definition replied_ids :: "('r, 'w) control_server \<Rightarrow> u64 list" where
  "replied_ids s = concat (map (\<lambda>m. ids_of (in_reply_to m)) (cs_history s))"

definition stream_ok :: "bytes \<Rightarrow> message list \<Rightarrow> ('r, 'w) control_server \<Rightarrow> bool" where
  "stream_ok g pre s \<longleftrightarrow>
     cs_generation s = g \<and> length g = 16 \<and> unat (cs_next_request_id s) = Suc (length (cs_history s)) \<and>
     map encode (session_packets g (cs_history s)) = map Ok (cs_sent s @ map ob_bytes (cs_outbound s)) \<and>
     prefix pre (cs_history s) \<and> list_all (\<lambda>m. \<not> is_end m) (butlast (cs_history s)) \<and>
     (\<not> cs_terminal s \<longrightarrow> list_all (\<lambda>m. \<not> is_end m) (cs_history s))"

definition queue_bytes :: "outbound_packet list \<Rightarrow> nat" where
  "queue_bytes ps = sum_list (map (\<lambda>p. length (ob_bytes p)) ps)"

definition queues_ok :: "('r, 'w) control_server \<Rightarrow> bool" where
  "queues_ok s \<longleftrightarrow>
     cs_outbound_bytes s = queue_bytes (cs_outbound s) \<and>
     cs_supervisor_outbound_bytes s = queue_bytes (cs_supervisor_outbound s) \<and>
     length (cs_supervisor_outbound s) \<le> NORMAL_PACKET_LIMIT \<and> cs_supervisor_outbound_bytes s \<le> NORMAL_BYTE_LIMIT \<and>
     length (cs_outbound s) \<le> (if cs_terminal s then MAX_OUTBOUND_PACKETS else NORMAL_PACKET_LIMIT) \<and>
     cs_outbound_bytes s \<le> (if cs_terminal s then MAX_OUTBOUND_BYTES else NORMAL_BYTE_LIMIT)"

text \<open>The installations sent and queued, with Ethernet generations up to a bound.\<close>

definition installs :: "bytes \<Rightarrow> nat \<Rightarrow> ('r, 'w) control_server \<Rightarrow> bool" where
  "installs g n s \<longleftrightarrow>
     (\<exists>ms. map lifecycle_encode ms = cs_supervisor_sent s @ map ob_bytes (cs_supervisor_outbound s) \<and>
       list_all (\<lambda>m. lifecycle_typed m \<and> lm_kind m = Install \<and> lm_wifi_generation m = g
         \<and> unat (lm_ethernet_generation m) \<le> n) ms \<and>
       sorted_wrt (<) (map lm_ethernet_generation ms))"

definition installs_ok :: "bytes \<Rightarrow> ('r, 'w) control_server \<Rightarrow> bool" where
  "installs_ok g s \<longleftrightarrow> installs g (unat (cs_ethernet_generation s)) s"

definition replies_ok :: "bytes \<Rightarrow> u64 list \<Rightarrow> ('r, 'w) control_server \<Rightarrow> bool" where
  "replies_ok g owed s \<longleftrightarrow>
     distinct (replied_ids s @ pending_ids s @ owed) \<and>
     set (replied_ids s @ pending_ids s @ owed) \<subseteq> set (cs_admitted s) \<and>
     (\<not> cs_terminal s \<longrightarrow> set (cs_admitted s) \<subseteq> set (replied_ids s @ pending_ids s @ owed)) \<and>
     sv_generation (cs_validator s) = g \<and> sorted_wrt (<) (cs_admitted s) \<and>
     list_all (\<lambda>i. i \<noteq> 0 \<and> i \<le> sv_last_request_id (cs_validator s)) (cs_admitted s)"

definition server_inv :: "bytes \<Rightarrow> message list \<Rightarrow> u64 list \<Rightarrow> ('r, 'w) control_server \<Rightarrow> bool" where
  "server_inv g pre owed s \<longleftrightarrow> stream_ok g pre s \<and> queues_ok s \<and> installs_ok g s \<and> replies_ok g owed s"

text \<open>A server that still takes messages, with room for the request numbers of one drive.\<close>

definition live :: "bytes \<Rightarrow> message list \<Rightarrow> u64 list \<Rightarrow> ('r, 'w) control_server \<Rightarrow> bool" where
  "live g pre owed s \<longleftrightarrow> server_inv g pre owed s \<and> \<not> cs_terminal s \<and> length (cs_sent s) + 66 < 2 ^ 64"

definition ended :: "bytes \<Rightarrow> message list \<Rightarrow> ('r, 'w) control_server \<Rightarrow> bool" where
  "ended g pre s \<longleftrightarrow> server_inv g pre [] s \<and> cs_terminal s"

text \<open>The fields a part of the invariant does not read.\<close>

lemma stream_ok_frame [simp]:
  "stream_ok g pre (s\<lparr>cs_kernel := v0\<rparr>) = stream_ok g pre s"
  "stream_ok g pre (s\<lparr>cs_runtime := v1\<rparr>) = stream_ok g pre s"
  "stream_ok g pre (s\<lparr>cs_validator := v2\<rparr>) = stream_ok g pre s"
  "stream_ok g pre (s\<lparr>cs_outbound_bytes := v6\<rparr>) = stream_ok g pre s"
  "stream_ok g pre (s\<lparr>cs_supervisor_outbound := v7\<rparr>) = stream_ok g pre s"
  "stream_ok g pre (s\<lparr>cs_supervisor_outbound_bytes := v8\<rparr>) = stream_ok g pre s"
  "stream_ok g pre (s\<lparr>cs_connect_request := v9\<rparr>) = stream_ok g pre s"
  "stream_ok g pre (s\<lparr>cs_scan_request := v10\<rparr>) = stream_ok g pre s"
  "stream_ok g pre (s\<lparr>cs_disconnect_request := v11\<rparr>) = stream_ok g pre s"
  "stream_ok g pre (s\<lparr>cs_power_save_request := v12\<rparr>) = stream_ok g pre s"
  "stream_ok g pre (s\<lparr>cs_ethernet_generation := v13\<rparr>) = stream_ok g pre s"
  "stream_ok g pre (s\<lparr>cs_supervisor_sent := v16\<rparr>) = stream_ok g pre s"
  "stream_ok g pre (s\<lparr>cs_admitted := v18\<rparr>) = stream_ok g pre s"
  by (simp_all add: stream_ok_def)

lemma queues_ok_frame [simp]:
  "queues_ok (s\<lparr>cs_kernel := v0\<rparr>) = queues_ok s"
  "queues_ok (s\<lparr>cs_runtime := v1\<rparr>) = queues_ok s"
  "queues_ok (s\<lparr>cs_validator := v2\<rparr>) = queues_ok s"
  "queues_ok (s\<lparr>cs_generation := v3\<rparr>) = queues_ok s"
  "queues_ok (s\<lparr>cs_next_request_id := v4\<rparr>) = queues_ok s"
  "queues_ok (s\<lparr>cs_connect_request := v9\<rparr>) = queues_ok s"
  "queues_ok (s\<lparr>cs_scan_request := v10\<rparr>) = queues_ok s"
  "queues_ok (s\<lparr>cs_disconnect_request := v11\<rparr>) = queues_ok s"
  "queues_ok (s\<lparr>cs_power_save_request := v12\<rparr>) = queues_ok s"
  "queues_ok (s\<lparr>cs_ethernet_generation := v13\<rparr>) = queues_ok s"
  "queues_ok (s\<lparr>cs_sent := v15\<rparr>) = queues_ok s"
  "queues_ok (s\<lparr>cs_supervisor_sent := v16\<rparr>) = queues_ok s"
  "queues_ok (s\<lparr>cs_history := v17\<rparr>) = queues_ok s"
  "queues_ok (s\<lparr>cs_admitted := v18\<rparr>) = queues_ok s"
  by (simp_all add: queues_ok_def)

lemma installs_frame [simp]:
  "installs g n (s\<lparr>cs_kernel := v0\<rparr>) = installs g n s"
  "installs g n (s\<lparr>cs_runtime := v1\<rparr>) = installs g n s"
  "installs g n (s\<lparr>cs_validator := v2\<rparr>) = installs g n s"
  "installs g n (s\<lparr>cs_generation := v3\<rparr>) = installs g n s"
  "installs g n (s\<lparr>cs_next_request_id := v4\<rparr>) = installs g n s"
  "installs g n (s\<lparr>cs_outbound := v5\<rparr>) = installs g n s"
  "installs g n (s\<lparr>cs_outbound_bytes := v6\<rparr>) = installs g n s"
  "installs g n (s\<lparr>cs_supervisor_outbound_bytes := v8\<rparr>) = installs g n s"
  "installs g n (s\<lparr>cs_connect_request := v9\<rparr>) = installs g n s"
  "installs g n (s\<lparr>cs_scan_request := v10\<rparr>) = installs g n s"
  "installs g n (s\<lparr>cs_disconnect_request := v11\<rparr>) = installs g n s"
  "installs g n (s\<lparr>cs_power_save_request := v12\<rparr>) = installs g n s"
  "installs g n (s\<lparr>cs_ethernet_generation := v13\<rparr>) = installs g n s"
  "installs g n (s\<lparr>cs_terminal := v14\<rparr>) = installs g n s"
  "installs g n (s\<lparr>cs_sent := v15\<rparr>) = installs g n s"
  "installs g n (s\<lparr>cs_history := v17\<rparr>) = installs g n s"
  "installs g n (s\<lparr>cs_admitted := v18\<rparr>) = installs g n s"
  by (simp_all add: installs_def)

lemma installs_ok_frame [simp]:
  "installs_ok g (s\<lparr>cs_kernel := v0\<rparr>) = installs_ok g s"
  "installs_ok g (s\<lparr>cs_runtime := v1\<rparr>) = installs_ok g s"
  "installs_ok g (s\<lparr>cs_validator := v2\<rparr>) = installs_ok g s"
  "installs_ok g (s\<lparr>cs_generation := v3\<rparr>) = installs_ok g s"
  "installs_ok g (s\<lparr>cs_next_request_id := v4\<rparr>) = installs_ok g s"
  "installs_ok g (s\<lparr>cs_outbound := v5\<rparr>) = installs_ok g s"
  "installs_ok g (s\<lparr>cs_outbound_bytes := v6\<rparr>) = installs_ok g s"
  "installs_ok g (s\<lparr>cs_supervisor_outbound_bytes := v8\<rparr>) = installs_ok g s"
  "installs_ok g (s\<lparr>cs_connect_request := v9\<rparr>) = installs_ok g s"
  "installs_ok g (s\<lparr>cs_scan_request := v10\<rparr>) = installs_ok g s"
  "installs_ok g (s\<lparr>cs_disconnect_request := v11\<rparr>) = installs_ok g s"
  "installs_ok g (s\<lparr>cs_power_save_request := v12\<rparr>) = installs_ok g s"
  "installs_ok g (s\<lparr>cs_terminal := v14\<rparr>) = installs_ok g s"
  "installs_ok g (s\<lparr>cs_sent := v15\<rparr>) = installs_ok g s"
  "installs_ok g (s\<lparr>cs_history := v17\<rparr>) = installs_ok g s"
  "installs_ok g (s\<lparr>cs_admitted := v18\<rparr>) = installs_ok g s"
  by (simp_all add: installs_ok_def installs_def)

lemma replies_ok_frame [simp]:
  "replies_ok g owed (s\<lparr>cs_kernel := v0\<rparr>) = replies_ok g owed s"
  "replies_ok g owed (s\<lparr>cs_runtime := v1\<rparr>) = replies_ok g owed s"
  "replies_ok g owed (s\<lparr>cs_generation := v3\<rparr>) = replies_ok g owed s"
  "replies_ok g owed (s\<lparr>cs_next_request_id := v4\<rparr>) = replies_ok g owed s"
  "replies_ok g owed (s\<lparr>cs_outbound := v5\<rparr>) = replies_ok g owed s"
  "replies_ok g owed (s\<lparr>cs_outbound_bytes := v6\<rparr>) = replies_ok g owed s"
  "replies_ok g owed (s\<lparr>cs_supervisor_outbound := v7\<rparr>) = replies_ok g owed s"
  "replies_ok g owed (s\<lparr>cs_supervisor_outbound_bytes := v8\<rparr>) = replies_ok g owed s"
  "replies_ok g owed (s\<lparr>cs_ethernet_generation := v13\<rparr>) = replies_ok g owed s"
  "replies_ok g owed (s\<lparr>cs_sent := v15\<rparr>) = replies_ok g owed s"
  "replies_ok g owed (s\<lparr>cs_supervisor_sent := v16\<rparr>) = replies_ok g owed s"
  by (simp_all add: replies_ok_def replied_ids_def pending_ids_def)

lemma live_frame [simp]:
  "server_inv g pre owed (s\<lparr>cs_kernel := w\<rparr>) = server_inv g pre owed s"
  "server_inv g pre owed (s\<lparr>cs_runtime := r\<rparr>) = server_inv g pre owed s"
  "live g pre owed (s\<lparr>cs_kernel := w\<rparr>) = live g pre owed s"
  "live g pre owed (s\<lparr>cs_runtime := r\<rparr>) = live g pre owed s"
  by (simp_all add: live_def server_inv_def)

lemma liveD:
  assumes "live g pre owed s"
  shows "stream_ok g pre s" "queues_ok s" "installs_ok g s" "replies_ok g owed s" "\<not> cs_terminal s"
    "cs_generation s = g" "length g = 16"
  using assms by (simp_all add: live_def server_inv_def stream_ok_def)

section \<open>Clocks, runtime calls, queueing\<close>

lemma triple_now [triple_rules]:
  assumes "kernel_ok k" "\<And>s w. P s \<Longrightarrow> P (s\<lparr>cs_kernel := w\<rparr>)"
  shows "triple P (now k) (\<lambda>t s. P s \<and> t + seconds 30 \<le> INSTANT_MAX) E"
  using assms by (auto simp: triple_def now_def kernel_ok_def split: prod.splits) (metis fst_conv)

lemma triple_instant [triple_rules]:
  "(\<And>s. P s \<Longrightarrow> t + d \<le> INSTANT_MAX) \<Longrightarrow> triple P (st_return (instant_add t d)) (\<lambda>_. P) E"
  by (auto simp: triple_def instant_add_def)

lemma triple_runtime [triple_rules]:
  assumes "\<And>r. fst (m r) \<noteq> Panic" "\<And>s r. P s \<Longrightarrow> P (s\<lparr>cs_runtime := r\<rparr>)" "\<And>e s. P s \<Longrightarrow> E e s"
  shows "triple P (on_runtime m) (\<lambda>_. P) E"
  unfolding on_runtime_def
proof (rule triple_zoom)
  fix s r t assume "P s" "m (cs_runtime s) = (r, t)"
  then show "case r of Ok x \<Rightarrow> P (s\<lparr>cs_runtime := t\<rparr>) | Err e \<Rightarrow> E e (s\<lparr>cs_runtime := t\<rparr>) | Panic \<Rightarrow> False"
    using assms(1) [of "cs_runtime s"] assms(2) [of s t] assms(3) [of "s\<lparr>cs_runtime := t\<rparr>"] by (cases r) simp_all
qed

lemma cat_Panic: "cat a b = Panic \<longleftrightarrow> a = Panic \<or> (\<exists>x. a = Ok x \<and> b = Panic)"
  by (cases a; cases b) (simp_all add: cat_def)

lemma put_each_Panic: "(\<And>x. p x \<noteq> Panic) \<Longrightarrow> put_each p xs \<noteq> Panic"
  by (induction xs) (simp_all add: cat_Panic)

lemmas put_defs = put_u8_def put_u16_def put_u32_def put_u64_def put_bool_def put_raw_def put_vec_def put_count_def
  put_option_def put_deadline_def put_command_reply_def

lemma enc_parts_Panic [simp]:
  "enc_channel c \<noteq> Panic" "enc_bss b \<noteq> Panic" "enc_credentials cr \<noteq> Panic" "enc_auth a \<noteq> Panic" "enc_connect q \<noteq> Panic"
  by (auto simp: enc_channel_def enc_bss_def enc_credentials_def enc_auth_def enc_connect_def put_defs cat_Panic
      split: credentials.splits wpa_credentials.splits option.splits if_splits)

lemma enc_scans_Panic [simp]:
  "enc_scan v \<noteq> Panic" "enc_compatibility y \<noteq> Panic" "enc_scan_result x \<noteq> Panic" "enc_scan_reply z \<noteq> Panic"
proof -
  show 1: "enc_compatibility y \<noteq> Panic" for y
    by (auto simp: enc_compatibility_def enc_protocol_def enc_disjoint_def put_defs cat_Panic put_each_Panic
        split: compatibility.splits option.splits if_splits)
  show 2: "enc_scan_result x \<noteq> Panic" for x
    by (simp add: enc_scan_result_def put_defs cat_Panic 1)
  show "enc_scan v \<noteq> Panic"
    by (auto simp: enc_scan_def put_defs cat_Panic put_each_Panic split: scan_request.splits if_splits)
  show "enc_scan_reply z \<noteq> Panic"
    by (auto simp: enc_scan_reply_def put_defs cat_Panic put_each_Panic 2 split: sum.splits)
qed

lemma enc_results_Panic [simp]:
  "enc_connect_result cr \<noteq> Panic" "enc_connect_reply y \<noteq> Panic" "enc_disconnect_info i \<noteq> Panic"
  "enc_roam_result r \<noteq> Panic" "enc_event e \<noteq> Panic"
proof -
  show 1: "enc_connect_result cr \<noteq> Panic" for cr by (simp add: enc_connect_result_def put_defs cat_Panic)
  show "enc_connect_reply y \<noteq> Panic" by (simp add: enc_connect_reply_def put_defs cat_Panic 1 split: connect_reply.splits)
  show 2: "enc_disconnect_info i \<noteq> Panic" for i
    by (auto simp: enc_disconnect_info_def enc_disconnect_source_def enc_cause_def put_defs cat_Panic split: disconnect_source.splits)
  show 3: "enc_roam_result r \<noteq> Panic" for r
    by (auto simp: enc_roam_result_def put_defs cat_Panic 2 split: option.splits)
  show "enc_event e \<noteq> Panic"
    by (auto simp: enc_event_def enc_signal_def enc_channel_switch_def put_defs cat_Panic 1 2 3
        split: connect_transaction_event.splits)
qed

lemma ok_or_Panic [simp]: "ok_or z e \<noteq> Panic"
  by (cases z) simp_all

lemma encode_Panic [simp]: "encode p \<noteq> Panic"
proof -
  have r: "enc_reply f r \<noteq> Panic" if "\<And>x. f x \<noteq> Panic" for f :: "'x putter" and r
    using that by (simp add: enc_reply_def put_defs cat_Panic)
  have "snd (encode_message m) \<noteq> Panic" for m
    by (cases m) (simp_all add: encode_message_def put_defs cat_Panic r)
  then show ?thesis
    by (auto simp: encode_def Let_def case_prod_beta and_then_eq_Panic split: if_splits option.splits)
qed

lemma encode_length: "length (pk_generation p) = 16 \<Longrightarrow> encode p = Ok bs \<Longrightarrow> length bs \<le> MAX_PACKET"
  by (auto simp: encode_eq_Ok packet_bytes Wlan_Control_Wire.MAGIC_def HEADER_LEN_def MAX_PACKET_def)

lemma triple_encode [triple_rules]:
  assumes "\<And>s bs. P s \<Longrightarrow> encode p = Ok bs \<Longrightarrow> Q bs s" "\<And>s e. P s \<Longrightarrow> encode p = Err e \<Longrightarrow> E e s"
  shows "triple P (st_return (encode p)) Q E"
  using assms encode_Panic [of p] by (cases "encode p") (auto simp: triple_def)

lemma next_packet_eq:
  assumes "stream_ok g pre s"
  shows "next_packet s m = \<lparr>pk_generation = g, pk_request_id = of_nat (Suc (length (cs_history s))), pk_message = m\<rparr>"
proof -
  have "cs_next_request_id s = of_nat (unat (cs_next_request_id s))" by simp
  also have "\<dots> = of_nat (Suc (length (cs_history s)))" using assms by (simp only: stream_ok_def)
  finally show ?thesis using assms by (simp add: next_packet_def stream_ok_def)
qed

lemma room_next:
  assumes "live g pre owed s"
  shows "Suc (unat (cs_next_request_id s)) < 2 ^ 64" "length (cs_history s) = length (cs_sent s) + length (cs_outbound s)"
proof -
  have s: "stream_ok g pre s" "queues_ok s" "\<not> cs_terminal s" "length (cs_sent s) + 66 < 2 ^ 64"
    using assms by (simp_all add: live_def server_inv_def)
  have "length (map encode (session_packets g (cs_history s))) =
      length (map (Ok :: bytes \<Rightarrow> (wire_error, bytes) res) (cs_sent s @ map ob_bytes (cs_outbound s)))"
    using s(1) by (simp only: stream_ok_def)
  then show "length (cs_history s) = length (cs_sent s) + length (cs_outbound s)"
    by (simp add: session_packets_def)
  then show "Suc (unat (cs_next_request_id s)) < 2 ^ 64"
    using s by (simp add: stream_ok_def queues_ok_def NORMAL_PACKET_LIMIT_def MAX_OUTBOUND_PACKETS_def)
qed

text \<open>The effect of queueing a message.\<close>

definition pushed :: "'w \<Rightarrow> nat \<Rightarrow> bytes \<Rightarrow> message \<Rightarrow> ('r, 'w) control_server \<Rightarrow> ('r, 'w) control_server" where
  "pushed w d bs m s = s\<lparr>cs_next_request_id := cs_next_request_id s + 1,
     cs_outbound_bytes := cs_outbound_bytes s + length bs, cs_kernel := w,
     cs_outbound := cs_outbound s @ [\<lparr>ob_drain_deadline = d, ob_bytes = bs, ob_fd = None\<rparr>],
     cs_history := cs_history s @ [m]\<rparr>"

lemma pushed_simps [simp]:
  "cs_terminal (pushed w d bs m s) = cs_terminal s" "cs_sent (pushed w d bs m s) = cs_sent s"
  "cs_outbound_bytes (pushed w d bs m s) = cs_outbound_bytes s + length bs"
  "cs_outbound (pushed w d bs m s) = cs_outbound s @ [\<lparr>ob_drain_deadline = d, ob_bytes = bs, ob_fd = None\<rparr>]"
  "cs_history (pushed w d bs m s) = cs_history s @ [m]" "cs_admitted (pushed w d bs m s) = cs_admitted s"
  "cs_validator (pushed w d bs m s) = cs_validator s" "pending_ids (pushed w d bs m s) = pending_ids s"
  "installs_ok g (pushed w d bs m s) = installs_ok g s"
  by (simp_all add: pushed_def pending_ids_def installs_ok_def installs_def)

lemma pushed_stream:
  assumes s: "stream_ok g pre s" and e: "encode (next_packet s m) = Ok bs" and t: "\<not> cs_terminal s"
    and n: "Suc (unat (cs_next_request_id s)) < 2 ^ 64"
  shows "stream_ok g pre (pushed w d bs m s\<lparr>cs_terminal := is_end m \<or> b\<rparr>)"
proof -
  have "unat (cs_next_request_id s + 1) = Suc (unat (cs_next_request_id s))"
    using n by (simp add: unat_word_ariths)
  moreover have "map encode (session_packets g (cs_history s @ [m])) =
      map Ok (cs_sent s @ map ob_bytes (cs_outbound s) @ [bs])"
    using s e next_packet_eq [OF s, of m] by (simp add: session_packets_snoc stream_ok_def)
  ultimately show ?thesis
    using s t by (auto simp: stream_ok_def pushed_def list_all_iff butlast_append)
qed

lemma pushed_live:
  assumes l: "live g pre owed s" and e: "encode (next_packet s m) = Ok bs" and "\<not> is_end m"
    and q: "length (cs_outbound s) < NORMAL_PACKET_LIMIT" "cs_outbound_bytes s + length bs \<le> NORMAL_BYTE_LIMIT"
    and r: "owed = ids_of (in_reply_to m) @ owed'"
  shows "live g pre owed' (pushed w d bs m s)"
proof -
  have "stream_ok g pre (pushed w d bs m s\<lparr>cs_terminal := is_end m \<or> False\<rparr>)"
    using l e by (intro pushed_stream room_next(1) [OF l]) (simp_all add: live_def server_inv_def)
  moreover have "pushed w d bs m s\<lparr>cs_terminal := False\<rparr> = pushed w d bs m s"
    using l by (simp add: live_def pushed_def)
  ultimately have "stream_ok g pre (pushed w d bs m s)" using assms(3) by simp
  moreover have "queues_ok (pushed w d bs m s)"
    using l q by (simp add: live_def server_inv_def queues_ok_def queue_bytes_def pushed_def)
  moreover have "replies_ok g owed' (pushed w d bs m s)"
    using l r by (auto simp: live_def server_inv_def replies_ok_def replied_ids_def)
  ultimately show ?thesis using l by (simp add: live_def server_inv_def)
qed

lemma queue_live:
  fixes k :: "'w kernel"
  assumes k: "kernel_ok k" and m: "\<not> is_end m" and r: "owed = ids_of (in_reply_to m) @ owed'"
  shows "triple (live g pre owed) (queue k m None) (\<lambda>_. live g pre owed') (\<lambda>_. live g pre owed)"
proof (rule tripleI)
  fix s :: "('r, 'w) control_server" assume l: "live g pre owed s"
  obtain t w where t: "k_now k (cs_kernel s) = (t, w)" by fastforce
  then have "t + seconds 30 \<le> INSTANT_MAX" using k unfolding kernel_ok_def by (metis fst_conv)
  then have d: "t + seconds 2 \<le> INSTANT_MAX" by (simp add: seconds_def)
  have "checked_add_word (cs_next_request_id s) 1 = Some (cs_next_request_id s + 1)"
    using room_next(1) [OF l] by (simp add: checked_add_word_def)
  then show "case queue k m None s of (Ok x, s') \<Rightarrow> live g pre owed' s' | (Err e, s') \<Rightarrow> live g pre owed s' | (Panic, s') \<Rightarrow> False"
    using pushed_live [OF l _ m _ _ r, where w = w and d = "t + seconds 2"] l t d encode_Panic [of "next_packet s m"]
    by (cases "encode (next_packet s m)")
      (auto simp: queue_def st_defs now_def instant_add_def required_fd_count_def pushed_def not_le not_less)
qed

lemma ids_frame [simp]:
  "replied_ids (s\<lparr>cs_terminal := b\<rparr>) = replied_ids s" "pending_ids (s\<lparr>cs_terminal := b\<rparr>) = pending_ids s"
  "replied_ids (pushed w d bs m s) = replied_ids s @ ids_of (in_reply_to m)"
  by (simp_all add: replied_ids_def pending_ids_def pushed_def)

lemma replies_forget: "replies_ok g owed s \<Longrightarrow> replies_ok g [] (s\<lparr>cs_terminal := True\<rparr>)"
  by (auto simp: replies_ok_def)

lemma end_generation_ends:
  fixes k :: "'w kernel" and E :: "service_error \<Rightarrow> ('r, 'w) control_server \<Rightarrow> bool"
  assumes k: "kernel_ok k"
  shows "triple (live g pre owed) (end_generation k reason) (\<lambda>_. ended g pre) E"
proof (rule tripleI)
  fix s :: "('r, 'w) control_server" assume l: "live g pre owed s"
  let ?m = "GenerationEnd reason"
  obtain t w where t: "k_now k (cs_kernel s) = (t, w)" by fastforce
  then have "t + seconds 30 \<le> INSTANT_MAX" using k unfolding kernel_ok_def by (metis fst_conv)
  then have d: "t + seconds 2 \<le> INSTANT_MAX" by (simp add: seconds_def)
  note inv = liveD [OF l]
  note n = room_next(1) [OF l]
  have "cs_next_request_id s \<noteq> 0" using inv(1) by (auto simp: stream_ok_def)
  then obtain bs where e: "encode (next_packet s ?m) = Ok bs" "length bs \<le> 37"
    using inv(1) by (auto simp: encode_eq_Ok encode_message_def put_u8_def next_packet_def MAX_PACKET_def HEADER_LEN_def
        Wlan_Control_Wire.MAGIC_def header_bytes_def stream_ok_def)
  let ?s = "pushed w (t + seconds 2) bs ?m s\<lparr>cs_terminal := True\<rparr>"
  have "cs_next_request_id s \<noteq> - 1" using n by (auto simp: unsigned_minus_1_eq_mask mask_eq_exp_minus_1)
  moreover have "length (cs_outbound s) < MAX_OUTBOUND_PACKETS" "cs_outbound_bytes s + length bs \<le> MAX_OUTBOUND_BYTES"
    using inv(2,5) e(2) by (simp_all add: queues_ok_def NORMAL_PACKET_LIMIT_def MAX_OUTBOUND_PACKETS_def
        NORMAL_BYTE_LIMIT_def MAX_OUTBOUND_BYTES_def MAX_PACKET_def)
  moreover from this have "queues_ok ?s"
    using inv(2) by (simp add: queues_ok_def queue_bytes_def) (simp add: pushed_def)
  moreover have "replies_ok g [] ?s"
    using replies_forget [OF inv(4)] by (simp add: replies_ok_def in_reply_to_def ids_of_def)
  moreover have "stream_ok g pre ?s"
    using pushed_stream [OF inv(1) e(1) inv(5) n, where w = w and d = "t + seconds 2" and b = True] by simp
  ultimately have "ended g pre ?s" "cs_next_request_id s \<noteq> - 1" "length (cs_outbound s) < MAX_OUTBOUND_PACKETS"
      "cs_outbound_bytes s + length bs \<le> MAX_OUTBOUND_BYTES"
    using inv(3) by (simp_all add: ended_def server_inv_def)
  then show "case end_generation k reason s of (Ok x, s') \<Rightarrow> ended g pre s' | (Err e, s') \<Rightarrow> E e s' | (Panic, s') \<Rightarrow> False"
    using e t d inv(5) by (auto simp: end_generation_def st_defs now_def instant_add_def pushed_def)
qed

lemma installs_mono: "installs g n s \<Longrightarrow> n \<le> m \<Longrightarrow> installs g m s"
  by (fastforce simp: installs_def list_all_iff)

lemma installs_push:
  assumes "installs g n s" "length g = 16" "length mac = 6" "unat e = Suc n"
  shows "installs g (unat e) (s\<lparr>cs_supervisor_outbound := cs_supervisor_outbound s @ [\<lparr>ob_drain_deadline = d,
     ob_bytes = lifecycle_encode \<lparr>lm_kind = Install, lm_wifi_generation = g, lm_ethernet_generation = e,
       lm_mac_address = mac\<rparr>, ob_fd = f\<rparr>]\<rparr>)"
proof -
  obtain ms where "map lifecycle_encode ms = cs_supervisor_sent s @ map ob_bytes (cs_supervisor_outbound s)"
      "list_all (\<lambda>m. lifecycle_typed m \<and> lm_kind m = Install \<and> lm_wifi_generation m = g
         \<and> unat (lm_ethernet_generation m) \<le> n) ms" "sorted_wrt (<) (map lm_ethernet_generation ms)"
    using assms(1) by (auto simp: installs_def)
  then show ?thesis
    using assms(2-4) unfolding installs_def
    by (intro exI [of _ "ms @ [\<lparr>lm_kind = Install, lm_wifi_generation = g, lm_ethernet_generation = e, lm_mac_address = mac\<rparr>]"])
      (auto simp: lifecycle_typed_def list_all_iff sorted_wrt_append word_less_nat_alt)
qed

lemma queue_install_live:
  fixes k :: "'w kernel"
  assumes k: "kernel_ok k" and mac: "length mac = 6" and e: "unat e = Suc n"
  shows "triple (\<lambda>s. live g pre owed s \<and> installs g n s \<and> cs_ethernet_generation s = e)
    (queue_supervisor_install k e mac fd) (\<lambda>_. live g pre owed) (\<lambda>_. live g pre owed)"
proof (rule tripleI)
  fix s :: "('r, 'w) control_server" assume a: "live g pre owed s \<and> installs g n s \<and> cs_ethernet_generation s = e"
  obtain t w where t: "k_now k (cs_kernel s) = (t, w)" by fastforce
  then have "t + seconds 30 \<le> INSTANT_MAX" using k unfolding kernel_ok_def by (metis fst_conv)
  then have d: "t + seconds 2 \<le> INSTANT_MAX" by (simp add: seconds_def)
  have l: "live g pre owed s" "installs g n s" "cs_ethernet_generation s = e" "length (cs_sent s) + 66 < 2 ^ 64"
    using a by (simp_all add: live_def)
  note inv = liveD [OF l(1)]
  let ?b = "lifecycle_encode \<lparr>lm_kind = Install, lm_wifi_generation = g, lm_ethernet_generation = e, lm_mac_address = mac\<rparr>"
  let ?p = "\<lparr>ob_drain_deadline = t + seconds 2, ob_bytes = ?b, ob_fd = Some fd\<rparr>"
  have "live g pre owed (s\<lparr>cs_supervisor_outbound_bytes := cs_supervisor_outbound_bytes s + length ?b, cs_kernel := w,
      cs_supervisor_outbound := cs_supervisor_outbound s @ [?p]\<rparr>)" (is "live g pre owed ?s")
    if q: "length (cs_supervisor_outbound s) < NORMAL_PACKET_LIMIT"
      "cs_supervisor_outbound_bytes s + length ?b \<le> NORMAL_BYTE_LIMIT"
  proof -
    have "queues_ok ?s" using inv(2) q by (simp add: queues_ok_def queue_bytes_def)
    moreover have "installs_ok g ?s"
      using installs_push [OF l(2) inv(7) mac e, of "t + seconds 2" "Some fd"] l(3) by (simp add: installs_ok_def installs_def)
    ultimately show ?thesis
      using inv l(4) by (simp add: live_def server_inv_def)
  qed
  then show "case queue_supervisor_install k e mac fd s of (Ok x, s') \<Rightarrow> live g pre owed s'
      | (Err e, s') \<Rightarrow> live g pre owed s' | (Panic, s') \<Rightarrow> False"
    using l(1) t d inv(6) by (auto simp: queue_supervisor_install_def st_defs now_def instant_add_def Let_def not_le not_less)
qed

section \<open>Commands\<close>

lemma triple_monotonic [triple_rules]:
  assumes "\<And>s w. P s \<Longrightarrow> P (s\<lparr>cs_kernel := w\<rparr>)" "\<And>e s. P s \<Longrightarrow> E e s"
  shows "triple P (monotonic_time_ns k) (\<lambda>_. P) E"
  using assms by (auto simp: triple_def monotonic_time_ns_def split: prod.splits option.splits res.splits)

lemma triple_expect [triple_rules]:
  "(\<And>s. P s \<Longrightarrow> z \<noteq> None) \<Longrightarrow> triple P (expect z) (\<lambda>d s. P s \<and> z = Some d) E"
  by (auto simp: triple_def expect_def split: option.splits)

lemma queue_reply_live:
  assumes "kernel_ok k" "in_reply_to m = Some i" "\<not> is_end m"
  shows "triple (live g pre [i]) (queue k m None) (\<lambda>_. live g pre []) (\<lambda>_. live g pre [i])"
  by (rule queue_live) (use assms in \<open>simp_all add: ids_of_def\<close>)

lemma admit_deadline_live:
  assumes k: "kernel_ok k"
  shows "triple (live g pre [pk_request_id p]) (admit_deadline k p)
    (\<lambda>a s. case a of Inl _ \<Rightarrow> live g pre [] s
       | Inr d \<Rightarrow> live g pre [pk_request_id p] s \<and> (message_deadline (pk_message p) \<noteq> None \<longrightarrow> d \<noteq> None))
    (\<lambda>_. live g pre [pk_request_id p])" (is "triple ?P _ ?Q ?E")
  unfolding admit_deadline_def
proof (intro triple_option triple_return)
  fix deadline
  show "triple ?P (st_then (now k) (\<lambda>local_now. st_then (st_map_err (\<lambda>_. DriverFault) (monotonic_time_ns k)) (\<lambda>t.
      case deadline_remaining deadline t of
        None \<Rightarrow> st_then (queue_unit_reply k (pk_request_id p)) (\<lambda>_. st_return (Ok (Inl ())))
      | Some left \<Rightarrow> if unat left > seconds 30 then st_return (Err ProtocolViolation)
          else st_then (st_return (instant_add local_now (unat left))) (\<lambda>d. st_return (Ok (Inr (Some d))))))) ?Q ?E"
  proof (rule triple_then [OF triple_now [OF k]])
    fix local_now
    let ?R = "\<lambda>s. live g pre [pk_request_id p] s \<and> local_now + seconds 30 \<le> INSTANT_MAX"
    show "triple ?R (st_then (st_map_err (\<lambda>_. DriverFault) (monotonic_time_ns k)) (\<lambda>t.
      case deadline_remaining deadline t of
        None \<Rightarrow> st_then (queue_unit_reply k (pk_request_id p)) (\<lambda>_. st_return (Ok (Inl ())))
      | Some left \<Rightarrow> if unat left > seconds 30 then st_return (Err ProtocolViolation)
          else st_then (st_return (instant_add local_now (unat left))) (\<lambda>d. st_return (Ok (Inr (Some d)))))) ?Q ?E"
    proof (rule triple_then [OF triple_map_err [OF triple_monotonic]], simp, simp, intro triple_option triple_if)
      show "triple ?R (st_then (queue_unit_reply k (pk_request_id p)) (\<lambda>_. st_return (Ok (Inl ())))) ?Q ?E"
        unfolding queue_unit_reply_def
        by (rule triple_then [OF triple_weaken [OF queue_reply_live [OF k]] triple_return(1)])
          (auto simp: in_reply_to_def is_end_def)
    next
      fix left :: u64 assume "\<not> unat left > seconds 30"
      then show "triple ?R (st_then (st_return (instant_add local_now (unat left))) (\<lambda>d. st_return (Ok (Inr (Some d))))) ?Q ?E"
        by (intro triple_then [OF triple_instant triple_return(1)]) auto
    qed (auto intro: triple_return)
  qed simp
qed simp

text \<open>Requests may move between the pending ones and the one being handled.\<close>

lemma replies_move:
  assumes "replies_ok g owed s" "mset (pending_ids t @ owed') = mset (pending_ids s @ owed)"
    "cs_history t = cs_history s" "cs_admitted t = cs_admitted s" "cs_validator t = cs_validator s" "cs_terminal t = cs_terminal s"
  shows "replies_ok g owed' t"
proof -
  have r: "replied_ids t = replied_ids s" using assms(3) by (simp add: replied_ids_def)
  have m: "mset (replied_ids t @ pending_ids t @ owed') = mset (replied_ids s @ pending_ids s @ owed)"
    using assms(2) by (simp add: r)
  show ?thesis
    using assms(1,4-6) mset_eq_setD [OF m] mset_eq_imp_distinct_iff [OF m] by (simp add: replies_ok_def)
qed

lemma live_move:
  assumes l: "live g pre owed s"
    and m: "mset (pending_ids t @ owed') = mset (pending_ids s @ owed)"
    and t: "t = s\<lparr>cs_connect_request := cs_connect_request t, cs_scan_request := cs_scan_request t,
      cs_disconnect_request := cs_disconnect_request t, cs_power_save_request := cs_power_save_request t\<rparr>"
  shows "live g pre owed' t"
proof -
  let ?t = "s\<lparr>cs_connect_request := cs_connect_request t, cs_scan_request := cs_scan_request t,
      cs_disconnect_request := cs_disconnect_request t, cs_power_save_request := cs_power_save_request t\<rparr>"
  have "mset (pending_ids ?t @ owed') = mset (pending_ids s @ owed)" using m t by simp
  then have "replies_ok g owed' ?t" by (rule replies_move [OF liveD(4) [OF l]]) simp_all
  then have "live g pre owed' ?t" using l by (simp add: live_def server_inv_def)
  then show ?thesis using t by simp
qed

lemma live_requests:
  "live g pre [i] s \<Longrightarrow> cs_scan_request s = None \<Longrightarrow> live g pre [] (s\<lparr>cs_scan_request := Some i\<rparr>)"
  "live g pre [i] s \<Longrightarrow> cs_connect_request s = None \<Longrightarrow> live g pre [] (s\<lparr>cs_connect_request := Some i\<rparr>)"
  "live g pre [i] s \<Longrightarrow> cs_power_save_request s = None \<Longrightarrow> live g pre [] (s\<lparr>cs_power_save_request := Some (i, d)\<rparr>)"
  "live g pre [i] s \<Longrightarrow> cs_disconnect_request s = Some p \<Longrightarrow>
     live g pre [] (s\<lparr>cs_disconnect_request := Some (p\<lparr>pd_requests := pd_requests p @ [(i, d)]\<rparr>)\<rparr>)"
  "live g pre [i] s \<Longrightarrow> cs_disconnect_request s = None \<Longrightarrow>
     live g pre [] (s\<lparr>cs_disconnect_request := Some \<lparr>pd_requests = [(i, d)], pd_connect_request = cs_connect_request s\<rparr>,
       cs_connect_request := None\<rparr>)"
  by (erule live_move; simp add: pending_ids_def ids_of_def)+

lemma live_takes:
  "live g pre [] s \<Longrightarrow> cs_scan_request s = Some i \<Longrightarrow> live g pre [i] (s\<lparr>cs_scan_request := None\<rparr>)"
  "live g pre [] s \<Longrightarrow> cs_connect_request s = Some i \<Longrightarrow> live g pre [i] (s\<lparr>cs_connect_request := None\<rparr>)"
  "live g pre [] s \<Longrightarrow> cs_power_save_request s = Some (i, d) \<Longrightarrow> live g pre [i] (s\<lparr>cs_power_save_request := None\<rparr>)"
  "live g pre [] s \<Longrightarrow> cs_disconnect_request s = Some p \<Longrightarrow>
     live g pre (ids_of (pd_connect_request p) @ map fst (pd_requests p)) (s\<lparr>cs_disconnect_request := None\<rparr>)"
  by (erule live_move; simp add: pending_ids_def ids_of_def)+

lemma start_live:
  assumes m: "\<And>r. fst (m r) \<noteq> Panic" and C: "\<And>s r. C s \<Longrightarrow> C (s\<lparr>cs_runtime := r\<rparr>)"
    and u: "\<And>s. live g pre [i] s \<Longrightarrow> C s \<Longrightarrow> live g pre [] (u s)"
  shows "triple (\<lambda>s. live g pre [i] s \<and> C s)
    (st_match (on_runtime m) (\<lambda>_. st_modify u) (\<lambda>e. st_return (Err (runtime_end e))))
    (\<lambda>_. live g pre []) (\<lambda>_. live g pre [i])"
  by (rule triple_match [OF triple_runtime [where E = "\<lambda>_. live g pre [i]"] triple_modify triple_return(2)])
    (use m C u in auto)

text \<open>What holds of the service for every kernel and runtime that keep their contracts.\<close>

locale control_service =
  fixes k :: "'w kernel" and rt :: "'r wifi_runtime"
  assumes kernel: "kernel_ok k" and runtime: "runtime_ok rt"
begin

lemma calls_safe [simp]:
  "fst (rt_begin_connect rt q d r) \<noteq> Panic" "fst (rt_drive_connect_once rt r) \<noteq> Panic" "fst (rt_roam rt q' r) \<noteq> Panic"
  "fst (rt_begin_scan rt q'' d r) \<noteq> Panic" "fst (rt_drive_scan_once rt r) \<noteq> Panic" "fst (rt_drive_once rt r) \<noteq> Panic"
  "fst (rt_next_connection_event rt r) \<noteq> Panic" "fst (rt_begin_disconnect rt q3 d r) \<noteq> Panic"
  "fst (rt_drive_disconnect_once rt r) \<noteq> Panic" "fst (rt_begin_power_save rt q4 d r) \<noteq> Panic"
  "fst (rt_drive_power_save_once rt r) \<noteq> Panic" "length (rt_public_mac rt r) = 6"
  using runtime by (simp_all add: runtime_ok_def)

lemmas reply_rule = triple_weaken [OF queue_reply_live [OF kernel]]

lemma dispatch_scan_live:
  assumes d: "d \<noteq> None"
  shows "triple (live g pre [i]) (dispatch_scan rt k i d request) (\<lambda>_. live g pre []) (\<lambda>_. live g pre [i])"
  unfolding dispatch_scan_def queue_scan_reply_def
proof (intro triple_get triple_if, goal_cases)
  case 1
  show ?case by (rule reply_rule) (auto simp: in_reply_to_def is_end_def)
next
  case 2
  then show ?case
    using d by (intro triple_then [OF triple_expect]
        triple_weaken [OF start_live [where C = "\<lambda>s. cs_scan_request s = None"]])
      (auto intro: live_requests)
qed

lemma dispatch_connect_live:
  assumes d: "d \<noteq> None"
  shows "triple (live g pre [i]) (dispatch_connect rt i d request) (\<lambda>_. live g pre []) (\<lambda>_. live g pre [i])"
  unfolding dispatch_connect_def
proof (intro triple_get triple_if, goal_cases)
  case 2
  then show ?case
    using d by (intro triple_then [OF triple_expect]
        triple_weaken [OF start_live [where C = "\<lambda>s. cs_connect_request s = None"]])
      (auto intro: live_requests)
qed (auto intro: triple_return)

lemma dispatch_disconnect_live:
  assumes d: "d \<noteq> None"
  shows "triple (live g pre [i]) (dispatch_disconnect rt i d reason) (\<lambda>_. live g pre []) (\<lambda>_. live g pre [i])"
  unfolding dispatch_disconnect_def
proof (intro triple_then [OF triple_expect] triple_get triple_if triple_option, goal_cases)
  case (3 deadline s)
  then show ?case
    by (intro triple_then [OF triple_map_err [OF triple_runtime [where P = "\<lambda>s. live g pre [i] s \<and>
        cs_disconnect_request s = None", THEN triple_weaken]] triple_modify])
      (auto intro: live_requests)
qed (use d in \<open>auto intro!: triple_return triple_modify live_requests\<close>)

lemma dispatch_roam_live:
  "triple (live g pre [i]) (dispatch_roam rt k i request) (\<lambda>_. live g pre []) (\<lambda>_. live g pre [i])"
  unfolding dispatch_roam_def
proof (intro triple_get triple_then [where R = "\<lambda>_. live g pre [i]"] triple_if, goal_cases)
  case (2 s)
  show ?case
    by (intro triple_match [OF triple_runtime [where P = "live g pre [i]", THEN triple_weaken]] triple_if triple_return)
      auto
next
  case (3 s reply)
  show ?case by (rule reply_rule) (auto simp: in_reply_to_def is_end_def)
qed (auto intro: triple_return)

lemma queue_power_save_live:
  "triple (live g pre [i]) (queue_power_save_reply k i reply) (\<lambda>_. live g pre []) (\<lambda>_. live g pre [i])"
  unfolding queue_power_save_reply_def by (rule reply_rule) (auto simp: in_reply_to_def is_end_def)

lemma dispatch_power_save_live:
  assumes d: "d \<noteq> None"
  shows "triple (live g pre [i]) (dispatch_power_save rt k i d mode) (\<lambda>_. live g pre []) (\<lambda>_. live g pre [i])"
  unfolding dispatch_power_save_def
proof (intro triple_then [OF triple_expect] triple_get triple_if, goal_cases)
  case (2 deadline s)
  show ?case by (rule triple_weaken [OF queue_power_save_live]) auto
next
  case (3 deadline s)
  then have n: "cs_power_save_request s = None" by blast
  show ?case
    by (intro triple_match [where F = "\<lambda>_. live g pre [i]" and R = "\<lambda>_ s. live g pre [i] s \<and> cs_power_save_request s = None"]
        triple_weaken [OF triple_runtime [where P = "\<lambda>s. live g pre [i] s \<and> cs_power_save_request s = None"]]
        triple_modify triple_option queue_power_save_live triple_return)
      (auto simp: n intro: live_requests)
qed (use d in simp)

lemma dispatch_live:
  assumes "pk_request_id p = i"
  shows "triple (live g pre [i]) (dispatch rt k p) (\<lambda>_. live g pre []) (\<lambda>_. live g pre [i])"
  unfolding dispatch_def
proof (rule triple_then [OF admit_deadline_live [OF kernel, of g pre p, unfolded assms]])
  fix a :: "unit + nat option"
  let ?P = "\<lambda>s. case a of Inl _ \<Rightarrow> live g pre [] s
       | Inr d \<Rightarrow> live g pre [i] s \<and> (message_deadline (pk_message p) \<noteq> None \<longrightarrow> d \<noteq> None)"
  show "triple ?P (case a of Inl _ \<Rightarrow> st_return (Ok ()) | Inr d \<Rightarrow>
      (case pk_message p of
         Scan _ request \<Rightarrow> dispatch_scan rt k (pk_request_id p) d request
       | Connect _ request \<Rightarrow> dispatch_connect rt (pk_request_id p) d request
       | Disconnect _ reason \<Rightarrow> dispatch_disconnect rt (pk_request_id p) d reason
       | Roam _ request \<Rightarrow> dispatch_roam rt k (pk_request_id p) request
       | SetPowerSave _ mode \<Rightarrow> dispatch_power_save rt k (pk_request_id p) d mode
       | _ \<Rightarrow> st_return (Err ProtocolViolation))) (\<lambda>_. live g pre []) (\<lambda>_. live g pre [i])"
  proof (cases a)
    case (Inl u)
    then show ?thesis by (auto intro: triple_return)
  next
    case (Inr d)
    show ?thesis
      unfolding Inr sum.case assms
      by (cases "pk_message p") (auto simp: message_deadline_def intro!: triple_pure triple_return dispatch_scan_live
          dispatch_connect_live dispatch_disconnect_live dispatch_roam_live dispatch_power_save_live)
  qed
qed

end

section \<open>Driving\<close>

text \<open>After a drive: still live with nothing owed, or ended. After an error the queues and the stream are intact.\<close>

definition settled :: "bytes \<Rightarrow> message list \<Rightarrow> ('r, 'w) control_server \<Rightarrow> bool" where
  "settled g pre s \<longleftrightarrow> live g pre [] s \<or> ended g pre s"

definition kept :: "bytes \<Rightarrow> message list \<Rightarrow> ('r, 'w) control_server \<Rightarrow> bool" where
  "kept g pre s \<longleftrightarrow> (\<exists>owed. server_inv g pre owed s)"

lemma kept_live [intro]: "live g pre owed s \<Longrightarrow> kept g pre s"
  by (auto simp: kept_def live_def)

lemma settled_live [intro]: "live g pre [] s \<Longrightarrow> settled g pre s"
  by (simp add: settled_def)

lemma settled_ended [intro]: "ended g pre s \<Longrightarrow> settled g pre s"
  by (simp add: settled_def)

context control_service
begin

lemma end_true_settles: "triple (live g pre owed) (end_true k reason) (\<lambda>_. settled g pre) E"
  unfolding end_true_def
  by (rule triple_then [OF end_generation_ends [OF kernel] triple_return(1)]) auto

lemma events_live:
  "triple (live g pre owed) (queue_connection_events rt k progressed) (\<lambda>_. live g pre owed) (\<lambda>_. live g pre owed)"
proof (rule tripleI)
  fix s :: "('r, 'w) control_server"
  assume "live g pre owed s"
  then show "case queue_connection_events rt k progressed s of (Ok x, s') \<Rightarrow> live g pre owed s'
      | (Err e, s') \<Rightarrow> live g pre owed s' | (Panic, s') \<Rightarrow> False"
  proof (induction "NORMAL_PACKET_LIMIT - length (cs_outbound s)" arbitrary: s progressed rule: less_induct)
    case less
    obtain r s' where c: "on_runtime (rt_next_connection_event rt) s = (r, s')" by fastforce
    have n: "triple (live g pre owed) (on_runtime (rt_next_connection_event rt)) (\<lambda>_. live g pre owed) (\<lambda>_. live g pre owed)"
      by (intro triple_runtime) auto
    have l: "live g pre owed s'" "r \<noteq> Panic" "cs_outbound s' = cs_outbound s"
      using tripleD [OF n less.prems] c by (auto simp: on_runtime_def st_zoom_def split: prod.splits) (cases r; auto)+
    show ?case
    proof (cases "\<exists>event. r = Ok (Some event)")
      case True
      then obtain event where r: "r = Ok (Some event)" by blast
      obtain v t where q: "queue k (Event event) None s' = (v, t)" by fastforce
      have e: "triple (live g pre owed) (queue k (Event event) None) (\<lambda>_. live g pre owed) (\<lambda>_. live g pre owed)"
        by (rule queue_live [OF kernel]) (simp_all add: is_end_def in_reply_to_def ids_of_def)
      have d: "v \<noteq> Panic" "live g pre owed t" using tripleD [OF e l(1)] q by (cases v; auto)+
      show ?thesis
      proof (cases v)
        case (Ok u)
        then have "NORMAL_PACKET_LIMIT - length (cs_outbound t) < NORMAL_PACKET_LIMIT - length (cs_outbound s)"
          using queue_pushes [of k "Event event" None s' u t] q l(3) by auto
        from less.hyps [OF this d(2)] show ?thesis
          using c r q Ok by (subst queue_connection_events.simps) simp
      qed (use c r q d in \<open>auto simp: queue_connection_events.simps [of rt k progressed s]\<close>)
    qed (use c l in \<open>auto simp: queue_connection_events.simps [of rt k progressed s] split: res.splits option.splits\<close>)
  qed
qed

end

end
