(* ===== verification/Simulated_Wifi_Runtime.thy ===== *)
theory Simulated_Wifi_Runtime
  imports Wifi_Control_Service
begin

text \<open>
  The hardware-independent runtime of the control service (\<open>SimulatedWifiRuntime\<close>), an implementation
  of the trait the server drives. A \<open>[u8; 6]\<close> is a tuple of six bytes, a descriptor its number.
\<close>

datatype simulated_connect_mode =
    NoMode | SuccessMode | RetrySafeFailure | StaleFailure | TimeoutMode | DriverFaultMode | ContainmentFaultMode | Hold

type_synonym mac = "u8 \<times> u8 \<times> u8 \<times> u8 \<times> u8 \<times> u8"

fun mac_bytes :: "mac \<Rightarrow> bytes" where
  "mac_bytes (a, b, c, d, e, f) = [a, b, c, d, e, f]"

record simulated_wifi_runtime =
  sw_mac :: mac
  sw_connect :: bool
  sw_scan :: bool
  sw_scan_result :: "scan_error_code + scan_result list"
  sw_events :: "connect_transaction_event list"
  sw_ethernet :: "nat option"
  sw_ethernet_after_connect :: "nat option"
  sw_connect_mode :: simulated_connect_mode
  sw_disconnect :: "disconnect_outcome option"
  sw_power_save :: "(runtime_error + unit) option"

type_synonym 'a sim_op = "(simulated_wifi_runtime, runtime_error, 'a) op"

definition simulated_new :: "mac \<Rightarrow> simulated_wifi_runtime" where
  "simulated_new m =
     \<lparr>sw_mac = m, sw_connect = False, sw_scan = False, sw_scan_result = Inr [], sw_events = [], sw_ethernet = None,
      sw_ethernet_after_connect = None, sw_connect_mode = NoMode, sw_disconnect = None, sw_power_save = None\<rparr>"

definition publish_ethernet :: "nat \<Rightarrow> simulated_wifi_runtime \<Rightarrow> simulated_wifi_runtime" where
  "publish_ethernet fd r = r\<lparr>sw_ethernet := Some fd\<rparr>"

definition publish_ethernet_after_connect :: "nat \<Rightarrow> simulated_wifi_runtime \<Rightarrow> simulated_wifi_runtime" where
  "publish_ethernet_after_connect fd r = r\<lparr>sw_ethernet_after_connect := Some fd\<rparr>"

definition inject_connection_event :: "connect_transaction_event \<Rightarrow> simulated_wifi_runtime \<Rightarrow> simulated_wifi_runtime" where
  "inject_connection_event event r = r\<lparr>sw_events := sw_events r @ [event]\<rparr>"

definition sim_take_ethernet_device :: "simulated_wifi_runtime \<Rightarrow> nat option \<times> simulated_wifi_runtime" where
  "sim_take_ethernet_device r = (sw_ethernet r, r\<lparr>sw_ethernet := None\<rparr>)"

text \<open>The mode is chosen by the SSID: \<open>fail\<close>, \<open>stale\<close>, \<open>timeout\<close>, \<open>driver\<close>, \<open>containment\<close>, \<open>hold\<close>.\<close>

definition ssid_mode :: "bytes \<Rightarrow> simulated_connect_mode" where
  "ssid_mode ssid =
     (if ssid = [0x66, 0x61, 0x69, 0x6c] then RetrySafeFailure
      else if ssid = [0x73, 0x74, 0x61, 0x6c, 0x65] then StaleFailure
      else if ssid = [0x74, 0x69, 0x6d, 0x65, 0x6f, 0x75, 0x74] then TimeoutMode
      else if ssid = [0x64, 0x72, 0x69, 0x76, 0x65, 0x72] then DriverFaultMode
      else if ssid = [0x63, 0x6f, 0x6e, 0x74, 0x61, 0x69, 0x6e, 0x6d, 0x65, 0x6e, 0x74] then ContainmentFaultMode
      else if ssid = [0x68, 0x6f, 0x6c, 0x64] then Hold
      else SuccessMode)"

definition sim_begin_connect :: "connect_request \<Rightarrow> nat \<Rightarrow> unit sim_op" where
  "sim_begin_connect q deadline r = (Ok (), r\<lparr>sw_connect := True, sw_connect_mode := ssid_mode (cq_ssid q)\<rparr>)"

definition connect_success :: connect_result where
  "connect_success = \<lparr>cr_code = StatusCode 0, cr_is_credential_rejected = False, cr_is_reconnect = False\<rparr>"

definition sim_drive_connect_once :: "connect_result option sim_op" where
  "sim_drive_connect_once r =
     (if \<not> sw_connect r then (Ok None, r)
      else if sw_connect_mode r = Hold then (Ok None, r)
      else let r = r\<lparr>sw_connect := False\<rparr> in
        if sw_connect_mode r = TimeoutMode then (Err RtTimeout, r)
        else if sw_connect_mode r = DriverFaultMode then (Err RtDriverFault, r)
        else if sw_connect_mode r = ContainmentFaultMode then (Err RtContainmentFault, r)
        else if sw_connect_mode r = RetrySafeFailure \<or> sw_connect_mode r = StaleFailure then
          let stale = (sw_connect_mode r = StaleFailure);
              r = r\<lparr>sw_connect_mode := NoMode\<rparr>;
              r = (if stale then r\<lparr>sw_events := sw_events r @ [OnConnectResult connect_success]\<rparr> else r) in
          (Err (RtFailed \<lparr>cr_code = StatusCode 1, cr_is_credential_rejected = True, cr_is_reconnect = False\<rparr>), r)
        else (Ok (Some connect_success),
              r\<lparr>sw_connect_mode := NoMode, sw_ethernet := sw_ethernet_after_connect r, sw_ethernet_after_connect := None\<rparr>))"

definition sim_roam :: "bss_description \<Rightarrow> unit sim_op" where
  "sim_roam request r = (Ok (), r)"

definition sim_begin_scan :: "scan_request \<Rightarrow> nat \<Rightarrow> unit sim_op" where
  "sim_begin_scan request deadline r =
     (Ok (), r\<lparr>sw_scan := True,
        sw_scan_result := (case request of
          PassiveScan channels \<Rightarrow> if channels = [149] then Inl NotSupported else Inr []
        | ActiveScan _ _ \<Rightarrow> Inr [])\<rparr>)"

definition sim_drive_scan_once :: "(scan_error_code + scan_result list) option sim_op" where
  "sim_drive_scan_once r =
     (if sw_scan r then (Ok (Some (sw_scan_result r)), r\<lparr>sw_scan := False, sw_scan_result := Inr []\<rparr>)
      else (Ok None, r\<lparr>sw_scan := False\<rparr>))"

definition sim_drive_once :: "bool sim_op" where
  "sim_drive_once r = (Ok False, r)"

definition sim_next_connection_event :: "connect_transaction_event option sim_op" where
  "sim_next_connection_event r =
     (case sw_events r of [] \<Rightarrow> (Ok None, r) | event # events \<Rightarrow> (Ok (Some event), r\<lparr>sw_events := events\<rparr>))"

definition sim_begin_disconnect :: "user_disconnect_reason \<Rightarrow> nat \<Rightarrow> unit sim_op" where
  "sim_begin_disconnect reason deadline r =
     (Ok (),
      if sw_connect r
      then r\<lparr>sw_connect := False, sw_connect_mode := NoMode,
             sw_disconnect := Some (ConnectCanceled
               \<lparr>cr_code = StatusCode 258, cr_is_credential_rejected = False, cr_is_reconnect = False\<rparr>)\<rparr>
      else r\<lparr>sw_connect := False, sw_disconnect := Some Disconnected\<rparr>)"

definition sim_drive_disconnect_once :: "disconnect_outcome option sim_op" where
  "sim_drive_disconnect_once r = (Ok (sw_disconnect r), r\<lparr>sw_disconnect := None\<rparr>)"

definition sim_begin_power_save :: "power_save_mode \<Rightarrow> nat \<Rightarrow> unit sim_op" where
  "sim_begin_power_save mode deadline r =
     (if sw_power_save r \<noteq> None then (Err RtBusy, r) else (Ok (), r\<lparr>sw_power_save := Some (Inr ())\<rparr>))"

definition sim_drive_power_save_once :: "unit option sim_op" where
  "sim_drive_power_save_once r =
     (case sw_power_save r of None \<Rightarrow> Ok None | Some (Inr u) \<Rightarrow> Ok (Some u) | Some (Inl e) \<Rightarrow> Err e,
      r\<lparr>sw_power_save := None\<rparr>)"

definition simulated_runtime :: "simulated_wifi_runtime wifi_runtime" where
  "simulated_runtime =
     \<lparr>rt_public_mac = \<lambda>r. mac_bytes (sw_mac r),
      rt_take_ethernet_device = sim_take_ethernet_device,
      rt_begin_connect = sim_begin_connect, rt_drive_connect_once = sim_drive_connect_once,
      rt_roam = sim_roam,
      rt_begin_scan = sim_begin_scan, rt_drive_scan_once = sim_drive_scan_once,
      rt_drive_once = sim_drive_once, rt_next_connection_event = sim_next_connection_event,
      rt_begin_disconnect = sim_begin_disconnect, rt_drive_disconnect_once = sim_drive_disconnect_once,
      rt_begin_power_save = sim_begin_power_save, rt_drive_power_save_once = sim_drive_power_save_once\<rparr>"

lemmas sim_defs = simulated_runtime_def sim_take_ethernet_device_def sim_begin_connect_def sim_drive_connect_once_def
  sim_roam_def sim_begin_scan_def sim_drive_scan_once_def sim_drive_once_def sim_next_connection_event_def
  sim_begin_disconnect_def sim_drive_disconnect_once_def sim_begin_power_save_def sim_drive_power_save_once_def

end
