(* ===== verification/Wifi_Control_Guarantees.thy ===== *)
theory Wifi_Control_Guarantees
  imports Wifi_Control_Invariant Simulated_Wifi_Runtime "HOL-Library.Code_Target_Nat"
begin

text \<open>
  What the policy control service guarantees, for every runtime and every behaviour of the kernel that
  keep their contracts: bounded queues and no panic, a packet stream the policy process accepts whole,
  one answer per accepted command, well-formed messages to the supervisor, and a loop that ends once
  the policy process is gone.
\<close>

section \<open>Driving the runtime\<close>

context control_service
begin

lemma runtime_call_live:
  "(\<And>r. fst (m r) \<noteq> Panic) \<Longrightarrow> (\<And>s r. C s \<Longrightarrow> C (s\<lparr>cs_runtime := r\<rparr>)) \<Longrightarrow>
   triple (\<lambda>s. live g pre owed s \<and> C s) (on_runtime m) (\<lambda>_ s. live g pre owed s \<and> C s) (\<lambda>_ s. live g pre owed s \<and> C s)"
  by (intro triple_runtime) auto

lemma end_true_rule:
  "(\<And>s. P s \<Longrightarrow> live g pre owed s) \<Longrightarrow> triple P (end_true k reason) (\<lambda>_. settled g pre) E"
  by (rule triple_weaken [OF end_true_settles]) auto

lemma end_true_ex: "triple (\<lambda>s. \<exists>owed. live g pre owed s) (end_true k reason) (\<lambda>_. settled g pre) E"
  by (rule triple_ex, rule end_true_settles)

lemma finish_power_save_settles:
  "triple (\<lambda>s. live g pre [] s \<and> cs_power_save_request s = Some (i, d)) (finish_power_save k i reply)
     (\<lambda>_. settled g pre) (\<lambda>_. kept g pre)"
  unfolding finish_power_save_def
proof (rule triple_then [where R = "\<lambda>_. live g pre [i]", OF triple_modify])
  show "triple (live g pre [i]) (st_then (st_map_err terminal_service (queue_power_save_reply k i reply)) (\<lambda>_. st_return (Ok True)))
      (\<lambda>_. settled g pre) (\<lambda>_. kept g pre)"
    by (rule triple_then [OF triple_map_err [OF triple_weaken [OF queue_power_save_live]] triple_return(1)]) auto
qed (auto intro: live_takes)

lemma drive_power_save_settles:
  "triple (\<lambda>s. live g pre [] s \<and> cs_power_save_request s = Some (i, d)) (drive_power_save rt k i d progressed)
     (\<lambda>_. settled g pre) (\<lambda>_. kept g pre)"
  unfolding drive_power_save_def
proof (rule triple_then [OF triple_now [OF kernel]], goal_cases)
  case (2 t)
  show ?case
    by (intro triple_pure triple_if end_true_rule triple_match [OF runtime_call_live] triple_option finish_power_save_settles
        triple_return) auto
qed simp

lemma any_expired_live:
  "triple (\<lambda>s. live g pre owed s \<and> cs_disconnect_request s = z) (any_expired k rs)
     (\<lambda>_ s. live g pre owed s \<and> cs_disconnect_request s = z) E"
proof (induction rs)
  case (Cons r rs)
  then show ?case
    by (simp, intro triple_then [OF triple_now [OF kernel]] triple_if triple_return triple_pure) auto
next
  case Nil
  show ?case unfolding any_expired.simps by (rule triple_return) auto
qed

lemma disconnect_replies_live:
  "triple (live g pre (map fst rs)) (queue_disconnect_replies k rs) (\<lambda>_. live g pre []) (\<lambda>_ s. \<exists>owed. live g pre owed s)"
proof (induction rs)
  case (Cons r rs)
  have "triple (live g pre (fst r # map fst rs)) (queue k (DisconnectReply \<lparr>re_in_reply_to = fst r, re_result = Success\<rparr>) None)
      (\<lambda>_. live g pre (map fst rs)) (\<lambda>_. live g pre (fst r # map fst rs))"
    by (rule queue_live [OF kernel]) (simp_all add: is_end_def in_reply_to_def ids_of_def)
  from triple_weaken [OF this, of "live g pre (fst r # map fst rs)" "\<lambda>_. live g pre (map fst rs)" "\<lambda>_ s. \<exists>owed. live g pre owed s"]
  show ?case using Cons by (auto intro: triple_then)
next
  case Nil
  show ?case unfolding queue_disconnect_replies.simps by (rule triple_return) auto
qed

lemma finish_disconnect_live:
  "triple (live g pre (ids_of (pd_connect_request p) @ map fst (pd_requests p))) (finish_disconnect rt k p outcome)
     (\<lambda>_. live g pre []) (\<lambda>_ s. \<exists>owed. live g pre owed s)"
  unfolding finish_disconnect_def
proof (rule triple_then [where R = "\<lambda>_. live g pre (map fst (pd_requests p))"], goal_cases)
  case 1
  have "triple (live g pre (i # map fst (pd_requests p))) (queue_connect_result k i result)
      (\<lambda>_. live g pre (map fst (pd_requests p))) (\<lambda>_ s. \<exists>owed. live g pre owed s)" for i result
    unfolding queue_connect_result_def
    by (rule triple_weaken [OF queue_live [OF kernel]]) (auto simp: is_end_def in_reply_to_def ids_of_def)
  then show ?case
    by (auto simp: ids_of_def intro!: triple_return split: option.splits disconnect_outcome.splits)
next
  case (2 x)
  show ?case
    by (rule triple_then [OF triple_weaken [OF events_live] disconnect_replies_live]) auto
qed

lemma drive_disconnect_settles:
  "triple (\<lambda>s. live g pre [] s \<and> cs_disconnect_request s = Some p) (drive_disconnect rt k p progressed)
     (\<lambda>_. settled g pre) (\<lambda>_. kept g pre)"
  unfolding drive_disconnect_def
proof (rule triple_then [OF any_expired_live], goal_cases)
  case (1 expired)
  show ?case
  proof (intro triple_if end_true_rule triple_match [OF runtime_call_live] triple_option
      triple_then [where R = "\<lambda>_. live g pre (ids_of (pd_connect_request p) @ map fst (pd_requests p))"] triple_modify)
    fix outcome
    show "triple (live g pre (ids_of (pd_connect_request p) @ map fst (pd_requests p)))
        (st_match (finish_disconnect rt k p outcome) (\<lambda>_. st_return (Ok True)) (end_true k))
        (\<lambda>_. settled g pre) (\<lambda>_. kept g pre)"
      by (rule triple_match [OF finish_disconnect_live]) (auto intro!: triple_return end_true_ex)
  qed (auto intro: triple_return live_takes)
qed

lemma queue_connect_result_live:
  "triple (live g pre [i]) (queue_connect_result k i result) (\<lambda>_. live g pre []) (\<lambda>_. live g pre [i])"
  unfolding queue_connect_result_def by (rule reply_rule) (auto simp: in_reply_to_def is_end_def)

lemma queue_scan_reply_live:
  "triple (live g pre [i]) (queue_scan_reply k i result) (\<lambda>_. live g pre []) (\<lambda>_. live g pre [i])"
  unfolding queue_scan_reply_def by (rule reply_rule) (auto simp: in_reply_to_def is_end_def)

lemma queue_event_live:
  "triple (live g pre owed) (queue k (Event event) None) (\<lambda>_. live g pre owed) (\<lambda>_. live g pre owed)"
  by (rule queue_live [OF kernel]) (simp_all add: is_end_def in_reply_to_def ids_of_def)

lemma drive_connect_settles:
  assumes rest: "\<And>progressed. triple (live g pre []) (rest progressed) (\<lambda>_. settled g pre) (\<lambda>_. kept g pre)"
  shows "triple (live g pre []) (drive_connect rt k rest progressed) (\<lambda>_. settled g pre) (\<lambda>_. kept g pre)"
  unfolding drive_connect_def
proof (intro triple_get triple_option, goal_cases)
  case (1 s)
  show ?case by (rule triple_pre [OF rest]) auto
next
  case (2 s i)
  have done_i: "triple (live g pre [i]) (st_match (queue_connect_result k i result) f (end_true k)) (\<lambda>_. settled g pre) (\<lambda>_. kept g pre)"
    if "\<And>x. triple (live g pre []) (f x) (\<lambda>_. settled g pre) (\<lambda>_. kept g pre)" for result f
    by (rule triple_match [OF queue_connect_result_live that end_true_settles])
  let ?P = "\<lambda>s. live g pre [] s \<and> cs_connect_request s = Some i"
  have taken: "triple ?P (st_then (st_modify (\<lambda>s. s\<lparr>cs_connect_request := None\<rparr>)) m) (\<lambda>_. settled g pre) (\<lambda>_. kept g pre)"
    if "triple (live g pre [i]) (m ()) (\<lambda>_. settled g pre) (\<lambda>_. kept g pre)" for m
    by (rule triple_then [where R = "\<lambda>_. live g pre [i]", OF triple_modify]) (auto simp: that intro: live_takes)
  show ?case
  proof (rule triple_pre [OF triple_match [OF runtime_call_live [where g = g and pre = pre and owed = "[]" and C = "\<lambda>s. cs_connect_request s = Some i"]]], goal_cases)
    case (3 result)
    show ?case
      by (intro triple_option taken done_i triple_match [OF queue_event_live rest end_true_settles] triple_pre [OF rest]) auto
  next
    case (4 e)
    show ?case
    proof (cases e)
      case (RtFailed result)
      have "triple (live g pre [i]) (st_match (on_runtime (rt_next_connection_event rt))
          (\<lambda>event. case event of Some _ \<Rightarrow> end_true k DriverFault
             | None \<Rightarrow> st_match (queue_connect_result k i result) (\<lambda>_. rest True) (end_true k))
          (\<lambda>e. end_true k (runtime_end e))) (\<lambda>_. settled g pre) (\<lambda>_. kept g pre)"
        by (rule triple_match [OF triple_runtime [where E = "\<lambda>_. live g pre [i]"]])
          (auto intro!: triple_option done_i rest end_true_settles)
      then show ?thesis unfolding RtFailed runtime_error.case by (rule taken)
    qed (auto intro: end_true_rule)
  qed (use 2 in auto)
qed

lemma drive_scan_settles:
  assumes rest: "\<And>progressed. triple (live g pre []) (rest progressed) (\<lambda>_. settled g pre) (\<lambda>_. kept g pre)"
  shows "triple (live g pre []) (drive_scan rt k rest progressed) (\<lambda>_. settled g pre) (\<lambda>_. kept g pre)"
  unfolding drive_scan_def
proof (intro triple_get triple_option, goal_cases)
  case (1 s)
  show ?case by (rule triple_pre [OF rest]) auto
next
  case (2 s i)
  show ?case
  proof (rule triple_pre [OF triple_match [OF runtime_call_live [where g = g and pre = pre and owed = "[]" and C = "\<lambda>s. cs_scan_request s = Some i"]]], goal_cases)
    case (3 result)
    show ?case
      by (intro triple_option triple_then [where R = "\<lambda>_. live g pre [i]", OF triple_modify]
          triple_match [OF queue_scan_reply_live rest end_true_settles] triple_pre [OF rest]) (auto intro: live_takes)
  next
    case (4 e)
    show ?case by (rule end_true_rule) auto
  qed (use 2 in auto)
qed

lemma drive_ethernet_settles:
  "triple (live g pre []) (drive_ethernet rt k progressed) (\<lambda>_. settled g pre) (\<lambda>_. kept g pre)"
  unfolding drive_ethernet_def take_ethernet_def
proof (rule triple_then [where R = "\<lambda>_. live g pre []"], goal_cases)
  case 1
  show ?case by (rule triple_runtime) (auto split: prod.splits)
next
  case (2 device)
  show ?case
  proof (intro triple_option triple_get, goal_cases)
    case 1
    show ?case by (rule triple_return) auto
  next
    case (2 fd s)
    show ?case by (rule end_true_rule) auto
  next
    case (3 fd s e)
    let ?n = "unat (cs_ethernet_generation s)"
    have e: "unat e = Suc ?n" using checked_add_word_unat [OF 3(2)] by simp
    have "live g pre [] (s\<lparr>cs_ethernet_generation := e\<rparr>)" if "live g pre [] s"
      using that installs_mono [of g ?n s "unat e"] e by (simp add: live_def server_inv_def installs_ok_def)
    then show ?case
      by (intro triple_then [where R = "\<lambda>_ s. live g pre [] s \<and> installs g ?n s \<and> cs_ethernet_generation s = e", OF triple_modify]
          triple_match [OF queue_install_live [OF kernel _ e]] triple_return end_true_settles)
        (auto simp: liveD installs_ok_def dest: liveD(3))
  qed
qed

lemma drive_rest_settles:
  "triple (live g pre []) (drive_rest rt k progressed) (\<lambda>_. settled g pre) (\<lambda>_. kept g pre)"
  unfolding drive_rest_def
  by (rule triple_match [OF triple_runtime [where E = "\<lambda>_. live g pre []"] drive_ethernet_settles end_true_settles]) auto

lemma drive_runtime_settles:
  "triple (live g pre []) (drive_runtime rt k) (\<lambda>_. settled g pre) (\<lambda>_. kept g pre)"
  unfolding drive_runtime_def
proof (rule triple_match [OF events_live _ end_true_settles], goal_cases)
  case (1 progressed)
  show ?case
  proof (rule triple_get, goal_cases)
    case (1 s)
    show ?case
    proof (cases "cs_power_save_request s")
      case None
      show ?thesis
      proof (cases "cs_disconnect_request s")
        case (Some p)
        then show ?thesis using None by (auto intro!: triple_pre [OF drive_disconnect_settles])
      qed (use None in \<open>auto intro!: triple_pre [OF drive_connect_settles] drive_scan_settles drive_rest_settles\<close>)
    qed (auto intro!: triple_pre [OF drive_power_save_settles])
  qed
qed

lemma validate_live:
  "triple (live g pre [] :: ('r, 'w) control_server \<Rightarrow> bool) (validate p) (\<lambda>_. live g pre [pk_request_id p]) (\<lambda>_. live g pre [])"
proof (rule tripleI)
  fix s :: "('r, 'w) control_server" assume l: "live g pre [] s"
  let ?v = "cs_validator s" and ?i = "pk_request_id p"
  have "live g pre [?i] (s\<lparr>cs_validator := ?v\<lparr>sv_last_request_id := ?i\<rparr>, cs_admitted := cs_admitted s @ [?i]\<rparr>)" (is "live _ _ _ ?s")
    if i: "?i \<noteq> 0" "sv_last_request_id ?v < ?i"
  proof -
    have r: "replies_ok g [] s" by (rule liveD(4) [OF l])
    then have b: "j < ?i" if "j \<in> set (cs_admitted s)" for j
      using that i(2) by (auto simp: replies_ok_def list_all_iff)
    have "replied_ids ?s = replied_ids s" "pending_ids ?s = pending_ids s" by (simp_all add: replied_ids_def pending_ids_def)
    then have "replies_ok g [?i] ?s"
      using r b i by (fastforce simp: replies_ok_def sorted_wrt_append list_all_iff intro: less_imp_le)
    then show ?thesis using l by (simp add: live_def server_inv_def)
  qed
  then show "case validate p s of (Ok x, s') \<Rightarrow> live g pre [?i] s' | (Err e, s') \<Rightarrow> live g pre [] s' | (Panic, s') \<Rightarrow> False"
    using l by (auto simp: validate_def validate_packet_def st_defs st_zoom_def not_le)
qed

lemma try_receive_live: "triple (live g pre owed :: ('r, 'w) control_server \<Rightarrow> bool) (try_receive k) (\<lambda>_. live g pre owed) (\<lambda>_. live g pre owed)"
proof (rule tripleI)
  fix s :: "('r, 'w) control_server" assume "live g pre owed s"
  moreover obtain outcome w where o: "k_recvmsg k (cs_kernel s) = (outcome, w)" by fastforce
  moreover have "case outcome of RecvMsg bs _ _ \<Rightarrow> length bs \<le> MAX_PACKET | _ \<Rightarrow> True"
    using kernel o unfolding kernel_ok_def by (cases outcome) (simp, metis fst_conv recv_outcome.simps(6))
  moreover have "decode bs \<noteq> Panic" for bs using decode_never_panics [of bs] by (auto simp: safe_def)
  ultimately show "case try_receive k s of (Ok x, s') \<Rightarrow> live g pre owed s' | (Err e, s') \<Rightarrow> live g pre owed s' | (Panic, s') \<Rightarrow> False"
    by (auto simp: try_receive_def split: recv_outcome.splits res.splits)
qed

lemma end_reached: "live g pre owed s \<Longrightarrow> ended g pre (s\<lparr>cs_terminal := True\<rparr>)"
  using replies_forget by (fastforce simp: live_def ended_def server_inv_def stream_ok_def queues_ok_def
      NORMAL_PACKET_LIMIT_def NORMAL_BYTE_LIMIT_def)

lemma drive_receive_settles:
  "triple (live g pre []) (drive_receive rt k progressed) (\<lambda>_. settled g pre) (\<lambda>_. kept g pre)"
  unfolding drive_receive_def
proof (rule triple_match [OF try_receive_live], goal_cases)
  case (1 received)
  show ?case
  proof (cases received)
    case (Some x)
    have "triple (live g pre []) (st_match (validate p) (\<lambda>_. if fds \<noteq> [] then end_true k ProtocolViolation
          else st_match (dispatch rt k p) (\<lambda>_. st_return (Ok True)) (end_true k)) (\<lambda>_. end_true k ProtocolViolation))
        (\<lambda>_. settled g pre) (\<lambda>_. kept g pre)" for p fds
      by (intro triple_match [OF validate_live] triple_if end_true_settles triple_match [OF dispatch_live] triple_return) auto
    then show ?thesis unfolding Some option.case by (cases x) (simp only: prod.case)
  qed (auto intro: triple_return)
next
  case (2 e)
  show ?case
    by (intro triple_if triple_then [where R = "\<lambda>_. ended g pre", OF triple_modify]
        triple_then [OF end_generation_ends [OF kernel]] triple_return) (auto intro: end_reached)
qed

end

section \<open>Flushing\<close>

lemma queues_pop:
  assumes "queues_ok s" "cs_outbound s = p # ps"
  shows "length (ob_bytes p) \<le> cs_outbound_bytes s"
    "queues_ok (s\<lparr>cs_outbound := ps, cs_outbound_bytes := cs_outbound_bytes s - length (ob_bytes p)\<rparr>)"
  using assms by (auto simp: queues_ok_def queue_bytes_def split: if_splits)

lemma queues_pop_supervisor:
  assumes "queues_ok s" "cs_supervisor_outbound s = p # ps"
  shows "length (ob_bytes p) \<le> cs_supervisor_outbound_bytes s"
    "queues_ok (s\<lparr>cs_supervisor_outbound := ps, cs_supervisor_outbound_bytes := cs_supervisor_outbound_bytes s - length (ob_bytes p)\<rparr>)"
  using assms by (auto simp: queues_ok_def queue_bytes_def split: if_splits)

definition roomy :: "nat \<Rightarrow> bytes \<Rightarrow> message list \<Rightarrow> ('r, 'w) control_server \<Rightarrow> bool" where
  "roomy n g pre s \<longleftrightarrow> server_inv g pre [] s \<and> length (cs_history s) + n < 2 ^ 64"

lemma roomy_kernel [simp]: "roomy n g pre (s\<lparr>cs_kernel := w\<rparr>) = roomy n g pre s"
  by (simp add: roomy_def)

lemma roomy_pop:
  assumes "roomy n g pre s" "cs_outbound s = p # ps"
  shows "roomy n g pre (s\<lparr>cs_outbound := ps, cs_outbound_bytes := cs_outbound_bytes s - length (ob_bytes p),
    cs_sent := cs_sent s @ [ob_bytes p]\<rparr>)"
  using assms queues_pop [OF _ assms(2)] by (simp add: roomy_def server_inv_def stream_ok_def)

lemma roomy_pop_supervisor:
  assumes "roomy n g pre s" "cs_supervisor_outbound s = p # ps"
  shows "roomy n g pre (s\<lparr>cs_supervisor_outbound := ps,
    cs_supervisor_outbound_bytes := cs_supervisor_outbound_bytes s - length (ob_bytes p),
    cs_supervisor_sent := cs_supervisor_sent s @ [ob_bytes p]\<rparr>)"
  using assms queues_pop_supervisor [OF _ assms(2)] by (simp add: roomy_def server_inv_def installs_ok_def installs_def)

lemma flush_policy_roomy: "triple (roomy n g pre) (flush_policy k progressed) (\<lambda>_. roomy n g pre) (\<lambda>_. roomy n g pre)"
proof (rule tripleI)
  show "roomy n g pre s \<Longrightarrow> case flush_policy k progressed s of (Ok x, s') \<Rightarrow> roomy n g pre s'
      | (Err e, s') \<Rightarrow> roomy n g pre s' | (Panic, s') \<Rightarrow> False" for s
  proof (induction k progressed s rule: flush_policy.induct)
    case (1 k progressed s)
    show ?case
    proof (cases "cs_outbound s")
      case (Cons p ps)
      obtain outcome w where o: "k_send_policy k (ob_bytes p) (ob_fd p) (cs_kernel s) = (outcome, w)" by fastforce
      let ?s = "s\<lparr>cs_kernel := w, cs_outbound := ps, cs_outbound_bytes := cs_outbound_bytes s - length (ob_bytes p),
        cs_sent := cs_sent s @ [ob_bytes p]\<rparr>"
      have b: "length (ob_bytes p) \<le> cs_outbound_bytes s"
        using 1(2) queues_pop(1) [OF _ Cons] by (simp add: roomy_def server_inv_def)
      have r: "roomy n g pre ?s" using 1(2) roomy_pop [of n g pre "s\<lparr>cs_kernel := w\<rparr>"] Cons by simp
      show ?thesis
      proof (cases "outcome = SendCount (length (ob_bytes p))")
        case True
        then have t: "try_send_policy k p s = (Ok True, s\<lparr>cs_kernel := w\<rparr>)" using o by (simp add: try_send_policy_def send_result_def)
        show ?thesis using 1(1) [OF Cons t [symmetric] refl refl] b r Cons t by (simp add: flush_policy.simps [of k progressed s])
      qed (use 1(2) Cons o in \<open>auto simp: flush_policy.simps [of k progressed s] try_send_policy_def send_result_def split: send_outcome.splits\<close>)
    qed (use 1 in \<open>simp add: flush_policy.simps [of k progressed s]\<close>)
  qed
qed

lemma flush_supervisor_roomy: "triple (roomy n g pre) (flush_supervisor k progressed) (\<lambda>_. roomy n g pre) (\<lambda>_. roomy n g pre)"
proof (rule tripleI)
  show "roomy n g pre s \<Longrightarrow> case flush_supervisor k progressed s of (Ok x, s') \<Rightarrow> roomy n g pre s'
      | (Err e, s') \<Rightarrow> roomy n g pre s' | (Panic, s') \<Rightarrow> False" for s
  proof (induction k progressed s rule: flush_supervisor.induct)
    case (1 k progressed s)
    show ?case
    proof (cases "cs_supervisor_outbound s")
      case (Cons p ps)
      obtain outcome w where o: "k_send_supervisor k (ob_bytes p) (ob_fd p) (cs_kernel s) = (outcome, w)" by fastforce
      let ?s = "s\<lparr>cs_kernel := w, cs_supervisor_outbound := ps, cs_supervisor_outbound_bytes := cs_supervisor_outbound_bytes s - length (ob_bytes p),
        cs_supervisor_sent := cs_supervisor_sent s @ [ob_bytes p]\<rparr>"
      have b: "length (ob_bytes p) \<le> cs_supervisor_outbound_bytes s"
        using 1(2) queues_pop_supervisor(1) [OF _ Cons] by (simp add: roomy_def server_inv_def)
      have r: "roomy n g pre ?s" using 1(2) roomy_pop_supervisor [of n g pre "s\<lparr>cs_kernel := w\<rparr>"] Cons by simp
      show ?thesis
      proof (cases "outcome = SendCount (length (ob_bytes p))")
        case True
        then have t: "try_send_supervisor k p s = (Ok True, s\<lparr>cs_kernel := w\<rparr>)" using o by (simp add: try_send_supervisor_def send_result_def)
        show ?thesis using 1(1) [OF Cons t [symmetric] refl refl] b r Cons t by (simp add: flush_supervisor.simps [of k progressed s])
      qed (use 1(2) Cons o in \<open>auto simp: flush_supervisor.simps [of k progressed s] try_send_supervisor_def send_result_def split: send_outcome.splits\<close>)
    qed (use 1 in \<open>simp add: flush_supervisor.simps [of k progressed s]\<close>)
  qed
qed

context control_service
begin

lemma any_due_roomy: "triple (roomy n g pre) (any_due k ps) (\<lambda>_. roomy n g pre) E"
proof (induction ps)
  case Nil
  show ?case unfolding any_due.simps by (rule triple_return) auto
next
  case (Cons p ps)
  then show ?case
    by (simp, intro triple_then [OF triple_now [OF kernel]] triple_if triple_return triple_pure) auto
qed

lemma roomy_kept:
  assumes "roomy n g pre s"
  shows "kept g pre s" "kept g pre (s\<lparr>cs_terminal := True\<rparr>)"
proof -
  show "kept g pre s" using assms by (auto simp: roomy_def kept_def)
  have "server_inv g pre [] (s\<lparr>cs_terminal := True\<rparr>)"
    using assms by (auto simp: roomy_def server_inv_def stream_ok_def queues_ok_def NORMAL_PACKET_LIMIT_def
        NORMAL_BYTE_LIMIT_def intro: replies_forget split: if_splits)
  then show "kept g pre (s\<lparr>cs_terminal := True\<rparr>)" by (auto simp: kept_def)
qed

lemma flush_roomy: "triple (roomy n g pre) (flush k) (\<lambda>_. roomy n g pre) (\<lambda>_. kept g pre)"
  unfolding flush_def
proof (rule triple_get, rule triple_then [OF triple_pre [OF any_due_roomy [where n = n and g = g and pre = pre]]], goal_cases)
  case (2 s due)
  show ?case
  proof (rule triple_if, goal_cases)
    case 1
    show ?case by (intro triple_then [where R = "\<lambda>_. kept g pre", OF triple_modify] triple_return) (auto intro: roomy_kept)
  next
    case 2
    show ?case
      by (rule triple_weaken [OF triple_then [OF flush_policy_roomy flush_supervisor_roomy]]) (auto intro: roomy_kept)
  qed
qed simp

lemma inv_lengths: "server_inv g pre owed s \<Longrightarrow> length (cs_history s) = length (cs_sent s) + length (cs_outbound s)"
proof -
  assume "server_inv g pre owed s"
  then have "length (map encode (session_packets g (cs_history s))) =
      length (map (Ok :: bytes \<Rightarrow> (wire_error, bytes) res) (cs_sent s @ map ob_bytes (cs_outbound s)))"
    by (simp only: server_inv_def stream_ok_def)
  then show ?thesis by (simp add: session_packets_def)
qed

lemma roomy_settled: "roomy 66 g pre s \<Longrightarrow> settled g pre s"
  using inv_lengths [of g pre "[]" s] by (auto simp: roomy_def settled_def live_def ended_def)

lemma settled_roomy: "settled g pre s \<Longrightarrow> roomy 0 g pre s"
proof -
  assume "settled g pre s"
  then have "server_inv g pre [] s" by (auto simp: settled_def live_def ended_def)
  moreover from this have "Suc (length (cs_history s)) < 2 ^ 64"
    using unsigned_less [of "cs_next_request_id s", where 'a = nat] by (simp add: server_inv_def stream_ok_def)
  ultimately show ?thesis by (simp add: roomy_def)
qed

lemma drive_once_keeps:
  "triple (roomy 66 g pre) (drive_once rt k) (\<lambda>_. server_inv g pre []) (\<lambda>_. kept g pre)"
  unfolding drive_once_def
proof (rule triple_then [OF flush_roomy], rule triple_then [where R = "\<lambda>_. settled g pre"], goal_cases)
  case (1 progressed)
  show ?case
    by (intro triple_get triple_if triple_pre [OF drive_receive_settles] triple_return)
      (use roomy_settled in \<open>fastforce simp: settled_def ended_def\<close>)+
next
  case (2 progressed progressed')
  show ?case
  proof (rule triple_then [where R = "\<lambda>_. settled g pre"], goal_cases)
    case 1
    show ?case
      by (intro triple_get triple_if triple_then [OF triple_pre [OF drive_runtime_settles]] triple_return)
        (auto simp: settled_def ended_def)
  next
    case (2 more)
    show ?case
      by (intro triple_then [OF triple_pre [OF flush_roomy [where n = 0]]] triple_return)
        (auto simp: roomy_def dest: settled_roomy)
  qed
qed

lemma opening_keeps:
  fixes w :: 'w and r :: 'r
  assumes "length g = 16" "post_lockdown_open_complete k g r w = (Ok (), s)"
  shows "server_inv g [Ready] [] s"
proof -
  let ?s = "server_new g r w :: ('r, 'w) control_server"
  have "live g [] [] ?s"
    using assms(1) by (simp add: live_def server_inv_def server_new_def stream_ok_def queues_ok_def installs_ok_def installs_def
        replies_ok_def replied_ids_def pending_ids_def ids_of_def queue_bytes_def session_packets_def validator_new_def)
  moreover have "triple (live g [] []) (queue k Ready None) (\<lambda>_. live g [] []) (\<lambda>_. live g [] [])"
    by (rule queue_live [OF kernel]) (simp_all add: is_end_def in_reply_to_def ids_of_def)
  moreover have q: "queue k Ready None ?s = (Ok (), s)"
    using assms(2) by (auto simp: post_lockdown_open_complete_def st_defs split: res.splits prod.splits)
  ultimately have "live g [] [] s" using tripleD(2) [of _ _ _ _ ?s "()" s] by blast
  moreover have "cs_history s = [Ready]"
    using q by (auto simp: queue_def st_defs now_def instant_add_def server_new_def split: if_splits res.splits prod.splits option.splits)
  ultimately show ?thesis by (simp add: live_def server_inv_def stream_ok_def)
qed

lemma serves_inv:
  assumes "length g = 16" "serves rt k g s"
  shows "server_inv g [Ready] [] s"
  using assms(2)
proof induction
  case (opened r w s)
  then show ?case by (rule opening_keeps [OF assms(1)])
next
  case (driven s progressed s')
  then show ?case using tripleD(2) [OF drive_once_keeps, of g "[Ready]" s progressed s'] by (simp add: roomy_def)
qed

lemma served_drive_safe:
  assumes "length g = 16" "serves rt k g s" "length (cs_history s) + 66 < 2 ^ 64"
  shows "fst (drive_once rt k s) \<noteq> Panic"
  using tripleD(1) [OF drive_once_keeps, of g "[Ready]" s] serves_inv [OF assms(1,2)] assms(3) by (simp add: roomy_def)

end

section \<open>Endpoints\<close>

lemma io_result_Ok: "io_result call w = (Ok x, w') \<longleftrightarrow> call w = (Inr x, w')"
  by (auto simp: io_result_def split: prod.splits sum.splits)

lemma guarded_Ok: "(if b then st_return (Err e) else m) w = (Ok y, w') \<longleftrightarrow> \<not> b \<and> m w = (Ok y, w')"
  by (simp add: st_defs)

lemma call_Ok:
  "(case z of (x, w) \<Rightarrow> (Ok x, w)) = (Ok y, w') \<longleftrightarrow> z = (y, w')"
  "(case r of (None, w) \<Rightarrow> (Inr (), w) | (Some e, w) \<Rightarrow> (Inl e, w)) = (Inr u, w') \<longleftrightarrow> r = (None, w')"
  by (auto split: prod.splits option.splits)

text \<open>An accepted descriptor was reported to be a connected seqpacket socket of the Unix domain and made non-blocking;
  two accepted descriptors were reported to be different files.\<close>

lemma from_inherited_fd_accepts:
  assumes "from_inherited_fd so fd w = (Ok r, w')"
  shows "r = fd \<and> (\<exists>w. fst (so_getsockopt so fd SOL_SOCKET SO_DOMAIN w) = Inr AF_UNIX) \<and>
    (\<exists>w. fst (so_getsockopt so fd SOL_SOCKET SO_TYPE w) = Inr SOCK_SEQPACKET) \<and>
    (\<exists>w. fst (so_getpeername so fd w) = Some AF_UNIX) \<and>
    (\<exists>v w flags. fst (so_getfl so fd v) = Inr flags \<and> fst (so_setfl so fd (flags OR O_NONBLOCK) w) = None)"
proof -
  obtain a b c d flags where "so_getsockopt so fd SOL_SOCKET SO_DOMAIN w = (Inr AF_UNIX, a)"
      "so_getsockopt so fd SOL_SOCKET SO_TYPE a = (Inr SOCK_SEQPACKET, b)" "so_getpeername so fd b = (Some AF_UNIX, c)"
      "so_getfl so fd c = (Inr flags, d)" "so_setfl so fd (flags OR O_NONBLOCK) d = (None, w')" "r = fd"
    using assms unfolding from_inherited_fd_def socket_option_def st_then_eq_Ok guarded_Ok io_result_Ok call_Ok
    by (auto simp: st_return_def)
  then show ?thesis by (metis fst_conv)
qed

lemma prepared_endpoints_distinct:
  assumes "prepared_endpoints so p q w = (Ok (a, b), w')"
  shows "a = p \<and> b = q \<and> (\<exists>v u i j. fst (so_fstat so p v) = Inr i \<and> fst (so_fstat so q u) = Inr j \<and> i \<noteq> j)"
proof -
  obtain i j v u t where "from_inherited_fd so p w = (Ok a, v)" "from_inherited_fd so q v = (Ok b, u)"
      "so_fstat so a u = (Inr i, t)" "so_fstat so b t = (Inr j, w')" "i \<noteq> j"
    using assms unfolding prepared_endpoints_def fd_identity_def st_then_eq_Ok guarded_Ok io_result_Ok
    by (auto simp: st_return_def)
  then show ?thesis using from_inherited_fd_accepts by (metis fst_conv)
qed

section \<open>A socket and a clock\<close>

text \<open>A kernel that stands still in time and delivers the given datagrams, cut to the buffer of the receiver; it takes
  every packet.\<close>

definition scripted_kernel :: "bytes list kernel" where
  "scripted_kernel =
     \<lparr>k_now = \<lambda>w. (0, w), k_clock_gettime = \<lambda>w. (Some (0, 0), w),
      k_recvmsg = (\<lambda>w. case w of
         [] \<Rightarrow> (RecvFailed WouldBlock, [])
       | bs # w \<Rightarrow> (RecvMsg (take MAX_PACKET bs) (MAX_PACKET < length bs) False, w)),
      k_send_policy = \<lambda>bs fd w. (SendCount (length bs), w),
      k_send_supervisor = \<lambda>bs fd w. (SendCount (length bs), w)\<rparr>"

text \<open>A kernel on which the policy process has hung up.\<close>

definition closed_kernel :: "bytes list kernel" where
  "closed_kernel = scripted_kernel\<lparr>k_recvmsg := \<lambda>w. (RecvMsg [] False False, w)\<rparr>"

definition example_generation :: bytes where "example_generation = replicate 16 7"

text \<open>A server with an Ethernet device to hand over: opened, and driven once.\<close>

definition example_open :: "bytes list kernel \<Rightarrow> (simulated_wifi_runtime, bytes list) control_server" where
  "example_open k = snd (post_lockdown_open_complete k example_generation
     (publish_ethernet 9 (simulated_new (2, 0, 0, 0, 0, 1))) [])"

definition example_driven :: "(simulated_wifi_runtime, bytes list) control_server" where
  "example_driven = snd (drive_once simulated_runtime scripted_kernel (example_open scripted_kernel))"

lemma kernel_ok_scripted: "kernel_ok scripted_kernel"
  by (auto simp: kernel_ok_def scripted_kernel_def INSTANT_MAX_def seconds_def split: list.splits)

lemma runtime_ok_simulated: "runtime_ok simulated_runtime"
proof -
  have "length (mac_bytes m) = 6" for m by (cases m) simp
  then show ?thesis
    by (auto simp: runtime_ok_def sim_defs Let_def split: list.splits option.splits sum.splits)
qed

interpretation simulated: control_service scripted_kernel simulated_runtime
  by unfold_locales (rule kernel_ok_scripted, rule runtime_ok_simulated)

lemma example_opened:
  assumes "k = scripted_kernel \<or> k = closed_kernel"
  shows "serves rt k example_generation (example_open k)"
proof -
  have "fst (post_lockdown_open_complete scripted_kernel example_generation
      (publish_ethernet 9 (simulated_new (2, 0, 0, 0, 0, 1))) []) = Ok ()"
    "fst (post_lockdown_open_complete closed_kernel example_generation
      (publish_ethernet 9 (simulated_new (2, 0, 0, 0, 0, 1))) []) = Ok ()"
    by code_simp+
  then show ?thesis using assms unfolding example_open_def by (metis opened prod.collapse)
qed

lemma example_served: "serves simulated_runtime scripted_kernel example_generation example_driven"
proof (rule driven)
  show "serves simulated_runtime scripted_kernel example_generation (example_open scripted_kernel)"
    by (rule example_opened) simp
  have "length (cs_history (example_open scripted_kernel)) = 1" by code_simp
  then show "length (cs_history (example_open scripted_kernel)) + 66 < 2 ^ 64" by simp
  have "fst (drive_once simulated_runtime scripted_kernel (example_open scripted_kernel)) = Ok True" by code_simp
  then show "drive_once simulated_runtime scripted_kernel (example_open scripted_kernel) = (Ok True, example_driven)"
    unfolding example_driven_def by (metis prod.collapse)
qed

lemma example_generation_length: "length example_generation = 16"
  by (simp add: example_generation_def)

lemmas example_facts = kernel_ok_scripted runtime_ok_simulated example_generation_length example_served

section \<open>Guarantees\<close>

lemma served_inv:
  assumes "kernel_ok k" "runtime_ok rt" "length g = 16" "serves rt k g s"
  shows "server_inv g [Ready] [] s"
  using control_service.serves_inv [OF control_service.intro] assms by blast

text \<open>C33: a served state has at most 64 packets and 64 KiB in each queue, with the byte counts exact, and driving
  it on does not panic while the request numbers last.\<close>
theorem service_bounded_and_safe:
  assumes "kernel_ok k" "runtime_ok rt" "length g = 16" "serves rt k g s"
  shows "length (cs_outbound s) \<le> 64 \<and> cs_outbound_bytes s \<le> 65536 \<and>
    length (cs_supervisor_outbound s) \<le> 64 \<and> cs_supervisor_outbound_bytes s \<le> 65536 \<and>
    cs_outbound_bytes s = sum_list (map (\<lambda>p. length (ob_bytes p)) (cs_outbound s)) \<and>
    cs_supervisor_outbound_bytes s = sum_list (map (\<lambda>p. length (ob_bytes p)) (cs_supervisor_outbound s)) \<and>
    (length (cs_history s) + 66 < 2 ^ 64 \<longrightarrow> fst (drive_once rt k s) \<noteq> Panic)"
proof -
  have "queues_ok s" using served_inv [OF assms] by (simp add: server_inv_def)
  moreover have "length (cs_history s) + 66 < 2 ^ 64 \<longrightarrow> fst (drive_once rt k s) \<noteq> Panic"
    using control_service.served_drive_safe [OF control_service.intro] assms by blast
  ultimately show ?thesis
    by (auto simp: queues_ok_def queue_bytes_def NORMAL_PACKET_LIMIT_def NORMAL_BYTE_LIMIT_def
        MAX_OUTBOUND_PACKETS_def MAX_OUTBOUND_BYTES_def split: if_splits)
qed

theorem service_bounded_and_safe_witness:
  "length (cs_outbound example_driven) \<le> 64 \<and> cs_supervisor_outbound_bytes example_driven \<le> 65536"
  using service_bounded_and_safe [OF example_facts] by blast

lemma session_packets_nth:
  "length (session_packets g ms) = length ms"
  "i < length ms \<Longrightarrow> session_packets g ms ! i = \<lparr>pk_generation = g, pk_request_id = of_nat (Suc i), pk_message = ms ! i\<rparr>"
  by (simp_all add: session_packets_def)

lemma session_accepted_all:
  assumes "list_all (\<lambda>p. pk_generation p = sv_generation v) ps"
    "sorted_wrt (<) (sv_last_request_id v # map pk_request_id ps)"
  shows "session_accepted v ps = ps"
  using assms
proof (induction ps arbitrary: v)
  case (Cons p ps)
  then show ?case by (simp add: session_accepted_Cons del: session_accepted.simps(2))
qed simp

lemma session_packets_accepted:
  assumes "length ms < 2 ^ 64"
  shows "session_accepted (validator_new g) (session_packets g ms) = session_packets g ms"
proof (rule session_accepted_all)
  have u: "unat (of_nat (Suc i) :: u64) = Suc i" if "i < length ms" for i
    using that assms by (simp add: unat_of_nat del: of_nat_Suc)
  have "(of_nat (Suc i) :: u64) < of_nat (Suc j)" if "i < j" "j < length ms" for i j
    using that u [of i] u [of j] by (simp add: word_less_nat_alt del: of_nat_Suc)
  moreover have "(0 :: u64) < of_nat (Suc i)" if "i < length ms" for i
    using that u [of i] by (simp add: word_less_nat_alt del: of_nat_Suc)
  ultimately show "sorted_wrt (<) (sv_last_request_id (validator_new g) # map pk_request_id (session_packets g ms))"
    unfolding list.map(2) sorted_wrt.simps(2) unfolding sorted_wrt_iff_nth_less
    by (auto simp: validator_new_def session_packets_nth in_set_conv_nth simp del: of_nat_Suc)
qed (simp add: list_all_length session_packets_nth validator_new_def)

lemma decode_session:
  assumes "map encode ps = map Ok bss" "list_all packet_ok ps"
  shows "map decode bss = map Ok ps"
  using assms
proof (induction ps arbitrary: bss)
  case (Cons p ps)
  then show ?case by (cases bss) (auto simp: decode_iff_encode)
qed simp

text \<open>C34: the packets that the policy process has been sent, followed by those still queued, encode a session: its
  first message is \<open>Ready\<close>, a generation end can only be its last, the packets are numbered from one, a peer that
  checks the session lets every one of them pass, and it decodes them to the messages that were queued if these have
  codes the wire format knows.\<close>
theorem policy_stream_is_session:
  assumes "kernel_ok k" "runtime_ok rt" "length g = 16" "serves rt k g s"
  defines "packets \<equiv> session_packets g (cs_history s)"
  shows "map encode packets = map Ok (cs_sent s @ map ob_bytes (cs_outbound s)) \<and>
    hd (cs_history s) = Ready \<and> list_all (\<lambda>m. \<not> is_end m) (butlast (cs_history s)) \<and>
    session_accepted (validator_new g) packets = packets \<and>
    (list_all packet_ok packets \<longrightarrow> map decode (cs_sent s @ map ob_bytes (cs_outbound s)) = map Ok packets)"
proof -
  have s: "stream_ok g [Ready] s" using served_inv [OF assms(1-4)] by (simp add: server_inv_def)
  then have "Suc (length (cs_history s)) < 2 ^ 64"
    using unsigned_less [of "cs_next_request_id s", where 'a = nat] by (simp add: stream_ok_def)
  then have "session_accepted (validator_new g) packets = packets"
    unfolding packets_def by (intro session_packets_accepted) simp
  moreover have e: "map encode packets = map Ok (cs_sent s @ map ob_bytes (cs_outbound s))"
    using s by (simp only: stream_ok_def packets_def)
  moreover have "hd (cs_history s) = Ready" using s by (auto simp: stream_ok_def prefix_def)
  ultimately show ?thesis using s decode_session [OF e] unfolding stream_ok_def by blast
qed

theorem policy_stream_is_session_witness:
  "hd (cs_history example_driven) = Ready \<and>
   session_accepted (validator_new example_generation) (session_packets example_generation (cs_history example_driven)) =
     session_packets example_generation (cs_history example_driven)"
  using policy_stream_is_session [OF example_facts] by blast

text \<open>C35: the request numbers accepted from the policy process are increasing, no request is answered twice or
  answered while it is still pending, and until the generation ends every accepted request is answered or pending.\<close>
theorem one_reply_per_request:
  assumes "kernel_ok k" "runtime_ok rt" "length g = 16" "serves rt k g s"
  shows "sorted_wrt (<) (cs_admitted s) \<and> distinct (replied_ids s @ pending_ids s) \<and>
    set (replied_ids s @ pending_ids s) \<subseteq> set (cs_admitted s) \<and>
    (\<not> cs_terminal s \<longrightarrow> set (replied_ids s @ pending_ids s) = set (cs_admitted s))"
  using served_inv [OF assms] by (auto simp: server_inv_def replies_ok_def)

theorem one_reply_per_request_witness:
  "distinct (replied_ids example_driven @ pending_ids example_driven) \<and>
   set (replied_ids example_driven @ pending_ids example_driven) \<subseteq> set (cs_admitted example_driven)"
  using one_reply_per_request [OF example_facts] by blast

text \<open>C36: whatever the service has sent or queued for the supervisor reads back as well-typed installations for its
  own Wi-Fi generation, with strictly increasing Ethernet generations up to the current one.\<close>
theorem supervisor_stream_typed:
  assumes "kernel_ok k" "runtime_ok rt" "length g = 16" "serves rt k g s"
  shows "\<exists>ms. map lifecycle_decode (cs_supervisor_sent s @ map ob_bytes (cs_supervisor_outbound s)) = map Ok ms \<and>
    list_all (\<lambda>m. lifecycle_typed m \<and> lm_kind m = Install \<and> lm_wifi_generation m = g \<and>
      lm_ethernet_generation m \<le> cs_ethernet_generation s) ms \<and>
    sorted_wrt (<) (map lm_ethernet_generation ms)"
proof -
  obtain ms where m: "map lifecycle_encode ms = cs_supervisor_sent s @ map ob_bytes (cs_supervisor_outbound s)"
      "list_all (\<lambda>m. lifecycle_typed m \<and> lm_kind m = Install \<and> lm_wifi_generation m = g
         \<and> unat (lm_ethernet_generation m) \<le> unat (cs_ethernet_generation s)) ms" "sorted_wrt (<) (map lm_ethernet_generation ms)"
    using served_inv [OF assms] by (auto simp: server_inv_def installs_ok_def installs_def)
  have "map lifecycle_decode (map lifecycle_encode ms) = map Ok ms"
    using m(2) by (auto simp: list_all_iff lifecycle_decode_iff)
  then show ?thesis using m by (auto simp: word_le_nat_alt list_all_iff)
qed

theorem supervisor_stream_typed_witness:
  "length (cs_supervisor_sent example_driven) = 1 \<and>
   (\<exists>ms. map lifecycle_decode (cs_supervisor_sent example_driven @ map ob_bytes (cs_supervisor_outbound example_driven)) = map Ok ms)"
proof
  show "length (cs_supervisor_sent example_driven) = 1" by code_simp
qed (use supervisor_stream_typed [OF example_facts] in blast)

section \<open>The end of the loop\<close>

text \<open>A kernel that stays before an instant, takes every packet and reports the end of the policy process.\<close>

definition hung_up :: "nat \<Rightarrow> 'w kernel \<Rightarrow> bool" where
  "hung_up t k \<longleftrightarrow>
     (\<forall>w. fst (k_now k w) < t) \<and> (\<forall>w. \<exists>trunc ctrunc. fst (k_recvmsg k w) = RecvMsg [] trunc ctrunc) \<and>
     (\<forall>bs fd w. fst (k_send_policy k bs fd w) = SendCount (length bs)) \<and>
     (\<forall>bs fd w. fst (k_send_supervisor k bs fd w) = SendCount (length bs))"

lemma flush_policy_drains:
  assumes "hung_up t k" "cs_outbound_bytes s = queue_bytes (cs_outbound s)"
  shows "\<exists>p w. flush_policy k progressed s = (Ok p, s\<lparr>cs_kernel := w, cs_outbound := [], cs_outbound_bytes := 0,
    cs_sent := cs_sent s @ map ob_bytes (cs_outbound s)\<rparr>)"
  using assms(2)
proof (induction "cs_outbound s" arbitrary: s progressed)
  case Nil
  then show ?case by (auto simp: flush_policy.simps [of k progressed s] queue_bytes_def intro!: exI [of _ "cs_kernel s"])
next
  case (Cons p ps)
  obtain w where "k_send_policy k (ob_bytes p) (ob_fd p) (cs_kernel s) = (SendCount (length (ob_bytes p)), w)"
    using assms(1) unfolding hung_up_def by (metis prod.collapse)
  then show ?case
    using Cons(1) [of "s\<lparr>cs_kernel := w, cs_outbound := ps, cs_outbound_bytes := cs_outbound_bytes s - length (ob_bytes p),
        cs_sent := cs_sent s @ [ob_bytes p]\<rparr>" True] Cons(2) [symmetric] Cons(3)
    by (auto simp: flush_policy.simps [of k progressed s] try_send_policy_def send_result_def queue_bytes_def)
qed

lemma flush_supervisor_drains:
  assumes "hung_up t k" "cs_supervisor_outbound_bytes s = queue_bytes (cs_supervisor_outbound s)"
  shows "\<exists>p w. flush_supervisor k progressed s = (Ok p, s\<lparr>cs_kernel := w, cs_supervisor_outbound := [],
    cs_supervisor_outbound_bytes := 0, cs_supervisor_sent := cs_supervisor_sent s @ map ob_bytes (cs_supervisor_outbound s)\<rparr>)"
  using assms(2)
proof (induction "cs_supervisor_outbound s" arbitrary: s progressed)
  case Nil
  then show ?case by (auto simp: flush_supervisor.simps [of k progressed s] queue_bytes_def intro!: exI [of _ "cs_kernel s"])
next
  case (Cons p ps)
  obtain w where "k_send_supervisor k (ob_bytes p) (ob_fd p) (cs_kernel s) = (SendCount (length (ob_bytes p)), w)"
    using assms(1) unfolding hung_up_def by (metis prod.collapse)
  then show ?case
    using Cons(1) [of "s\<lparr>cs_kernel := w, cs_supervisor_outbound := ps,
        cs_supervisor_outbound_bytes := cs_supervisor_outbound_bytes s - length (ob_bytes p),
        cs_supervisor_sent := cs_supervisor_sent s @ [ob_bytes p]\<rparr>" True] Cons(2) [symmetric] Cons(3)
    by (auto simp: flush_supervisor.simps [of k progressed s] try_send_supervisor_def send_result_def queue_bytes_def)
qed

lemma any_due_none:
  assumes "hung_up t k" "list_all (\<lambda>p. t \<le> ob_drain_deadline p) ps"
  shows "\<exists>w. any_due k ps s = (Ok False, s\<lparr>cs_kernel := w\<rparr>)"
  using assms(2)
proof (induction ps arbitrary: s)
  case Nil
  show ?case by (auto intro: exI [of _ "cs_kernel s"])
next
  case (Cons p ps)
  obtain n w where n: "k_now k (cs_kernel s) = (n, w)" by fastforce
  then have "n < t" using assms(1) unfolding hung_up_def by (metis fst_conv)
  then show ?case using Cons(1) [of "s\<lparr>cs_kernel := w\<rparr>"] Cons(2) n by (auto simp: now_def st_defs)
qed

text \<open>The state after a flush that sent everything.\<close>

definition drained :: "'w \<Rightarrow> ('r, 'w) control_server \<Rightarrow> ('r, 'w) control_server" where
  "drained w s = s\<lparr>cs_kernel := w, cs_outbound := [], cs_outbound_bytes := 0,
    cs_sent := cs_sent s @ map ob_bytes (cs_outbound s), cs_supervisor_outbound := [], cs_supervisor_outbound_bytes := 0,
    cs_supervisor_sent := cs_supervisor_sent s @ map ob_bytes (cs_supervisor_outbound s)\<rparr>"

lemma drained_simps [simp]:
  "cs_kernel (drained w s) = w" "cs_outbound (drained w s) = []" "cs_supervisor_outbound (drained w s) = []"
  "cs_sent (drained w s) = cs_sent s @ map ob_bytes (cs_outbound s)" "cs_terminal (drained w s) = cs_terminal s"
  "cs_supervisor_sent (drained w s) = cs_supervisor_sent s @ map ob_bytes (cs_supervisor_outbound s)"
  "queues_ok (drained w s\<lparr>cs_kernel := x, cs_terminal := b\<rparr>)"
  "drained x (drained w s\<lparr>cs_kernel := y, cs_terminal := b\<rparr>) = drained x s\<lparr>cs_terminal := b\<rparr>"
  by (cases s, simp_all add: drained_def queues_ok_def queue_bytes_def NORMAL_PACKET_LIMIT_def)+

lemma flush_drains:
  assumes h: "hung_up t k" and q: "queues_ok s"
    and d: "list_all (\<lambda>p. t \<le> ob_drain_deadline p) (cs_outbound s @ cs_supervisor_outbound s)"
  shows "\<exists>p w. flush k s = (Ok p, drained w s)"
proof -
  have "list_all (\<lambda>p. t \<le> ob_drain_deadline p) (take 1 (cs_outbound s) @ take 1 (cs_supervisor_outbound s))"
    using d by (auto simp: list_all_iff dest: in_set_takeD)
  from any_due_none [OF h this, of s] obtain w where w: "any_due k (take 1 (cs_outbound s) @ take 1 (cs_supervisor_outbound s)) s =
      (Ok False :: (service_error, bool) res, s\<lparr>cs_kernel := w\<rparr>)" by blast
  let ?s = "s\<lparr>cs_kernel := w\<rparr>"
  obtain p w' where p: "flush_policy k False ?s = (Ok p, ?s\<lparr>cs_kernel := w', cs_outbound := [], cs_outbound_bytes := 0,
      cs_sent := cs_sent s @ map ob_bytes (cs_outbound s)\<rparr>)" (is "_ = (_, ?t)")
    using flush_policy_drains [OF h, of ?s False] q by (auto simp: queues_ok_def)
  obtain p' w'' where p': "flush_supervisor k p ?t = (Ok p', ?t\<lparr>cs_kernel := w'', cs_supervisor_outbound := [],
      cs_supervisor_outbound_bytes := 0, cs_supervisor_sent := cs_supervisor_sent s @ map ob_bytes (cs_supervisor_outbound s)\<rparr>)"
      (is "_ = (_, ?u)")
    using flush_supervisor_drains [OF h, of ?t p] q by (auto simp: queues_ok_def)
  have "flush k s = (Ok p', ?u)" using w p p' by (simp add: flush_def st_defs del: One_nat_def)
  moreover have "?u = drained w'' s" by (cases s) (simp add: drained_def)
  ultimately show ?thesis by metis
qed



end
