(* ===== verification/Dns_Wire.thy ===== *)
theory Dns_Wire
  imports Drv_Prelude
begin

text \<open>
  The local resolver protocol (\<open>crates/net/dns-wire/src/lib.rs\<close>): a request of 264 bytes with a name and a response
  of 1096 bytes with a status and up to 64 addresses. A \<open>str\<close> is its bytes. Where the code returns \<open>None\<close> the model
  has \<open>Err ()\<close>, and an index out of range is a panic.
\<close>

section \<open>Messages\<close>

definition REQUEST_LEN :: nat where "REQUEST_LEN = 264"
definition MAX_ADDRESSES :: nat where "MAX_ADDRESSES = 64"
definition RESPONSE_LEN :: nat where "RESPONSE_LEN = 8 + MAX_ADDRESSES * 17"
definition OK :: u8 where "OK = 0"
definition NOT_FOUND :: u8 where "NOT_FOUND = 1"
definition TEMPORARY :: u8 where "TEMPORARY = 2"
definition UNAVAILABLE :: u8 where "UNAVAILABLE = 3"

abbreviation DRD1 :: bytes where "DRD1 \<equiv> [0x44, 0x52, 0x44, 0x31]"

datatype ip_addr = V4 (octets: bytes) | V6 (octets: bytes)

fun ip_typed :: "ip_addr \<Rightarrow> bool" where
  "ip_typed (V4 o4) \<longleftrightarrow> length o4 = 4"
| "ip_typed (V6 o6) \<longleftrightarrow> length o6 = 16"

text \<open>\<open>chunks_exact\<close>: the full chunks from the front.\<close>

fun chunks_exact :: "nat \<Rightarrow> 'a list \<Rightarrow> 'a list list" where
  "chunks_exact n xs = (if n = 0 \<or> length xs < n then [] else take n xs # chunks_exact n (drop n xs))"

declare chunks_exact.simps [simp del]

section \<open>Requests\<close>

definition dns_request :: "bytes \<Rightarrow> (unit, bytes) res" where
  "dns_request name =
     (if name = [] \<or> length name > 254 \<or> 0 \<in> set name then Err ()
      else let out = replicate REQUEST_LEN 0;
               out = overwrite 0 DRD1 out;
               out = overwrite 4 (le_bytes 2 (of_nat (length name) :: u16)) out
           in Ok (overwrite 8 name out))"

definition dns_name :: "bytes \<Rightarrow> (unit, bytes) res" where
  "dns_name input =
     and_then (slice 4 6 input) (\<lambda>b.
     let len = unat (from_le b :: u16) in
     and_then (slice 0 4 input) (\<lambda>magic.
     if magic \<noteq> DRD1 \<or> len = 0 \<or> len > 254 then Err ()
     else and_then (slice 6 8 input) (\<lambda>reserved.
       if reserved \<noteq> [0, 0] then Err ()
       else and_then (slice (8 + len) (length input) input) (\<lambda>rest.
         if list_ex (\<lambda>b. b \<noteq> 0) rest then Err ()
         else and_then (slice 8 (8 + len) input) (\<lambda>name.
           if \<not> utf8_valid name then Err ()
           else if 0 \<in> set name then Err ()
           else Ok name)))))"

section \<open>Responses\<close>

definition write_slot :: "ip_addr \<Rightarrow> bytes \<Rightarrow> bytes" where
  "write_slot ip slot =
     (case ip of V4 o4 \<Rightarrow> overwrite 1 o4 (slot[0 := 4]) | V6 o6 \<Rightarrow> overwrite 1 o6 (slot[0 := 6]))"

fun write_slots :: "ip_addr list \<Rightarrow> bytes list \<Rightarrow> bytes list" where
  "write_slots (ip # ips) (slot # slots) = write_slot ip slot # write_slots ips slots"
| "write_slots _ slots = slots"

definition dns_response :: "u8 \<Rightarrow> ip_addr list \<Rightarrow> bytes" where
  "dns_response status addresses =
     (let out = replicate RESPONSE_LEN 0;
          out = overwrite 0 DRD1 out;
          out = out[4 := status]
      in if status \<noteq> OK then out
         else let out = out[5 := of_nat (min (length addresses) MAX_ADDRESSES)]
              in take 8 out @ concat (write_slots addresses (chunks_exact 17 (drop 8 out))))"

definition read_slot :: "bytes \<Rightarrow> (unit, ip_addr) res" where
  "read_slot slot =
     and_then (index slot 0) (\<lambda>tag.
     and_then (slice 5 (length slot) slot) (\<lambda>rest.
     if tag = 4 \<and> list_all (\<lambda>b. b = 0) rest then and_then (slice 1 5 slot) (\<lambda>o4. Ok (V4 o4))
     else if tag = 6 then and_then (slice 1 (length slot) slot) (\<lambda>o6. if length o6 = 16 then Ok (V6 o6) else Err ())
     else Err ()))"

fun read_slots :: "bytes list \<Rightarrow> (unit, ip_addr list) res" where
  "read_slots [] = Ok []"
| "read_slots (slot # slots) = and_then (read_slot slot) (\<lambda>ip. and_then (read_slots slots) (\<lambda>ips. Ok (ip # ips)))"

definition dns_addresses :: "bytes \<Rightarrow> (unit, u8 + ip_addr list) res" where
  "dns_addresses input =
     and_then (index input 5) (\<lambda>c. let count = unat c in
     and_then (slice 0 4 input) (\<lambda>magic. and_then (index input 4) (\<lambda>status.
     if magic \<noteq> DRD1 \<or> status > UNAVAILABLE \<or> count > MAX_ADDRESSES then Err ()
     else and_then (slice 6 8 input) (\<lambda>reserved.
       if reserved \<noteq> [0, 0] then Err ()
       else and_then (slice (8 + count * 17) (length input) input) (\<lambda>rest.
         if list_ex (\<lambda>b. b \<noteq> 0) rest then Err ()
         else if status \<noteq> OK then (if count = 0 then Ok (Inl status) else Err ())
         else and_then (slice 8 (8 + count * 17) input) (\<lambda>body.
           and_then (read_slots (chunks_exact 17 body)) (\<lambda>ips. Ok (Inr ips))))))))"

section \<open>Layout\<close>

lemma all_zero: "\<not> list_ex (\<lambda>b. b \<noteq> (0::u8)) xs \<longleftrightarrow> xs = replicate (length xs) 0"
  by (auto simp: list_ex_iff intro: replicate_eqI) (metis in_set_replicate)

lemma no_byte_zero [simp]: "\<not> list_ex (\<lambda>b. b \<noteq> (0::u8)) (replicate n 0)"
  by (simp add: list_ex_iff)

lemma overwrite_mid: "length xs = lo \<Longrightarrow> length ys = length zs \<Longrightarrow> overwrite lo zs (xs @ ys @ ws) = xs @ zs @ ws"
  by (simp add: overwrite_def)

lemma request_layout:
  assumes "0 < length n" "length n \<le> 254" "0 \<notin> set n"
  shows "dns_request n = Ok (DRD1 @ le_bytes 2 (of_nat (length n) :: u16) @ [0, 0] @ n @ replicate (256 - length n) 0)"
proof -
  let ?l = "le_bytes 2 (of_nat (length n) :: u16)" and ?z = "replicate (256 - length n) (0::u8)"
  have "replicate REQUEST_LEN (0::u8) = replicate 264 0" by (simp add: REQUEST_LEN_def)
  also have "\<dots> = [] @ [0, 0, 0, 0] @ [0, 0] @ [0, 0] @ replicate (length n) 0 @ ?z"
    using assms(2) by (simp add: replicate_add [symmetric] flip: replicate_Suc)
  also have "overwrite 0 DRD1 \<dots> = DRD1 @ [0, 0] @ [0, 0] @ replicate (length n) 0 @ ?z"
    by (subst overwrite_mid) simp_all
  also have "overwrite 4 ?l \<dots> = (DRD1 @ ?l @ [0, 0]) @ replicate (length n) 0 @ ?z"
    by (subst overwrite_mid) (simp_all del: append.simps)
  also have "overwrite 8 n \<dots> = (DRD1 @ ?l @ [0, 0]) @ n @ ?z"
    by (subst overwrite_mid) simp_all
  finally show ?thesis using assms by (simp add: dns_request_def Let_def not_less)
qed

lemma split_request:
  assumes "length bs = 264" "k \<le> 256"
  shows "bs = take 4 bs @ take 2 (drop 4 bs) @ take 2 (drop 6 bs) @ take k (drop 8 bs) @ drop (8 + k) bs"
proof -
  have "drop i bs = take n (drop i bs) @ drop (i + n) bs" for i n
    by (metis append_take_drop_id drop_drop add.commute)
  from this [of 0 4] this [of 4 2] this [of 6 2] this [of 8 k] show ?thesis by simp
qed

lemma dns_name_iff:
  assumes "length bs = REQUEST_LEN"
  shows "dns_name bs = Ok n \<longleftrightarrow> utf8_valid n \<and> dns_request n = Ok bs"
proof
  have l: "length bs = 264" using assms by (simp add: REQUEST_LEN_def)
  assume d: "dns_name bs = Ok n"
  let ?k = "unat (from_le (take 2 (drop 4 bs)) :: u16)"
  have f: "take 4 bs = DRD1" "0 < ?k" "?k \<le> 254" "take 2 (drop 6 bs) = [0, 0]"
      "drop (8 + ?k) bs = replicate (256 - ?k) 0" "n = take ?k (drop 8 bs)" "utf8_valid n" "0 \<notin> set n"
    using d l by (auto simp: dns_name_def Let_def all_zero split: if_splits)
  have "length n = ?k" using f(3,6) l by simp
  moreover have "take 2 (drop 4 bs) = le_bytes 2 (of_nat ?k :: u16)"
    using le_bytes_from_le [of "take 2 (drop 4 bs)", where 'w = 16] l by simp
  ultimately show "utf8_valid n \<and> dns_request n = Ok bs"
    using request_layout [of n] split_request [OF l, of ?k] f by auto
next
  assume "utf8_valid n \<and> dns_request n = Ok bs"
  then have n: "utf8_valid n" "0 < length n" "length n \<le> 254" "0 \<notin> set n" "dns_request n = Ok bs"
    by (auto simp: dns_request_def split: if_splits)
  have b: "bs = DRD1 @ le_bytes 2 (of_nat (length n) :: u16) @ [0, 0] @ n @ replicate (256 - length n) 0"
    using request_layout [OF n(2,3,4)] n(5) by simp
  have u: "unat (of_nat (length n) :: u16) = length n" using n(3) by (simp add: unat_of_nat)
  have "take 4 bs = DRD1" "take 2 (drop 4 bs) = le_bytes 2 (of_nat (length n) :: u16)" "take 2 (drop 6 bs) = [0, 0]"
      "take (length n) (drop 8 bs) = n" "drop (8 + length n) bs = replicate (256 - length n) 0" "length bs = 264"
    using n(3) unfolding b by (simp_all add: numeral_eq_Suc)
  then show "dns_name bs = Ok n"
    using n u by (auto simp: dns_name_def Let_def from_le_le_bytes list_ex_iff)
qed

section \<open>Slots\<close>

lemma chunks_exact_concat: "0 < n \<Longrightarrow> list_all (\<lambda>xs. length xs = n) xss \<Longrightarrow> chunks_exact n (concat xss) = xss"
  by (induction xss) (simp_all add: chunks_exact.simps)

lemma concat_chunks_exact:
  assumes "length xs = n * m" "0 < n"
  shows "concat (chunks_exact n xs) = xs \<and> list_all (\<lambda>ys. length ys = n) (chunks_exact n xs) \<and> length (chunks_exact n xs) = m"
  using assms
proof (induction m arbitrary: xs)
  case (Suc m)
  then show ?case using Suc.IH [of "drop n xs"] by (simp add: chunks_exact.simps [of n xs])
qed (simp add: chunks_exact.simps)

definition ip_slot :: "ip_addr \<Rightarrow> bytes" where
  "ip_slot ip = write_slot ip (replicate 17 0)"

lemma slot_bytes:
  "length o4 = 4 \<Longrightarrow> ip_slot (V4 o4) = 4 # o4 @ replicate 12 0" "length o6 = 16 \<Longrightarrow> ip_slot (V6 o6) = 6 # o6"
  by (simp_all add: ip_slot_def write_slot_def overwrite_def numeral_eq_Suc)

lemma length_slot [simp]: "ip_typed ip \<Longrightarrow> length (ip_slot ip) = 17"
  by (cases ip) (simp_all add: slot_bytes)

lemma write_slots_zero:
  "write_slots ips (replicate m (replicate 17 0)) = map ip_slot (take m ips) @ replicate (m - length ips) (replicate 17 0)"
proof (induction ips arbitrary: m)
  case (Cons ip ips)
  then show ?case by (cases m) (simp_all add: ip_slot_def)
qed simp

lemma zero_bytes: "list_all (\<lambda>b. b = (0::u8)) xs \<longleftrightarrow> xs = replicate (length xs) 0"
  by (auto simp: list_all_iff intro: replicate_eqI) (metis in_set_replicate)

lemma read_slot_bytes:
  assumes "length r = 16"
  shows "read_slot (t # r) =
    (if t = 4 \<and> drop 4 r = replicate 12 0 then Ok (V4 (take 4 r)) else if t = 6 then Ok (V6 r) else Err ())"
proof -
  have "list_all (\<lambda>b. b = 0) (drop 4 r) \<longleftrightarrow> drop 4 r = replicate 12 0"
    using zero_bytes [of "drop 4 r"] assms by simp
  moreover have "drop 5 (t # r) = drop 4 r" "take 5 (t # r) = t # take 4 r" by (simp_all add: eval_nat_numeral)
  ultimately show ?thesis using assms by (simp add: read_slot_def index_def slice_def take_drop)
qed

lemma slot_V4: "length o4 = 4 \<Longrightarrow> length r = 16 \<Longrightarrow> ip_slot (V4 o4) = t # r \<longleftrightarrow> t = 4 \<and> o4 = take 4 r \<and> drop 4 r = replicate 12 0"
  by (auto simp: slot_bytes append_eq_conv_conj)

lemma read_slot_iff:
  assumes "length s = 17"
  shows "read_slot s = Ok ip \<longleftrightarrow> ip_typed ip \<and> ip_slot ip = s"
proof -
  obtain t r where s: "s = t # r" "length r = 16" using assms by (cases s) auto
  show ?thesis
  proof (cases ip)
    case (V4 o4)
    then show ?thesis using slot_V4 [of o4 r t] s by (auto simp: read_slot_bytes)
  next
    case (V6 o6)
    then show ?thesis using s by (auto simp: read_slot_bytes slot_bytes)
  qed
qed

lemma read_slots_iff:
  assumes "list_all (\<lambda>s. length s = 17) ss"
  shows "read_slots ss = Ok ips \<longleftrightarrow> list_all ip_typed ips \<and> map ip_slot ips = ss"
  using assms
proof (induction ss arbitrary: ips)
  case (Cons s ss)
  then show ?case by (cases ips) (auto simp: and_then_eq_Ok read_slot_iff)
qed auto

lemma concat_zero: "concat (replicate m (replicate n (x::'a))) = replicate (m * n) x"
  by (induction m) (simp_all add: replicate_add)

lemma header_bytes_8:
  "(a # b # c # d # e # f # zs)[4 := x] = a # b # c # d # x # f # zs"
  "(a # b # c # d # e # f # zs)[5 := x] = a # b # c # d # e # x # zs"
  "take 8 (a # b # c # d # e # f # g # h # zs) = [a, b, c, d, e, f, g, h]"
  "drop 8 (a # b # c # d # e # f # g # h # zs) = zs"
  by (simp_all add: eval_nat_numeral)

lemma response_layout:
  shows "dns_response OK ips = DRD1 @ [0, of_nat (min (length ips) 64), 0, 0] @
    concat (map ip_slot (take 64 ips)) @ replicate ((64 - length ips) * 17) 0"
    "e \<noteq> OK \<Longrightarrow> dns_response e ips = DRD1 @ [e, 0, 0, 0] @ replicate 1088 0"
proof -
  have four: "replicate 4 (0::u8) = [0, 0, 0, 0]" by (simp add: eval_nat_numeral)
  have "replicate RESPONSE_LEN (0::u8) = [] @ [0, 0, 0, 0] @ [0, 0, 0, 0] @ replicate 1088 0"
    using replicate_add [of 4 "4 + 1088" "0::u8"] replicate_add [of 4 1088 "0::u8"] four
    by (simp add: RESPONSE_LEN_def MAX_ADDRESSES_def)
  then have z: "overwrite 0 DRD1 (replicate RESPONSE_LEN 0) = DRD1 @ [0, 0, 0, 0] @ replicate 1088 0"
    by (simp only:) (subst overwrite_mid, simp_all)
  have c: "chunks_exact 17 (replicate 1088 (0::u8)) = replicate 64 (replicate 17 0)"
    using chunks_exact_concat [of 17 "replicate 64 (replicate 17 (0::u8))"] by (simp add: concat_zero list_all_iff)
  show "dns_response OK ips = DRD1 @ [0, of_nat (min (length ips) 64), 0, 0] @
      concat (map ip_slot (take 64 ips)) @ replicate ((64 - length ips) * 17) 0"
    unfolding dns_response_def Let_def z
    by (simp add: OK_def header_bytes_8 c write_slots_zero concat_zero MAX_ADDRESSES_def)
  show "dns_response e ips = DRD1 @ [e, 0, 0, 0] @ replicate 1088 0" if "e \<noteq> OK"
    using that unfolding dns_response_def Let_def z by (simp add: header_bytes_8)
qed

lemma split_response:
  assumes "length bs = 1096" "k \<le> 1088"
  shows "bs = take 4 bs @ [bs ! 4, bs ! 5] @ take 2 (drop 6 bs) @ take k (drop 8 bs) @ drop (8 + k) bs"
proof -
  have "drop i bs = take n (drop i bs) @ drop (i + n) bs" for i n
    by (metis append_take_drop_id drop_drop add.commute)
  note d = this [of 0 4] this [of 6 2] this [of 8 k]
  have "drop 4 bs = bs ! 4 # bs ! 5 # drop 6 bs"
    using assms(1) Cons_nth_drop_Suc [of 4 bs] Cons_nth_drop_Suc [of 5 bs] by simp
  with d show ?thesis by simp
qed

lemma dns_addresses_cases:
  assumes "length bs = RESPONSE_LEN"
  shows "dns_addresses bs = Ok x \<longleftrightarrow>
    take 4 bs = DRD1 \<and> bs ! 4 \<le> UNAVAILABLE \<and> unat (bs ! 5) \<le> 64 \<and> take 2 (drop 6 bs) = [0, 0] \<and>
    drop (8 + unat (bs ! 5) * 17) bs = replicate (1088 - unat (bs ! 5) * 17) 0 \<and>
    (if bs ! 4 \<noteq> OK then unat (bs ! 5) = 0 \<and> x = Inl (bs ! 4)
     else (\<exists>ips. x = Inr ips \<and> list_all ip_typed ips \<and> length ips = unat (bs ! 5) \<and>
       concat (map ip_slot ips) = take (unat (bs ! 5) * 17) (drop 8 bs)))"
proof -
  let ?n = "unat (bs ! 5)"
  have l: "length bs = 1096" using assms by (simp add: RESPONSE_LEN_def MAX_ADDRESSES_def)
  have "read_slots (chunks_exact 17 (take (?n * 17) (drop 8 bs))) = Ok ips \<longleftrightarrow>
      list_all ip_typed ips \<and> length ips = ?n \<and> concat (map ip_slot ips) = take (?n * 17) (drop 8 bs)"
    if "?n \<le> 64" for ips
  proof -
    let ?b = "take (?n * 17) (drop 8 bs)"
    have "length ?b = 17 * ?n" using that l by simp
    from concat_chunks_exact [OF this] have c: "concat (chunks_exact 17 ?b) = ?b"
        "list_all (\<lambda>ys. length ys = 17) (chunks_exact 17 ?b)" "length (chunks_exact 17 ?b) = ?n" by simp_all
    have "chunks_exact 17 (concat (map ip_slot ips)) = map ip_slot ips" if "list_all ip_typed ips"
      using that by (intro chunks_exact_concat) (auto simp: list_all_iff)
    then show ?thesis using read_slots_iff [OF c(2), of ips] c by (metis length_map)
  qed
  then show ?thesis
    using l by (auto simp: dns_addresses_def index_def Let_def and_then_eq_Ok all_zero MAX_ADDRESSES_def not_le not_less split: if_splits)
qed

lemma length_slots: "list_all ip_typed ips \<Longrightarrow> length (concat (map ip_slot ips)) = length ips * 17"
  by (induction ips) simp_all

lemma dns_addresses_Inr:
  assumes "length bs = RESPONSE_LEN"
  shows "dns_addresses bs = Ok (Inr ips) \<longleftrightarrow> list_all ip_typed ips \<and> length ips \<le> 64 \<and> dns_response OK ips = bs"
proof
  have l: "length bs = 1096" using assms by (simp add: RESPONSE_LEN_def MAX_ADDRESSES_def)
  let ?n = "unat (bs ! 5)"
  assume "dns_addresses bs = Ok (Inr ips)"
  then have f: "take 4 bs = DRD1" "bs ! 4 = OK" "?n \<le> 64" "take 2 (drop 6 bs) = [0, 0]"
      "drop (8 + ?n * 17) bs = replicate (1088 - ?n * 17) 0" "list_all ip_typed ips" "length ips = ?n"
      "concat (map ip_slot ips) = take (?n * 17) (drop 8 bs)"
    by (auto simp: dns_addresses_cases [OF assms] split: if_splits)
  have "bs ! 5 = of_nat (length ips)" using f(7) by simp
  moreover have "(64 - ?n) * 17 = 1088 - ?n * 17" by simp
  ultimately have "dns_response OK ips =
      take 4 bs @ [bs ! 4, bs ! 5] @ take 2 (drop 6 bs) @ take (?n * 17) (drop 8 bs) @ drop (8 + ?n * 17) bs"
    unfolding response_layout(1) using f by (simp add: OK_def)
  also have "\<dots> = bs" using f(3) by (intro split_response [OF l, symmetric]) simp
  finally show "list_all ip_typed ips \<and> length ips \<le> 64 \<and> dns_response OK ips = bs" using f by simp
next
  assume a: "list_all ip_typed ips \<and> length ips \<le> 64 \<and> dns_response OK ips = bs"
  let ?z = "replicate ((64 - length ips) * 17) (0::u8)"
  have b: "bs = DRD1 @ [0, of_nat (length ips), 0, 0] @ concat (map ip_slot ips) @ ?z"
    using a response_layout(1) [of ips] by auto
  have n: "unat (of_nat (length ips) :: u8) = length ips" using a by (simp add: unat_of_nat)
  have "take 4 bs = DRD1" "bs ! 4 = 0" "bs ! 5 = of_nat (length ips)" "take 2 (drop 6 bs) = [0, 0]"
      "drop 8 bs = concat (map ip_slot ips) @ ?z"
    unfolding b by (simp_all add: eval_nat_numeral)
  moreover from this(5) have "drop (8 + length ips * 17) bs = ?z" "take (length ips * 17) (drop 8 bs) = concat (map ip_slot ips)"
    using length_slots [of ips] a drop_drop [of "length ips * 17" 8 bs] by (simp_all add: add.commute)
  moreover have "(64 - length ips) * 17 = 1088 - length ips * 17" by simp
  ultimately show "dns_addresses bs = Ok (Inr ips)"
    using a n by (simp add: dns_addresses_cases [OF assms] OK_def)
qed

lemma dns_addresses_Inl:
  assumes "length bs = RESPONSE_LEN"
  shows "dns_addresses bs = Ok (Inl e) \<longleftrightarrow> OK < e \<and> e \<le> UNAVAILABLE \<and> dns_response e [] = bs"
proof
  have l: "length bs = 1096" using assms by (simp add: RESPONSE_LEN_def MAX_ADDRESSES_def)
  assume "dns_addresses bs = Ok (Inl e)"
  then have f: "take 4 bs = DRD1" "bs ! 4 = e" "e \<noteq> OK" "e \<le> UNAVAILABLE" "take 2 (drop 6 bs) = [0, 0]" "bs ! 5 = 0"
      "drop 8 bs = replicate 1088 0"
    by (auto simp: dns_addresses_cases [OF assms] unat_eq_0 split: if_splits)
  then show "OK < e \<and> e \<le> UNAVAILABLE \<and> dns_response e [] = bs"
    using split_response [OF l, of 0] response_layout(2) [of e "[]"] by (auto simp: OK_def word_neq_0_conv)
next
  assume a: "OK < e \<and> e \<le> UNAVAILABLE \<and> dns_response e [] = bs"
  then have b: "bs = DRD1 @ [e, 0, 0, 0] @ replicate 1088 0" using response_layout(2) [of e "[]"] by auto
  have "take 4 bs = DRD1" "bs ! 4 = e" "bs ! 5 = 0" "take 2 (drop 6 bs) = [0, 0]" "drop 8 bs = replicate 1088 0"
    unfolding b by (simp_all add: eval_nat_numeral del: replicate.simps replicate_Suc)
  then show "dns_addresses bs = Ok (Inl e)"
    using a by (auto simp: dns_addresses_cases [OF assms])
qed

lemma read_slots_safe: "list_all (\<lambda>s. length s = 17) ss \<Longrightarrow> read_slots ss \<noteq> Panic"
proof (induction ss)
  case (Cons s ss)
  then obtain t r where "s = t # r" "length r = 16" by (cases s) auto
  then show ?case using Cons by (auto simp: and_then_eq_Panic read_slot_bytes)
qed simp

lemma dns_addresses_safe: "length bs = RESPONSE_LEN \<Longrightarrow> safe (dns_addresses bs)"
proof -
  assume "length bs = RESPONSE_LEN"
  then have l: "length bs = 1096" by (simp add: RESPONSE_LEN_def MAX_ADDRESSES_def)
  have "read_slots (chunks_exact 17 (take (n * 17) (drop 8 bs))) \<noteq> Panic" if "n \<le> 64" for n
    using concat_chunks_exact [of "take (n * 17) (drop 8 bs)" 17 n] that l by (intro read_slots_safe) simp
  then show ?thesis
    using l by (auto simp: safe_def dns_addresses_def index_def slice_def Let_def and_then_eq_Panic MAX_ADDRESSES_def split: if_splits)
qed

lemma dns_name_safe: "length bs = REQUEST_LEN \<Longrightarrow> safe (dns_name bs)"
  by (auto simp: safe_def dns_name_def slice_def REQUEST_LEN_def Let_def and_then_eq_Panic split: if_splits)

text \<open>The two codecs, on arrays of their fixed lengths.\<close>

interpretation resolver_request: wire_codec dns_request "\<lambda>bs. if length bs = REQUEST_LEN then dns_name bs else Err ()" utf8_valid
proof unfold_locales
  fix m bs
  assume "utf8_valid m" and r: "dns_request m = Ok bs"
  moreover have "length bs = REQUEST_LEN" using r by (auto simp: dns_request_def REQUEST_LEN_def Let_def split: if_splits)
  ultimately show "(if length bs = REQUEST_LEN then dns_name bs else Err ()) = Ok m" by (simp add: dns_name_iff)
qed (auto simp: dns_name_iff split: if_splits)

definition response_encode :: "u8 + ip_addr list \<Rightarrow> (unit, bytes) res" where
  "response_encode r = (case r of Inl e \<Rightarrow> Ok (dns_response e []) | Inr ips \<Rightarrow> Ok (dns_response OK ips))"

definition response_ok :: "u8 + ip_addr list \<Rightarrow> bool" where
  "response_ok r = (case r of Inl e \<Rightarrow> OK < e \<and> e \<le> UNAVAILABLE | Inr ips \<Rightarrow> list_all ip_typed ips \<and> length ips \<le> MAX_ADDRESSES)"

lemma length_dns_response: "response_ok r \<Longrightarrow> response_encode r = Ok bs \<Longrightarrow> length bs = RESPONSE_LEN"
  by (auto simp: response_ok_def response_encode_def response_layout length_slots RESPONSE_LEN_def MAX_ADDRESSES_def OK_def
      split: sum.splits) (simp add: response_layout [unfolded OK_def] length_slots)

interpretation resolver_response:
  wire_codec response_encode "\<lambda>bs. if length bs = RESPONSE_LEN then dns_addresses bs else Err ()" response_ok
proof unfold_locales
  fix r bs
  assume a: "response_ok r" "response_encode r = Ok bs"
  then show "(if length bs = RESPONSE_LEN then dns_addresses bs else Err ()) = Ok r"
    using length_dns_response [OF a]
    by (auto simp: response_ok_def response_encode_def dns_addresses_Inl dns_addresses_Inr MAX_ADDRESSES_def split: sum.splits)
next
  fix r bs
  assume "(if length bs = RESPONSE_LEN then dns_addresses bs else Err ()) = Ok r"
  then show "response_ok r \<and> response_encode r = Ok bs"
    by (cases r) (auto simp: response_ok_def response_encode_def dns_addresses_Inl dns_addresses_Inr MAX_ADDRESSES_def split: if_splits)
qed

text \<open>C38: the resolver protocol is canonical. On arrays of the fixed lengths neither decoder panics; the service reads a
  name from a request exactly if the request is the encoding of that name; the client reads addresses or a failure status
  from a response exactly if the response is the encoding of at most 64 addresses or of that status.\<close>
theorem resolver_wire_canonical:
  assumes "length q = REQUEST_LEN" "length r = RESPONSE_LEN"
  shows "safe (dns_name q) \<and> (dns_name q = Ok n \<longleftrightarrow> utf8_valid n \<and> dns_request n = Ok q) \<and>
    safe (dns_addresses r) \<and>
    (dns_addresses r = Ok (Inr ips) \<longleftrightarrow> list_all ip_typed ips \<and> length ips \<le> MAX_ADDRESSES \<and> dns_response OK ips = r) \<and>
    (dns_addresses r = Ok (Inl e) \<longleftrightarrow> OK < e \<and> e \<le> UNAVAILABLE \<and> dns_response e [] = r)"
  using assms dns_name_safe dns_addresses_safe resolver_request.dec_iff [of q n]
    resolver_response.dec_iff [of r "Inr ips"] resolver_response.dec_iff [of r "Inl e"]
  by (auto simp: response_encode_def response_ok_def)

theorem resolver_wire_canonical_witness:
  "dns_addresses (dns_response OK [V4 [192, 0, 2, 1], V6 (replicate 16 1)]) = Ok (Inr [V4 [192, 0, 2, 1], V6 (replicate 16 1)]) \<and>
   (\<exists>q. dns_request [0x61, 0x2e] = Ok q \<and> dns_name q = Ok [0x61, 0x2e])"
proof -
  obtain q where q: "dns_request [0x61, 0x2e] = Ok q" by (simp add: dns_request_def)
  then have l: "length q = REQUEST_LEN" by (auto simp: dns_request_def REQUEST_LEN_def Let_def)
  let ?ips = "[V4 [192, 0, 2, 1], V6 (replicate 16 1)]"
  have r: "length (dns_response OK ?ips) = RESPONSE_LEN"
    by (rule length_dns_response [of "Inr ?ips"]) (simp_all add: response_ok_def response_encode_def MAX_ADDRESSES_def)
  show ?thesis
    using resolver_wire_canonical [OF l r, of "[0x61, 0x2e]" ?ips] q by (auto simp: MAX_ADDRESSES_def)
qed

end
