(* ===== verification/Dns_Cache.thy ===== *)
theory Dns_Cache
  imports Dns_Wire
begin

text \<open>
  The message cache of the resolver service (\<open>crates/net/dns-service/src/cache.rs\<close>).

  DNS messages are those of the hickory library; a record holds the fields the service reads and
  writes. A name is a value of an arbitrary type \<open>'n\<close>, two names the library considers equal being the
  same value; a record type is its number. The functions of the library are a parameter, \<open>hickory\<close>.
  Instants and durations are in nanoseconds.
\<close>

section \<open>Messages\<close>

datatype response_code = NoError | FormErr | ServFail | NXDomain | NotImp | Refused | BADVERS | OtherRcode u16

datatype 'n rdata = RdA bytes | RdAAAA bytes | RdCNAME 'n | RdSOA u32 | RdOther u16

abbreviation TYPE_A :: u16 where "TYPE_A \<equiv> 1"
abbreviation TYPE_AAAA :: u16 where "TYPE_AAAA \<equiv> 28"
abbreviation TYPE_IXFR :: u16 where "TYPE_IXFR \<equiv> 251"
abbreviation TYPE_AXFR :: u16 where "TYPE_AXFR \<equiv> 252"

record 'n rr =
  rr_name :: 'n
  rr_ttl :: u32
  rr_data :: "'n rdata"

definition record_type :: "'n rr \<Rightarrow> u16" where
  "record_type r = (case rr_data r of RdA _ \<Rightarrow> TYPE_A | RdAAAA _ \<Rightarrow> TYPE_AAAA | RdCNAME _ \<Rightarrow> 5 | RdSOA _ \<Rightarrow> 6 | RdOther t \<Rightarrow> t)"

record 'n dns_query =
  q_name :: 'n
  q_type :: u16

record edns =
  ed_max_payload :: u16
  ed_version :: u8
  ed_dnssec_ok :: bool
  ed_options :: "(u16 \<times> bytes) list"

record 'n dns_message =
  dm_id :: u16
  dm_is_response :: bool
  dm_op_code :: u8
  dm_response_code :: response_code
  dm_truncation :: bool
  dm_authentic_data :: bool
  dm_recursion_desired :: bool
  dm_recursion_available :: bool
  dm_checking_disabled :: bool
  dm_queries :: "'n dns_query list"
  dm_answers :: "'n rr list"
  dm_authorities :: "'n rr list"
  dm_additionals :: "'n rr list"
  dm_signed :: bool
  dm_edns :: "edns option"

definition records :: "'n dns_message \<Rightarrow> 'n rr list" where
  "records m = dm_answers m @ dm_authorities m @ dm_additionals m"

record 'n hickory =
  hk_to_vec :: "'n dns_message \<Rightarrow> bytes option"
  hk_from_vec :: "bytes \<Rightarrow> 'n dns_message option"
  hk_error_msg :: "u16 \<Rightarrow> u8 \<Rightarrow> response_code \<Rightarrow> 'n dns_message"
  hk_edns_new :: edns
  hk_set_max_payload :: "u16 \<Rightarrow> edns \<Rightarrow> edns"

section \<open>The cache\<close>

definition ENTRIES :: nat where "ENTRIES = 256"
definition BYTES :: nat where "BYTES = 4 * 1024 * 1024"

record cache_entry =
  ce_key :: bytes
  ce_wire :: bytes
  ce_inserted :: nat
  ce_lifetime :: nat

record cache =
  ca_entries :: "cache_entry list"
  ca_bytes :: nat

definition cache_new :: cache where
  "cache_new = \<lparr>ca_entries = [], ca_bytes = 0\<rparr>"

abbreviation second :: nat where "second \<equiv> 1000000000"

definition cached_size :: "cache_entry \<Rightarrow> nat" where
  "cached_size e = length (ce_key e) + length (ce_wire e)"

definition eligible :: "'n dns_message \<Rightarrow> bool" where
  "eligible m \<longleftrightarrow> \<not> dm_signed m \<and> dm_additionals m = [] \<and>
     (case dm_edns m of None \<Rightarrow> True | Some e \<Rightarrow> ed_options e = [])"

definition age_record :: "u32 \<Rightarrow> 'n rr \<Rightarrow> 'n rr" where
  "age_record seconds r = r\<lparr>rr_ttl := saturating_sub_word (rr_ttl r) seconds\<rparr>"

definition age :: "u32 \<Rightarrow> 'n dns_message \<Rightarrow> 'n dns_message" where
  "age seconds m = m\<lparr>dm_answers := map (age_record seconds) (dm_answers m),
     dm_authorities := map (age_record seconds) (dm_authorities m),
     dm_additionals := map (age_record seconds) (dm_additionals m)\<rparr>"

text \<open>The first entry with a key, and the entries without it.\<close>

fun take_entry :: "bytes \<Rightarrow> cache_entry list \<Rightarrow> (cache_entry \<times> cache_entry list) option" where
  "take_entry key [] = None"
| "take_entry key (e # es) =
     (if ce_key e = key then Some (e, es) else map_option (\<lambda>(f, es). (f, e # es)) (take_entry key es))"

definition cache_get :: "'n hickory \<Rightarrow> bytes \<Rightarrow> nat \<Rightarrow> (cache, unit, 'n dns_message option) op" where
  "cache_get hk key now c =
     (case take_entry key (ca_entries c) of
        None \<Rightarrow> (Ok None, c)
      | Some (entry, rest) \<Rightarrow>
          if cached_size entry > ca_bytes c then (Panic, c\<lparr>ca_entries := rest\<rparr>)
          else let c = c\<lparr>ca_entries := rest, ca_bytes := ca_bytes c - cached_size entry\<rparr>;
                   elapsed = now - ce_inserted entry
               in if elapsed \<ge> ce_lifetime entry then (Ok None, c)
                  else (case hk_from_vec hk (ce_wire entry) of
                          None \<Rightarrow> (Ok None, c)
                        | Some m \<Rightarrow>
                            (Ok (Some (age (of_nat (min (elapsed div second) (2 ^ 32 - 1))) m)),
                             c\<lparr>ca_entries := ca_entries c @ [entry], ca_bytes := ca_bytes c + cached_size entry\<rparr>)))"

definition storable :: "'n dns_message \<Rightarrow> bool" where
  "storable m \<longleftrightarrow>
     \<not> (dm_truncation m \<or> dm_signed m \<or> (case dm_edns m of None \<Rightarrow> False | Some e \<Rightarrow> ed_options e \<noteq> [])
        \<or> (dm_response_code m \<noteq> NoError \<and> dm_response_code m \<noteq> NXDomain))"

fun min_ttl :: "'n rr list \<Rightarrow> u32" where
  "min_ttl [] = 0"
| "min_ttl [r] = rr_ttl r"
| "min_ttl (r # rs) = min (rr_ttl r) (min_ttl rs)"

definition negative :: "'n dns_message \<Rightarrow> bool" where
  "negative m \<longleftrightarrow> dm_response_code m = NXDomain \<or>
     \<not> list_ex (\<lambda>r. case dm_queries m of [] \<Rightarrow> False | q # _ \<Rightarrow> record_type r = q_type q) (dm_answers m)"

fun soa_ttl :: "u32 \<Rightarrow> 'n rr list \<Rightarrow> u32 option" where
  "soa_ttl http_age [] = None"
| "soa_ttl http_age (r # rs) =
     (case rr_data r of
        RdSOA minimum \<Rightarrow> Some (min (rr_ttl r) (saturating_sub_word minimum http_age))
      | _ \<Rightarrow> soa_ttl http_age rs)"

definition insert_ttl :: "'n dns_message \<Rightarrow> u32 \<Rightarrow> u32 option" where
  "insert_ttl m http_age =
     (let ttl = min_ttl (records m)
      in if negative m then map_option (min ttl) (soa_ttl http_age (dm_authorities m)) else Some ttl)"

text \<open>Entries leave at the front until there is room; an empty cache without room is the \<open>unwrap\<close> that panics.\<close>

fun evict :: "nat \<Rightarrow> cache_entry list \<Rightarrow> nat \<Rightarrow> (unit, cache_entry list \<times> nat) res" where
  "evict need [] used = (if 0 \<ge> ENTRIES \<or> used + need > BYTES then Panic else Ok ([], used))"
| "evict need (e # es) used =
     (if length (e # es) \<ge> ENTRIES \<or> used + need > BYTES
      then (if cached_size e > used then Panic else evict need es (used - cached_size e))
      else Ok (e # es, used))"

definition cache_insert :: "'n hickory \<Rightarrow> bytes \<Rightarrow> 'n dns_message \<Rightarrow> u32 \<Rightarrow> nat \<Rightarrow> (cache, unit, unit) op" where
  "cache_insert hk key m http_age now c =
     (if \<not> storable m then (Ok (), c)
      else case insert_ttl m http_age of
        None \<Rightarrow> (Ok (), c)
      | Some ttl \<Rightarrow>
          if ttl = 0 then (Ok (), c)
          else (case hk_to_vec hk m of
            None \<Rightarrow> (Ok (), c)
          | Some wire \<Rightarrow>
              let need = length key + length wire in
              if need > BYTES then (Ok (), c)
              else (case (case take_entry key (ca_entries c) of
                            None \<Rightarrow> Ok (ca_entries c, ca_bytes c)
                          | Some (old, rest) \<Rightarrow> if cached_size old > ca_bytes c then Panic else Ok (rest, ca_bytes c - cached_size old)) of
                      Panic \<Rightarrow> (Panic, c)
                    | Err e \<Rightarrow> (Err e, c)
                    | Ok (es, used) \<Rightarrow>
                        (case evict need es used of
                           Panic \<Rightarrow> (Panic, c)
                         | Err e \<Rightarrow> (Err e, c)
                         | Ok (es, used) \<Rightarrow>
                             (Ok (), \<lparr>ca_entries = es @ [\<lparr>ce_key = key, ce_wire = wire, ce_inserted = now,
                                        ce_lifetime = unat ttl * second\<rparr>],
                                      ca_bytes = used + need\<rparr>)))))"

text \<open>The states of a cache, with the messages offered to it so far: key, message, HTTP age, instant.\<close>

inductive cached :: "'n hickory \<Rightarrow> (bytes \<times> 'n dns_message \<times> u32 \<times> nat) list \<Rightarrow> cache \<Rightarrow> bool"
  for hk :: "'n hickory" where
  fresh_cache: "cached hk [] cache_new"
| offered: "cached hk log c \<Longrightarrow> cache_insert hk key m http_age now c = (r, c') \<Longrightarrow> cached hk (log @ [(key, m, http_age, now)]) c'"
| looked_up: "cached hk log c \<Longrightarrow> cache_get hk key now c = (r, c') \<Longrightarrow> cached hk log c'"

section \<open>Invariant\<close>

definition total_size :: "cache_entry list \<Rightarrow> nat" where
  "total_size es = sum_list (map cached_size es)"

lemma total_size_simps [simp]:
  "total_size [] = 0" "total_size (e # es) = cached_size e + total_size es" "total_size (es @ fs) = total_size es + total_size fs"
  by (simp_all add: total_size_def)

definition entry_from :: "'n hickory \<Rightarrow> (bytes \<times> 'n dns_message \<times> u32 \<times> nat) list \<Rightarrow> cache_entry \<Rightarrow> bool" where
  "entry_from hk log e \<longleftrightarrow> (\<exists>m http_age ttl. (ce_key e, m, http_age, ce_inserted e) \<in> set log \<and>
     storable m \<and> hk_to_vec hk m = Some (ce_wire e) \<and> insert_ttl m http_age = Some ttl \<and> ttl \<noteq> 0 \<and>
     ce_lifetime e = unat ttl * second)"

definition cache_ok :: "'n hickory \<Rightarrow> (bytes \<times> 'n dns_message \<times> u32 \<times> nat) list \<Rightarrow> cache \<Rightarrow> bool" where
  "cache_ok hk log c \<longleftrightarrow>
     ca_bytes c = total_size (ca_entries c) \<and> length (ca_entries c) \<le> ENTRIES \<and> ca_bytes c \<le> BYTES \<and>
     list_all (entry_from hk log) (ca_entries c)"

lemma take_entry_Some:
  "take_entry key es = Some (e, rest) \<Longrightarrow> ce_key e = key \<and> (\<exists>xs ys. es = xs @ e # ys \<and> rest = xs @ ys)"
proof (induction es arbitrary: rest)
  case (Cons f es)
  show ?case
  proof (cases "ce_key f = key")
    case True
    then show ?thesis using Cons.prems by (auto intro: exI [of _ "[]"])
  next
    case False
    then obtain rest' where r: "take_entry key es = Some (e, rest')" "rest = f # rest'" using Cons.prems by auto
    from Cons.IH [OF r(1)] obtain xs ys where "ce_key e = key" "es = xs @ e # ys" "rest' = xs @ ys" by blast
    then show ?thesis using r(2) by (intro conjI exI [of _ "f # xs"] exI [of _ ys]) simp_all
  qed
qed simp

lemma evict_room:
  assumes "need \<le> BYTES"
  shows "\<exists>xs ys. es = xs @ ys \<and> evict need es (total_size es) = Ok (ys, total_size ys) \<and>
    length ys < ENTRIES \<and> total_size ys + need \<le> BYTES"
proof (induction es)
  case Nil
  then show ?case using assms by (simp add: ENTRIES_def)
next
  case (Cons e es)
  show ?case
  proof (cases "length (e # es) \<ge> ENTRIES \<or> total_size (e # es) + need > BYTES")
    case True
    from Cons obtain xs ys where "es = xs @ ys" "evict need es (total_size es) = Ok (ys, total_size ys)"
      "length ys < ENTRIES" "total_size ys + need \<le> BYTES" by blast
    then show ?thesis using True by (intro exI [of _ "e # xs"] exI [of _ ys]) simp
  qed (auto intro!: exI [of _ "[]"])
qed

lemma entry_from_mono: "entry_from hk log e \<Longrightarrow> entry_from hk (log @ later) e"
  by (fastforce simp: entry_from_def)

lemma cache_get_ok:
  assumes "cache_ok hk log c"
  shows "\<exists>r c'. cache_get hk key now c = (Ok r, c') \<and> cache_ok hk log c'"
proof (cases "take_entry key (ca_entries c)")
  case (Some x)
  then obtain e rest where x: "take_entry key (ca_entries c) = Some (e, rest)" by (cases x) simp
  from take_entry_Some [OF this] obtain xs ys where "ca_entries c = xs @ e # ys" "rest = xs @ ys" by blast
  then show ?thesis
    using assms x by (auto simp: cache_get_def cache_ok_def Let_def split: option.splits)
qed (use assms in \<open>simp add: cache_get_def\<close>)

lemma cache_insert_ok:
  assumes "cache_ok hk log c"
  shows "\<exists>c'. cache_insert hk key m a now c = (Ok (), c') \<and> cache_ok hk (log @ [(key, m, a, now)]) c'"
proof -
  have old: "cache_ok hk (log @ [(key, m, a, now)]) c"
    using assms by (auto simp: cache_ok_def list_all_iff intro: entry_from_mono)
  show ?thesis
  proof (cases "storable m \<and> (\<exists>ttl wire. insert_ttl m a = Some ttl \<and> ttl \<noteq> 0 \<and> hk_to_vec hk m = Some wire
      \<and> length key + length wire \<le> BYTES)")
    case True
    then obtain ttl wire where s: "storable m" "insert_ttl m a = Some ttl" "ttl \<noteq> 0" "hk_to_vec hk m = Some wire"
        "length key + length wire \<le> BYTES" by blast
    define es where "es = (case take_entry key (ca_entries c) of None \<Rightarrow> ca_entries c | Some (old, rest) \<Rightarrow> rest)"
    have es: "(case take_entry key (ca_entries c) of None \<Rightarrow> Ok (ca_entries c, ca_bytes c)
        | Some (old, rest) \<Rightarrow> if cached_size old > ca_bytes c then Panic else Ok (rest, ca_bytes c - cached_size old))
        = (Ok (es, total_size es) :: (unit, _) res)" "set es \<subseteq> set (ca_entries c)"
      using assms take_entry_Some [of key "ca_entries c"]
      by (fastforce simp: es_def cache_ok_def split: option.splits)+
    from evict_room [OF s(5), of es] obtain xs ys where ys: "es = xs @ ys"
        "evict (length key + length wire) es (total_size es) = Ok (ys, total_size ys)" "length ys < ENTRIES"
        "total_size ys + (length key + length wire) \<le> BYTES" by blast
    let ?e = "\<lparr>ce_key = key, ce_wire = wire, ce_inserted = now, ce_lifetime = unat ttl * second\<rparr>"
    have "entry_from hk (log @ [(key, m, a, now)]) ?e" using s by (auto simp: entry_from_def)
    moreover have "list_all (entry_from hk (log @ [(key, m, a, now)])) ys"
      using old es(2) ys(1) by (auto simp: cache_ok_def list_all_iff)
    ultimately show ?thesis
      using s es(1) ys by (auto simp: cache_insert_def cache_ok_def Let_def cached_size_def)
  next
    case False
    then have "cache_insert hk key m a now c = (Ok (), c)"
      by (auto simp: cache_insert_def Let_def not_le split: option.splits)
    then show ?thesis using old by simp
  qed
qed

lemma cached_ok: "cached hk log c \<Longrightarrow> cache_ok hk log c"
proof (induction rule: cached.induct)
  case (offered log c key m a now r c')
  then show ?case using cache_insert_ok [of hk log c key m a now] by auto
next
  case (looked_up log c key now r c')
  then show ?case using cache_get_ok [of hk log c key now] by auto
qed (simp add: cache_ok_def cache_new_def)

section \<open>Freshness\<close>

lemma min_ttl_le: "r \<in> set rs \<Longrightarrow> min_ttl rs \<le> rr_ttl r"
proof (induction rs rule: min_ttl.induct)
  case (3 r' s rs)
  then show ?case by (auto simp: min_le_iff_disj)
qed auto

lemma insert_ttl_le: "insert_ttl m a = Some ttl \<Longrightarrow> r \<in> set (records m) \<Longrightarrow> ttl \<le> rr_ttl r"
  using min_ttl_le [of r "records m"]
  by (auto simp: insert_ttl_def Let_def min_def split: if_splits)

lemma records_age: "records (age k m) = map (age_record k) (records m)"
  by (simp add: records_def age_def)

text \<open>What a hit returns, for the entry it came from.\<close>

lemma cache_hit:
  assumes ok: "cache_ok hk log c" and hit: "cache_get hk key now c = (Ok (Some reply), c')"
  shows "\<exists>m a t ttl wire reread. (key, m, a, t) \<in> set log \<and> storable m \<and> hk_to_vec hk m = Some wire \<and>
    insert_ttl m a = Some ttl \<and> hk_from_vec hk wire = Some reread \<and> (now - t) div second < unat ttl \<and>
    reply = age (of_nat ((now - t) div second)) reread"
proof -
  obtain e rest where x: "take_entry key (ca_entries c) = Some (e, rest)"
    using hit by (auto simp: cache_get_def split: option.splits)
  then obtain xs ys where "ce_key e = key" "ca_entries c = xs @ e # ys" using take_entry_Some by blast
  then obtain m a ttl where m: "(key, m, a, ce_inserted e) \<in> set log" "storable m" "hk_to_vec hk m = Some (ce_wire e)"
      "insert_ttl m a = Some ttl" "ce_lifetime e = unat ttl * second"
    using ok by (auto simp: cache_ok_def entry_from_def)
  let ?k = "(now - ce_inserted e) div second"
  have h: "now - ce_inserted e < unat ttl * second" "\<exists>reread. hk_from_vec hk (ce_wire e) = Some reread \<and>
      reply = age (of_nat (min ?k (2 ^ 32 - 1))) reread"
    using hit x m(5) by (auto simp: cache_get_def Let_def not_le split: option.splits if_splits)
  have k: "?k < unat ttl" using h(1) by (simp add: div_less_iff_less_mult)
  moreover have "unat ttl < 2 ^ 32" using unsigned_less [of ttl, where 'a = nat] by simp
  ultimately have "min ?k (2 ^ 32 - 1) = ?k" by simp
  then show ?thesis using m h(2) k by metis
qed

lemma aged_ttl:
  assumes "k < unat ttl" "ttl \<le> rr_ttl r"
  shows "rr_ttl (age_record (of_nat k) r) \<noteq> 0 \<and> unat (rr_ttl (age_record (of_nat k) r)) = unat (rr_ttl r) - k"
proof -
  have "unat ttl < 2 ^ 32" using unsigned_less [of ttl, where 'a = nat] by simp
  then have "unat (of_nat k :: u32) = k" using assms(1) by (simp add: unat_of_nat)
  then have u: "unat (rr_ttl (age_record (of_nat k) r)) = unat (rr_ttl r) - k" by (simp add: age_record_def)
  moreover have "k < unat (rr_ttl r)" using assms by (simp add: word_le_nat_alt)
  ultimately show ?thesis by (metis unat_0 zero_less_diff less_irrefl)
qed

text \<open>C39: whatever is inserted and looked up, the cache holds at most 256 entries and 4 MiB with an exact byte count,
  and neither operation panics. A hit is the aged copy of a message that was offered under the same key and was fit to be
  stored; if the message library reads reread what it wrote, each of its TTLs is reduced by the whole seconds since then, and
  none of them has run out.\<close>
theorem cache_bounded_and_fresh:
  assumes "cached hk log c"
  shows "length (ca_entries c) \<le> 256 \<and> ca_bytes c \<le> 4 * 1024 * 1024 \<and>
    ca_bytes c = sum_list (map cached_size (ca_entries c)) \<and>
    fst (cache_get hk key now c) \<noteq> Panic \<and> fst (cache_insert hk key message http_age now c) \<noteq> Panic \<and>
    (\<forall>reply c'. cache_get hk key now c = (Ok (Some reply), c') \<longrightarrow>
      (\<exists>m a t wire reread k. (key, m, a, t) \<in> set log \<and> storable m \<and> hk_to_vec hk m = Some wire \<and>
        hk_from_vec hk wire = Some reread \<and> k = (now - t) div second \<and> reply = age (of_nat k) reread \<and>
        (reread = m \<longrightarrow> list_all (\<lambda>r. rr_ttl r \<noteq> 0) (records reply) \<and>
          map (\<lambda>r. unat (rr_ttl r)) (records reply) = map (\<lambda>r. unat (rr_ttl r) - k) (records m))))"
proof -
  have ok: "cache_ok hk log c" by (rule cached_ok [OF assms])
  have "\<exists>m a t wire reread k. (key, m, a, t) \<in> set log \<and> storable m \<and> hk_to_vec hk m = Some wire \<and>
      hk_from_vec hk wire = Some reread \<and> k = (now - t) div second \<and> reply = age (of_nat k) reread \<and>
      (reread = m \<longrightarrow> list_all (\<lambda>r. rr_ttl r \<noteq> 0) (records reply) \<and>
        map (\<lambda>r. unat (rr_ttl r)) (records reply) = map (\<lambda>r. unat (rr_ttl r) - k) (records m))"
    if "cache_get hk key now c = (Ok (Some reply), c')" for reply c'
  proof -
    from cache_hit [OF ok that] obtain m a t ttl wire reread where h: "(key, m, a, t) \<in> set log" "storable m"
        "hk_to_vec hk m = Some wire" "insert_ttl m a = Some ttl" "hk_from_vec hk wire = Some reread"
        "(now - t) div second < unat ttl" "reply = age (of_nat ((now - t) div second)) reread" by blast
    have "list_all (\<lambda>r. rr_ttl r \<noteq> 0) (records reply) \<and> map (\<lambda>r. unat (rr_ttl r)) (records reply) =
        map (\<lambda>r. unat (rr_ttl r) - (now - t) div second) (records m)" if "reread = m"
      using aged_ttl [OF h(6) insert_ttl_le [OF h(4)]] h(7) that by (auto simp: records_age list_all_iff)
    then show ?thesis using h by blast
  qed
  then show ?thesis
    using ok cache_get_ok [OF ok, of key now] cache_insert_ok [OF ok, of key message http_age now]
    by (auto simp: cache_ok_def total_size_def ENTRIES_def BYTES_def)
qed

text \<open>An answer with a TTL of ten seconds, a library that only knows its query, and the cache that holds it.\<close>

definition example_answer :: "unit dns_message" where
  "example_answer = \<lparr>dm_id = 0, dm_is_response = True, dm_op_code = 0, dm_response_code = NoError, dm_truncation = False,
     dm_authentic_data = False, dm_recursion_desired = True, dm_recursion_available = True, dm_checking_disabled = False,
     dm_queries = [\<lparr>q_name = (), q_type = TYPE_A\<rparr>],
     dm_answers = [\<lparr>rr_name = (), rr_ttl = 10, rr_data = RdA [192, 0, 2, 1]\<rparr>],
     dm_authorities = [], dm_additionals = [], dm_signed = False, dm_edns = None\<rparr>"

definition example_hickory :: "unit hickory" where
  "example_hickory =
    \<lparr>hk_to_vec = \<lambda>m. if dm_queries m = dm_queries example_answer then Some [if dm_is_response m then 1 else 0] else None,
     hk_from_vec = \<lambda>bs. Some (example_answer\<lparr>dm_is_response := (bs = [1])\<rparr>),
     hk_error_msg = \<lambda>i op_code code. example_answer\<lparr>dm_id := i, dm_op_code := op_code, dm_response_code := code, dm_answers := []\<rparr>,
     hk_edns_new = \<lparr>ed_max_payload = 512, ed_version = 0, ed_dnssec_ok = False, ed_options = []\<rparr>,
     hk_set_max_payload = \<lambda>n e. e\<lparr>ed_max_payload := n\<rparr>\<rparr>"

definition example_cache :: cache where
  "example_cache = \<lparr>ca_entries = [\<lparr>ce_key = [9], ce_wire = [1], ce_inserted = 0, ce_lifetime = 10 * second\<rparr>], ca_bytes = 2\<rparr>"

theorem cache_bounded_and_fresh_witness:
  "\<exists>reply c'. cache_get example_hickory [9] (4 * second) example_cache = (Ok (Some reply), c') \<and>
     map (\<lambda>r. unat (rr_ttl r)) (records reply) = [6] \<and> list_all (\<lambda>r. rr_ttl r \<noteq> 0) (records reply)"
proof -
  have "insert_ttl example_answer 0 = Some 10" "storable example_answer"
    by (simp_all add: insert_ttl_def example_answer_def records_def negative_def record_type_def storable_def)
  moreover have "dm_is_response example_answer" by (simp add: example_answer_def)
  ultimately have "cache_insert example_hickory [9] example_answer 0 0 cache_new = (Ok (), example_cache)"
    by (simp add: cache_insert_def example_hickory_def cache_new_def example_cache_def BYTES_def ENTRIES_def)
  then have c: "cached example_hickory [([9], example_answer, 0, 0)] example_cache"
    using offered [OF fresh_cache] by fastforce
  obtain reply c' where g: "cache_get example_hickory [9] (4 * second) example_cache = (Ok (Some reply), c')"
    by (simp add: cache_get_def example_cache_def example_hickory_def cached_size_def)
  have w: "hk_to_vec example_hickory example_answer = Some [1]" "hk_from_vec example_hickory [1] = Some example_answer"
      "map (\<lambda>r. unat (rr_ttl r)) (records example_answer) = [10]"
    by (simp_all add: example_hickory_def example_answer_def records_def)
  note fresh = cache_bounded_and_fresh [OF c, of "[9]" "4 * second" example_answer 0,
      THEN conjunct2, THEN conjunct2, THEN conjunct2, THEN conjunct2, THEN conjunct2]
  from fresh [THEN spec, THEN spec, THEN mp, OF g]
  obtain m a t wire reread k where h: "([9 :: u8], m, a, t) \<in> set [([9 :: u8], example_answer, 0 :: u32, 0 :: nat)]"
      "hk_to_vec example_hickory m = Some wire" "hk_from_vec example_hickory wire = Some reread" "k = (4 * second - t) div second"
      "reread = m \<longrightarrow> list_all (\<lambda>r. rr_ttl r \<noteq> 0) (records reply) \<and>
        map (\<lambda>r. unat (rr_ttl r)) (records reply) = map (\<lambda>r. unat (rr_ttl r) - k) (records m)"
    by (elim exE conjE)
  then have "list_all (\<lambda>r. rr_ttl r \<noteq> 0) (records reply)" "map (\<lambda>r. unat (rr_ttl r)) (records reply) = [6]"
    using w by auto
  with g show ?thesis by (intro exI conjI)
qed

end
