(* ===== verification/Dns_Service.thy ===== *)
theory Dns_Service
  imports Dns_Cache Op_Hoare
begin

text \<open>
  The resolver service: forwarding of queries to encrypted upstreams (\<open>crates/net/dns-service/src/forward.rs\<close>) and
  the local name-service socket (\<open>ingress.rs\<close>). Upstream connections are a parameter: \<open>up_exchange\<close> sends a query to
  an endpoint before a deadline and returns a message with its HTTP age. The clock is a parameter too.
\<close>

section \<open>Forwarding\<close>

definition MAX_MESSAGE :: nat where "MAX_MESSAGE = 65535"

record ('w, 'n) upstream =
  up_now :: "'w \<Rightarrow> nat \<times> 'w"
  up_exchange :: "nat \<Rightarrow> bytes \<Rightarrow> nat \<Rightarrow> 'w \<Rightarrow> ('n dns_message \<times> u32) option \<times> 'w"

record 'w forwarder =
  fw_world :: 'w
  fw_cache :: cache

definition error_reply :: "'n hickory \<Rightarrow> 'n dns_message \<Rightarrow> response_code \<Rightarrow> 'n dns_message" where
  "error_reply hk request code =
     (let response = (hk_error_msg hk (dm_id request) (dm_op_code request) code)
            \<lparr>dm_recursion_desired := dm_recursion_desired request, dm_recursion_available := True,
             dm_checking_disabled := dm_checking_disabled request, dm_queries := dm_queries request\<rparr>
      in case dm_edns request of
           None \<Rightarrow> response
         | Some e \<Rightarrow> response\<lparr>dm_edns := Some (hk_set_max_payload hk (min (ed_max_payload e) 1232) (hk_edns_new hk))\<rparr>)"

text \<open>The refusals before anything is sent.\<close>

definition request_refusal :: "'n dns_message \<Rightarrow> response_code option" where
  "request_refusal request =
     (if dm_is_response request \<or> length (dm_queries request) \<noteq> 1 \<or> dm_answers request \<noteq> [] \<or> dm_authorities request \<noteq> []
      then Some FormErr
      else if dm_op_code request \<noteq> 0 then Some NotImp
      else if dm_signed request \<or> q_type (hd (dm_queries request)) = TYPE_AXFR \<or> q_type (hd (dm_queries request)) = TYPE_IXFR
      then Some Refused
      else if (case dm_edns request of None \<Rightarrow> False | Some e \<Rightarrow> ed_version e \<noteq> 0) then Some BADVERS
      else None)"

definition acceptable :: "'n dns_message \<Rightarrow> 'n dns_message \<Rightarrow> bool" where
  "acceptable request response \<longleftrightarrow>
     \<not> (\<not> dm_is_response response \<or> dm_id response \<noteq> 0 \<or> dm_op_code response \<noteq> dm_op_code request
        \<or> dm_queries response \<noteq> dm_queries request \<or> dm_signed response)"

definition client_view :: "'n dns_message \<Rightarrow> 'n dns_message \<Rightarrow> 'n dns_message" where
  "client_view request response =
     (let response = response\<lparr>dm_id := dm_id request\<rparr>
      in if \<not> dm_authentic_data request \<and> \<not> (case dm_edns request of None \<Rightarrow> False | Some e \<Rightarrow> ed_dnssec_ok e)
         then response\<lparr>dm_authentic_data := False\<rparr> else response)"

definition fw_now :: "('w, 'n) upstream \<Rightarrow> ('w forwarder, unit, nat) op" where
  "fw_now up s = (case up_now up (fw_world s) of (t, w) \<Rightarrow> (Ok t, s\<lparr>fw_world := w\<rparr>))"

definition fw_send :: "('w, 'n) upstream \<Rightarrow> nat \<Rightarrow> bytes \<Rightarrow> nat \<Rightarrow> ('w forwarder, unit, ('n dns_message \<times> u32) option) op" where
  "fw_send up i bs deadline s = (case up_exchange up i bs deadline (fw_world s) of (r, w) \<Rightarrow> (Ok r, s\<lparr>fw_world := w\<rparr>))"

definition on_cache :: "(cache, unit, 'a) op \<Rightarrow> ('w forwarder, unit, 'a) op" where
  "on_cache m s = (case m (fw_cache s) of (r, c) \<Rightarrow> (r, s\<lparr>fw_cache := c\<rparr>))"

fun try_endpoints :: "'n hickory \<Rightarrow> ('w, 'n) upstream \<Rightarrow> 'n dns_message \<Rightarrow> bytes \<Rightarrow> nat \<Rightarrow> nat list \<Rightarrow>
    ('w forwarder, unit, 'n dns_message) op" where
  "try_endpoints hk up request bs deadline [] = st_return (Ok (error_reply hk request ServFail))"
| "try_endpoints hk up request bs deadline (i # is) =
     st_then (fw_now up) (\<lambda>t.
     let attempt = min deadline (t + 1500000000) in
     st_then (fw_now up) (\<lambda>t.
     if t \<ge> attempt then st_return (Ok (error_reply hk request ServFail))
     else st_then (fw_send up i bs attempt) (\<lambda>r.
       case r of
         None \<Rightarrow> try_endpoints hk up request bs deadline is
       | Some (response, http_age) \<Rightarrow>
           if \<not> acceptable request response then try_endpoints hk up request bs deadline is
           else let response = client_view request response in
             if eligible request
             then st_then (fw_now up) (\<lambda>t.
                    st_then (on_cache (cache_insert hk bs response http_age t)) (\<lambda>_. st_return (Ok response)))
             else st_return (Ok response))))"

text \<open>\<open>exchange\<close>, for a service with \<open>n\<close> endpoints.\<close>

definition exchange :: "'n hickory \<Rightarrow> ('w, 'n) upstream \<Rightarrow> nat \<Rightarrow> 'n dns_message \<Rightarrow> nat \<Rightarrow>
    ('w forwarder, unit, 'n dns_message) op" where
  "exchange hk up n request deadline =
     (case request_refusal request of
        Some code \<Rightarrow> st_return (Ok (error_reply hk request code))
      | None \<Rightarrow>
          (case hk_to_vec hk (request\<lparr>dm_id := 0\<rparr>) of
             None \<Rightarrow> st_return (Ok (error_reply hk request FormErr))
           | Some bs \<Rightarrow>
               if length bs > MAX_MESSAGE then st_return (Ok (error_reply hk request FormErr))
               else if eligible request
               then st_then (fw_now up) (\<lambda>t. st_then (on_cache (cache_get hk bs t)) (\<lambda>hit.
                 case hit of
                   Some response \<Rightarrow> st_return (Ok (response\<lparr>dm_id := dm_id request\<rparr>))
                 | None \<Rightarrow> try_endpoints hk up request bs deadline [0..<n]))
               else try_endpoints hk up request bs deadline [0..<n]))"

section \<open>Name-service answers\<close>

text \<open>The target of the first alias of a name.\<close>

fun alias_target :: "'n \<Rightarrow> 'n rr list \<Rightarrow> 'n option" where
  "alias_target name [] = None"
| "alias_target name (r # rs) =
     (if rr_name r \<noteq> name then alias_target name rs
      else case rr_data r of RdCNAME target \<Rightarrow> Some target | _ \<Rightarrow> alias_target name rs)"

definition address_of :: "'n \<Rightarrow> u16 \<Rightarrow> 'n rr \<Rightarrow> ip_addr option" where
  "address_of name kind r =
     (if rr_name r \<noteq> name then None
      else case rr_data r of
        RdA ip \<Rightarrow> if kind = TYPE_A then Some (V4 ip) else None
      | RdAAAA ip \<Rightarrow> if kind = TYPE_AAAA then Some (V6 ip) else None
      | _ \<Rightarrow> None)"

fun follow_aliases :: "nat \<Rightarrow> 'n list \<Rightarrow> 'n \<Rightarrow> u16 \<Rightarrow> 'n rr list \<Rightarrow> ip_addr list" where
  "follow_aliases 0 visited name kind answers = []"
| "follow_aliases (Suc n) visited name kind answers =
     (if name \<in> set visited then []
      else case alias_target name answers of
        Some target \<Rightarrow> follow_aliases n (visited @ [name]) target kind answers
      | None \<Rightarrow> take MAX_ADDRESSES (List.map_filter (address_of name kind) answers))"

definition answer_addresses :: "'n \<Rightarrow> u16 \<Rightarrow> 'n dns_message \<Rightarrow> ip_addr list" where
  "answer_addresses name kind response = follow_aliases 16 [] name kind (dm_answers response)"

text \<open>The response to a client, from the replies to the two lookups.\<close>

definition family_addresses :: "'n \<Rightarrow> u16 \<Rightarrow> 'n dns_message \<Rightarrow> ip_addr list" where
  "family_addresses name kind response =
     (if dm_response_code response = NoError then answer_addresses name kind response else [])"

definition is_temporary :: "'n dns_message \<Rightarrow> bool" where
  "is_temporary response \<longleftrightarrow> dm_response_code response \<noteq> NoError \<and> dm_response_code response \<noteq> NXDomain"

definition nss_response :: "'n \<Rightarrow> 'n dns_message \<Rightarrow> 'n dns_message \<Rightarrow> bytes" where
  "nss_response name a aaaa =
     (let ips = take MAX_ADDRESSES (family_addresses name TYPE_A a @ family_addresses name TYPE_AAAA aaaa)
      in dns_response (if ips \<noteq> [] then OK else if is_temporary a \<or> is_temporary aaaa then TEMPORARY else NOT_FOUND) ips)"

section \<open>Replies answer their request\<close>

text \<open>The library keeps the identity it is given, and distinct queries have distinct encodings.\<close>

definition hickory_ok :: "'n hickory \<Rightarrow> bool" where
  "hickory_ok hk \<longleftrightarrow>
     (\<forall>i op_code code. dm_id (hk_error_msg hk i op_code code) = i \<and> dm_is_response (hk_error_msg hk i op_code code)) \<and>
     (\<forall>m m' bs. hk_to_vec hk m = Some bs \<longrightarrow> hk_to_vec hk m' = Some bs \<longrightarrow> dm_queries m = dm_queries m') \<and>
     (\<forall>m bs m'. hk_to_vec hk m = Some bs \<longrightarrow> hk_from_vec hk bs = Some m' \<longrightarrow>
        dm_queries m' = dm_queries m \<and> dm_is_response m' = dm_is_response m)"

text \<open>Every message stored under a key is a response to the query that the key encodes.\<close>

definition answers_key :: "'n hickory \<Rightarrow> (bytes \<times> 'n dns_message \<times> u32 \<times> nat) list \<Rightarrow> bool" where
  "answers_key hk log \<longleftrightarrow> list_all (\<lambda>(key, m, _, _). dm_is_response m \<and>
     (\<exists>q. hk_to_vec hk q = Some key \<and> dm_queries q = dm_queries m)) log"

definition serving :: "'n hickory \<Rightarrow> 'w forwarder \<Rightarrow> bool" where
  "serving hk s \<longleftrightarrow> (\<exists>log. cached hk log (fw_cache s) \<and> answers_key hk log)"

definition replies_to :: "'n dns_message \<Rightarrow> 'n dns_message \<Rightarrow> bool" where
  "replies_to request reply \<longleftrightarrow> dm_id reply = dm_id request \<and> dm_queries reply = dm_queries request \<and> dm_is_response reply"

lemma error_replies: "hickory_ok hk \<Longrightarrow> replies_to request (error_reply hk request code)"
  by (auto simp: hickory_ok_def replies_to_def error_reply_def Let_def split: option.splits)

lemma fw_calls [triple_rules]:
  assumes "\<And>s w. P s \<Longrightarrow> P (s\<lparr>fw_world := w\<rparr>)"
  shows "triple P (fw_now up) (\<lambda>_. P) E" "triple P (fw_send up i bs d) (\<lambda>_. P) E"
  using assms by (auto simp: triple_def fw_now_def fw_send_def split: prod.splits)

lemma serving_world [simp]: "serving hk (s\<lparr>fw_world := w\<rparr>) = serving hk s"
  by (simp add: serving_def)

lemma get_serving:
  fixes hk :: "'n hickory" and E :: "unit \<Rightarrow> 'w forwarder \<Rightarrow> bool"
  assumes hk: "hickory_ok hk"
  shows "triple (serving hk) (on_cache (cache_get hk bs t))
    (\<lambda>hit s. serving hk s \<and> (case hit of None \<Rightarrow> True
       | Some m \<Rightarrow> dm_is_response m \<and> (\<exists>q. hk_to_vec hk q = Some bs \<and> dm_queries q = dm_queries m))) E"
proof (rule tripleI)
  fix s :: "'w forwarder" assume "serving hk s"
  then obtain log where l: "cached hk log (fw_cache s)" "answers_key hk log" by (auto simp: serving_def)
  from cache_get_ok [OF cached_ok [OF l(1)], of bs t] obtain r c where g: "cache_get hk bs t (fw_cache s) = (Ok r, c)" by blast
  have "serving hk (s\<lparr>fw_cache := c\<rparr>)" using looked_up [OF l(1) g] l(2) by (auto simp: serving_def)
  moreover have "dm_is_response m \<and> (\<exists>q. hk_to_vec hk q = Some bs \<and> dm_queries q = dm_queries m)" if "r = Some m" for m
  proof -
    from cache_hit [OF cached_ok [OF l(1)] g [unfolded that]] obtain m' a u wire reread k where h: "(bs, m', a, u) \<in> set log"
        "hk_to_vec hk m' = Some wire" "hk_from_vec hk wire = Some reread" "m = age k reread" by metis
    moreover have "dm_queries reread = dm_queries m'" "dm_is_response reread = dm_is_response m'"
      using hk h(2,3) unfolding hickory_ok_def by metis+
    ultimately show ?thesis using l(2) by (auto simp: answers_key_def list_all_iff age_def)
  qed
  ultimately show "case on_cache (cache_get hk bs t) s of
      (Ok hit, s') \<Rightarrow> serving hk s' \<and> (case hit of None \<Rightarrow> True
        | Some m \<Rightarrow> dm_is_response m \<and> (\<exists>q. hk_to_vec hk q = Some bs \<and> dm_queries q = dm_queries m))
      | (Err e, s') \<Rightarrow> E e s' | (Panic, s') \<Rightarrow> False"
    using g by (auto simp: on_cache_def split: option.splits)
qed

lemma insert_serving:
  fixes hk :: "'n hickory" and E :: "unit \<Rightarrow> 'w forwarder \<Rightarrow> bool"
  assumes "dm_is_response m" "hk_to_vec hk q = Some bs" "dm_queries q = dm_queries m"
  shows "triple (serving hk) (on_cache (cache_insert hk bs m a t)) (\<lambda>_. serving hk) E"
proof (rule tripleI)
  fix s :: "'w forwarder" assume "serving hk s"
  then obtain log where l: "cached hk log (fw_cache s)" "answers_key hk log" by (auto simp: serving_def)
  from cache_insert_ok [OF cached_ok [OF l(1)], of bs m a t] obtain c
    where g: "cache_insert hk bs m a t (fw_cache s) = (Ok (), c)" by blast
  have "answers_key hk (log @ [(bs, m, a, t)])" using l(2) assms by (auto simp: answers_key_def)
  then have "serving hk (s\<lparr>fw_cache := c\<rparr>)" using offered [OF l(1) g] by (auto simp: serving_def)
  then show "case on_cache (cache_insert hk bs m a t) s of (Ok x, s') \<Rightarrow> serving hk s' | (Err e, s') \<Rightarrow> E e s' | (Panic, s') \<Rightarrow> False"
    using g by (simp add: on_cache_def)
qed

lemma client_view_replies:
  "acceptable request response \<Longrightarrow> replies_to request (client_view request response)"
  by (auto simp: acceptable_def replies_to_def client_view_def Let_def)

lemma endpoints_reply:
  assumes hk: "hickory_ok hk" and bs: "hk_to_vec hk (request\<lparr>dm_id := 0\<rparr>) = Some bs"
  shows "triple (serving hk) (try_endpoints hk up request bs deadline is)
    (\<lambda>reply s. serving hk s \<and> replies_to request reply) E"
proof (induction "is")
  case Nil
  show ?case unfolding try_endpoints.simps by (rule triple_return) (simp add: error_replies [OF hk])
next
  case (Cons i "is")
  have r: "triple (serving hk) (if eligible request
      then st_then (fw_now up) (\<lambda>t. st_then (on_cache (cache_insert hk bs m a t)) (\<lambda>_. st_return (Ok m)))
      else st_return (Ok m)) (\<lambda>reply s. serving hk s \<and> replies_to request reply) E" if "replies_to request m" for m a
    using that bs by (intro triple_if triple_then [OF fw_calls(1)] triple_then [OF insert_serving [where q = "request\<lparr>dm_id := 0\<rparr>"]] triple_return)
      (auto simp: replies_to_def)
  have s: "triple (serving hk) (case x of None \<Rightarrow> try_endpoints hk up request bs deadline is
      | Some (response, http_age) \<Rightarrow>
          if \<not> acceptable request response then try_endpoints hk up request bs deadline is
          else let response = client_view request response in
            if eligible request
            then st_then (fw_now up) (\<lambda>t. st_then (on_cache (cache_insert hk bs response http_age t)) (\<lambda>_. st_return (Ok response)))
            else st_return (Ok response)) (\<lambda>reply s. serving hk s \<and> replies_to request reply) E" for x
  proof (cases x)
    case (Some y)
    obtain response a where y: "y = (response, a)" by (cases y)
    show ?thesis
    proof (cases "acceptable request response")
      case True
      then show ?thesis unfolding Some y option.case prod.case Let_def
        using r [OF client_view_replies [OF True], of a] by (simp only: not_True_eq_False if_False simp_thms)
    qed (use Cons in \<open>simp add: Some y\<close>)
  qed (simp add: Cons)
  show ?case unfolding try_endpoints.simps Let_def [of "min _ _"]
  proof (intro triple_then [where R = "\<lambda>_. serving hk", OF fw_calls(1)] triple_if
      triple_then [where R = "\<lambda>_. serving hk", OF fw_calls(2)] s)
  qed (auto intro!: triple_return error_replies [OF hk])
qed

lemma exchange_triple:
  assumes hk: "hickory_ok hk"
  shows "triple (serving hk) (exchange hk up n request deadline)
    (\<lambda>reply s. serving hk s \<and> replies_to request reply) (\<lambda>_ _. False)"
  unfolding exchange_def
proof (intro triple_option triple_if triple_return, goal_cases)
  case (3 bs)
  have hit: "replies_to request (m\<lparr>dm_id := dm_id request\<rparr>)"
    if "dm_is_response m" "hk_to_vec hk q = Some bs" "dm_queries q = dm_queries m" for m q
  proof -
    have "dm_queries q = dm_queries (request\<lparr>dm_id := 0\<rparr>)" using hk that(2) 3(2) unfolding hickory_ok_def by blast
    then show ?thesis using that by (simp add: replies_to_def)
  qed
  show ?case
  proof (rule triple_then [where R = "\<lambda>_. serving hk", OF fw_calls(1)], simp, rule triple_then [OF get_serving [OF hk]])
    fix h
    show "triple (\<lambda>s. serving hk s \<and> (case h of None \<Rightarrow> True
        | Some m \<Rightarrow> dm_is_response m \<and> (\<exists>q. hk_to_vec hk q = Some bs \<and> dm_queries q = dm_queries m)))
      (case h of Some response \<Rightarrow> st_return (Ok (response\<lparr>dm_id := dm_id request\<rparr>))
       | None \<Rightarrow> try_endpoints hk up request bs deadline [0..<n])
      (\<lambda>reply s. serving hk s \<and> replies_to request reply) (\<lambda>_ _. False)"
      by (cases h) (auto intro!: triple_return triple_pre [OF endpoints_reply [OF hk 3(2)]] hit)
  qed
next
  case (4 bs)
  then show ?case by (intro endpoints_reply [OF hk])
qed (auto intro: error_replies [OF hk])

text \<open>C17: an exchange returns a reply, without panicking, whether it refuses the request, serves it from the cache or forwards
  it; the reply has the identity and the queries of the request; and the cache keeps answering only the queries its keys
  encode.\<close>
theorem exchange_replies_to_request:
  assumes "hickory_ok hk" "serving hk s"
  shows "\<exists>reply s'. exchange hk up n request deadline s = (Ok reply, s') \<and> serving hk s' \<and> replies_to request reply"
  by (rule triple_returns [OF exchange_triple [OF assms(1)] assms(2)])

definition example_upstream :: "(unit, unit) upstream" where
  "example_upstream = \<lparr>up_now = \<lambda>w. (0, w), up_exchange = \<lambda>i bs deadline w. (Some (example_answer, 0), w)\<rparr>"

definition example_request :: "unit dns_message" where
  "example_request = example_answer\<lparr>dm_id := 77, dm_is_response := False, dm_answers := []\<rparr>"

theorem exchange_replies_to_request_witness:
  "\<exists>reply s'. exchange example_hickory example_upstream 1 example_request second \<lparr>fw_world = (), fw_cache = cache_new\<rparr> = (Ok reply, s') \<and>
     dm_id reply = 77 \<and> dm_queries reply = dm_queries example_answer"
proof -
  have "hickory_ok example_hickory"
    by (auto simp: hickory_ok_def example_hickory_def split: if_splits) (simp_all add: example_answer_def)
  moreover have "serving example_hickory \<lparr>fw_world = (), fw_cache = cache_new\<rparr>"
    unfolding serving_def by (intro exI [of _ "[]"]) (simp add: fresh_cache answers_key_def)
  ultimately show ?thesis
    using exchange_replies_to_request [of example_hickory "\<lparr>fw_world = (), fw_cache = cache_new\<rparr>" example_upstream 1 example_request second]
    by (auto simp: replies_to_def example_request_def)
qed

section \<open>Soundness of name-service answers\<close>

text \<open>The owners reached from a name through the aliases of an answer.\<close>

inductive aliased :: "'n rr list \<Rightarrow> 'n \<Rightarrow> 'n \<Rightarrow> bool" for answers :: "'n rr list" and name :: 'n where
  same: "aliased answers name name"
| via: "aliased answers name owner \<Longrightarrow> r \<in> set answers \<Longrightarrow> rr_name r = owner \<Longrightarrow> rr_data r = RdCNAME target \<Longrightarrow>
    aliased answers name target"

lemma alias_target_Some:
  "alias_target name answers = Some target \<Longrightarrow> \<exists>r\<in>set answers. rr_name r = name \<and> rr_data r = RdCNAME target"
  by (induction answers) (auto split: if_splits rdata.splits)

definition address_record :: "u16 \<Rightarrow> ip_addr \<Rightarrow> 'n rr \<Rightarrow> bool" where
  "address_record kind ip r \<longleftrightarrow>
     (case ip of V4 o4 \<Rightarrow> kind = TYPE_A \<and> rr_data r = RdA o4 | V6 o6 \<Rightarrow> kind = TYPE_AAAA \<and> rr_data r = RdAAAA o6)"

lemma address_of_Some: "address_of name kind r = Some ip \<longleftrightarrow> rr_name r = name \<and> address_record kind ip r"
  by (auto simp: address_of_def address_record_def split: rdata.splits ip_addr.splits)

lemma in_map_filter: "y \<in> set (List.map_filter f xs) \<longleftrightarrow> (\<exists>x\<in>set xs. f x = Some y)"
  by (induction xs) (auto simp: map_filter_simps split: option.splits)

lemma follow_aliases_sound:
  assumes "ip \<in> set (follow_aliases n visited owner kind answers)" "aliased answers name owner"
  shows "\<exists>r\<in>set answers. aliased answers name (rr_name r) \<and> address_record kind ip r"
  using assms
proof (induction n arbitrary: visited owner)
  case (Suc n)
  show ?case
  proof (cases "alias_target owner answers")
    case None
    then show ?thesis using Suc.prems
      by (auto simp: in_map_filter address_of_Some dest!: in_set_takeD split: if_splits)
  next
    case (Some target)
    then have "aliased answers name target" using alias_target_Some [OF Some] Suc.prems(2) by (auto intro: via)
    then show ?thesis using Suc.IH [of "visited @ [owner]" target] Suc.prems(1) Some by (auto split: if_splits)
  qed
qed simp

lemma length_follow_aliases: "length (follow_aliases n visited owner kind answers) \<le> MAX_ADDRESSES"
  by (induction n visited owner kind answers rule: follow_aliases.induct) (auto split: option.splits)

end
