(* ===== verification/Nss_Stream.thy ===== *)
theory Nss_Stream
  imports Dns_Wire Op_Hoare "HOL-Library.Sublist"
begin

text \<open>
  How the name-service module talks to the local resolver (\<open>lookup\<close> in \<open>crates/net/nss-drv/src/safe.rs\<close>): one request
  and one response over a non-blocking stream socket, with a deadline. The kernel's calls are a parameter, with error
  numbers as those of Linux; times are in nanoseconds.
\<close>

section \<open>The exchange on the socket\<close>

abbreviation EINTR :: int where "EINTR \<equiv> 4"
abbreviation EIO :: int where "EIO \<equiv> 5"
abbreviation EAGAIN :: int where "EAGAIN \<equiv> 11"
abbreviation EINVAL :: int where "EINVAL \<equiv> 22"
abbreviation ETIMEDOUT :: int where "ETIMEDOUT \<equiv> 110"

text \<open>The calls: the clock, opening and connecting the socket, a write that returns how many bytes it took, a read of at
  most so many bytes, and a wait until the socket can be written (or read) that returns how many descriptors are ready.\<close>

record 'k stream_kernel =
  sk_now :: "'k \<Rightarrow> nat \<times> 'k"
  sk_open :: "('k, int, unit) op"
  sk_write :: "bytes \<Rightarrow> ('k, int, nat) op"
  sk_read :: "nat \<Rightarrow> ('k, int, bytes) op"
  sk_poll :: "bool \<Rightarrow> nat \<Rightarrow> ('k, int, nat) op"

text \<open>An I/O error: of kind \<open>TimedOut\<close> or \<open>WouldBlock\<close>, or of another kind, with its error number if it came from the
  kernel.\<close>

datatype io_failure = TimedOut | OtherFailure "int option"

definition io_errno :: "int \<Rightarrow> io_failure" where
  "io_errno e = (if e = EAGAIN \<or> e = ETIMEDOUT then TimedOut else OtherFailure (Some e))"

definition read_clock :: "'k stream_kernel \<Rightarrow> ('k, 'e, nat) op" where
  "read_clock k s = (case sk_now k s of (t, s') \<Rightarrow> (Ok t, s'))"

definition LOOKUP_TIMEOUT :: nat where "LOOKUP_TIMEOUT = 5 * 10 ^ 9"

definition wait_ready :: "'k stream_kernel \<Rightarrow> nat \<Rightarrow> bool \<Rightarrow> ('k, io_failure, unit) op" where
  "wait_ready k deadline writing = st_then (read_clock k) (\<lambda>now.
     let left = deadline - now in
     if left = 0 then st_return (Err TimedOut)
     else if left div 10 ^ 9 \<ge> 2 ^ 63 then st_return (Err (OtherFailure None))
     else st_match (sk_poll k writing left)
       (\<lambda>n. if n = 0 then st_return (Err TimedOut) else st_return (Ok ()))
       (\<lambda>e. if e = EINTR then st_return (Ok ()) else st_return (Err (io_errno e))))"

definition transfer_once :: "'k stream_kernel \<Rightarrow> nat \<Rightarrow> bool \<Rightarrow> bytes \<Rightarrow> nat \<Rightarrow> ('k, io_failure, bytes \<times> nat) op" where
  "transfer_once k deadline writing buffer offset = st_match
     (if writing then st_then (sk_write k (drop offset buffer)) (\<lambda>n. st_return (Ok (buffer, n)))
      else st_then (sk_read k (length buffer - offset)) (\<lambda>bs. st_return (Ok (overwrite offset bs buffer, length bs))))
     (\<lambda>(buffer, n). if n = 0 then st_return (Err (OtherFailure None)) else st_return (Ok (buffer, offset + n)))
     (\<lambda>e. if e = EINTR then st_return (Ok (buffer, offset))
          else if e = EAGAIN then st_then (wait_ready k deadline writing) (\<lambda>_. st_return (Ok (buffer, offset)))
          else st_return (Err (io_errno e)))"

partial_function (option) transfer_buffer ::
  "'k stream_kernel \<Rightarrow> nat \<Rightarrow> bool \<Rightarrow> bytes \<Rightarrow> nat \<Rightarrow> 'k \<Rightarrow> ((io_failure, bytes) res \<times> 'k) option" where
  "transfer_buffer k deadline writing buffer offset s =
     (if offset < length buffer then
        (case st_then (transfer_once k deadline writing buffer offset) (\<lambda>x. st_then (read_clock k) (\<lambda>now.
                if deadline \<le> now then st_return (Err TimedOut) else st_return (Ok x))) s of
           (Ok (buffer, offset), s) \<Rightarrow> transfer_buffer k deadline writing buffer offset s
         | (Err e, s) \<Rightarrow> Some (Err e, s)
         | (Panic, s) \<Rightarrow> Some (Panic, s))
      else Some (Ok buffer, s))"

definition nss_transfer :: "'k stream_kernel \<Rightarrow> bytes \<Rightarrow> 'k \<Rightarrow> ((io_failure, bytes) res \<times> 'k) option" where
  "nss_transfer k request s =
     (case st_then (read_clock k) (\<lambda>now. st_then (st_map_err io_errno (sk_open k)) (\<lambda>_. st_return (Ok (now + LOOKUP_TIMEOUT)))) s of
        (Ok deadline, s) \<Rightarrow>
          (case transfer_buffer k deadline True request 0 s of
             Some (Ok _, s) \<Rightarrow> transfer_buffer k deadline False (replicate RESPONSE_LEN 0) 0 s
           | failed \<Rightarrow> failed)
      | (Err e, s) \<Rightarrow> Some (Err e, s)
      | (Panic, s) \<Rightarrow> Some (Panic, s))"

definition lookup :: "'k stream_kernel \<Rightarrow> bytes \<Rightarrow> 'k \<Rightarrow> ((io_failure, u8 + ip_addr list) res \<times> 'k) option" where
  "lookup k name s =
     (case dns_request name of
        Ok request \<Rightarrow>
          (case nss_transfer k request s of
             None \<Rightarrow> None
           | Some (Ok response, s) \<Rightarrow>
               Some (case dns_addresses response of Ok x \<Rightarrow> Ok x | Err _ \<Rightarrow> Err (OtherFailure None) | Panic \<Rightarrow> Panic, s)
           | Some (Err e, s) \<Rightarrow> Some (Err e, s)
           | Some (Panic, s) \<Rightarrow> Some (Panic, s))
      | Err _ \<Rightarrow> Some (Err (io_errno EINVAL), s)
      | Panic \<Rightarrow> Some (Panic, s))"

section \<open>What a stream socket promises\<close>

text \<open>
  A connected stream carries what was written to the peer and what the peer sent back. Its history in a state is the bytes
  written and the bytes read. A call that fails moves nothing, a write takes a prefix of its bytes, a read
  returns at most what was asked for, and what was read is always a prefix of what the peer answers to what was written.
  Every reading of the clock is later than the one before.
\<close>

record 'k history =
  hi_written :: "'k \<Rightarrow> bytes"
  hi_received :: "'k \<Rightarrow> bytes"
  hi_clock :: "'k \<Rightarrow> nat"
  hi_peer :: "bytes \<Rightarrow> bytes"

definition at_history :: "'k history \<Rightarrow> bytes \<Rightarrow> bytes \<Rightarrow> nat \<Rightarrow> 'k \<Rightarrow> bool" where
  "at_history h w r c s \<longleftrightarrow> hi_written h s = w \<and> hi_received h s = r \<and> c \<le> hi_clock h s"

definition socket_ok :: "'k stream_kernel \<Rightarrow> 'k history \<Rightarrow> bool" where
  "socket_ok k h \<longleftrightarrow>
     (\<forall>w r c. triple (at_history h w r c) (read_clock k) (\<lambda>t s. at_history h w r (Suc c) s \<and> t = hi_clock h s) (\<lambda>_ :: unit. \<lambda>_. False)) \<and>
     (\<forall>c. triple (\<lambda>s. c \<le> hi_clock h s) (sk_open k) (\<lambda>_. at_history h [] [] c) (\<lambda>_ _. True)) \<and>
     (\<forall>bs w r c. triple (at_history h w r c) (sk_write k bs)
        (\<lambda>n s. n \<le> length bs \<and> at_history h (w @ take n bs) r c s) (\<lambda>_. at_history h w r c)) \<and>
     (\<forall>n w r c. triple (\<lambda>s. at_history h w r c s \<and> prefix r (hi_peer h w)) (sk_read k n)
        (\<lambda>bs s. length bs \<le> n \<and> at_history h w (r @ bs) c s \<and> prefix (r @ bs) (hi_peer h w)) (\<lambda>_. at_history h w r c)) \<and>
     (\<forall>d left w r c. triple (at_history h w r c) (sk_poll k d left) (\<lambda>_. at_history h w r c) (\<lambda>_. at_history h w r c))"

lemma socket_okD:
  assumes "socket_ok k h"
  shows "triple (at_history h w r c) (read_clock k) (\<lambda>t s. at_history h w r (Suc c) s \<and> t = hi_clock h s) E"
    "triple (\<lambda>s. c \<le> hi_clock h s) (sk_open k) (\<lambda>_. at_history h [] [] c) (\<lambda>_ _. True)"
    "triple (at_history h w r c) (sk_write k bs)
       (\<lambda>n s. n \<le> length bs \<and> at_history h (w @ take n bs) r c s) (\<lambda>_. at_history h w r c)"
    "triple (\<lambda>s. at_history h w r c s \<and> prefix r (hi_peer h w)) (sk_read k n)
       (\<lambda>bs s. length bs \<le> n \<and> at_history h w (r @ bs) c s \<and> prefix (r @ bs) (hi_peer h w)) (\<lambda>_. at_history h w r c)"
    "triple (at_history h w r c) (sk_poll k d left) (\<lambda>_. at_history h w r c) (\<lambda>_. at_history h w r c)"
  using assms by (simp_all add: socket_ok_def triple_def read_clock_def split: prod.splits)

lemma at_history_mono: "at_history h w r c s \<Longrightarrow> c' \<le> c \<Longrightarrow> at_history h w r c' s"
  by (simp add: at_history_def)

lemma wait_ready_triple:
  assumes "socket_ok k h"
  shows "triple (at_history h w r c) (wait_ready k deadline writing) (\<lambda>_. at_history h w r c) (\<lambda>_ _. True)"
proof -
  have p: "triple (at_history h w r c) (sk_poll k writing left) (\<lambda>_. at_history h w r c) (\<lambda>_. at_history h w r c)" for left
    by (rule socket_okD(5) [OF assms])
  have "triple (\<lambda>s. at_history h w r (Suc c) s \<and> t = hi_clock h s)
      (let left = deadline - t in
       if left = 0 then st_return (Err TimedOut)
       else if left div 10 ^ 9 \<ge> 2 ^ 63 then st_return (Err (OtherFailure None))
       else st_match (sk_poll k writing left)
         (\<lambda>n. if n = 0 then st_return (Err TimedOut) else st_return (Ok ()))
         (\<lambda>e. if e = EINTR then st_return (Ok ()) else st_return (Err (io_errno e))))
      (\<lambda>_. at_history h w r c) (\<lambda>_ _. True)" for t
    unfolding Let_def
  proof (rule triple_pre)
    show "triple (at_history h w r c)
      (if deadline - t = 0 then st_return (Err TimedOut)
       else if (deadline - t) div 10 ^ 9 \<ge> 2 ^ 63 then st_return (Err (OtherFailure None))
       else st_match (sk_poll k writing (deadline - t))
         (\<lambda>n. if n = 0 then st_return (Err TimedOut) else st_return (Ok ()))
         (\<lambda>e. if e = EINTR then st_return (Ok ()) else st_return (Err (io_errno e))))
      (\<lambda>_. at_history h w r c) (\<lambda>_ _. True)"
      by (intro triple_if triple_return triple_match [OF p]) simp_all
  qed (simp add: at_history_def)
  then show ?thesis unfolding wait_ready_def by (rule triple_then [OF socket_okD(1) [OF assms]])
qed

text \<open>While a buffer is moved, the history is what was moved before and the first \<open>offset\<close> bytes of the buffer.\<close>

definition moved :: "'k history \<Rightarrow> bytes \<Rightarrow> bool \<Rightarrow> bytes \<Rightarrow> nat \<Rightarrow> nat \<Rightarrow> 'k \<Rightarrow> bool" where
  "moved h request writing buffer offset c s \<longleftrightarrow> offset \<le> length buffer \<and>
     (if writing then buffer = request \<and> at_history h (take offset request) [] c s
      else at_history h request (take offset buffer) c s \<and> prefix (take offset buffer) (hi_peer h request))"

lemma moved_mono: "moved h q writing b i c s \<Longrightarrow> c' \<le> c \<Longrightarrow> moved h q writing b i c' s"
  by (auto simp: moved_def intro: at_history_mono)

lemma moved_clock: "moved h q writing b i c s \<Longrightarrow> c \<le> hi_clock h s"
  by (auto simp: moved_def at_history_def split: if_splits)

lemma wait_moved:
  assumes "socket_ok k h"
  shows "triple (moved h q writing b i c) (wait_ready k deadline d) (\<lambda>_. moved h q writing b i c) (\<lambda>_ _. True)"
  using wait_ready_triple [OF assms, of _ _ c deadline d]
  by (cases writing) (fastforce simp: moved_def triple_def split: prod.splits res.splits)+

lemma clock_moved:
  assumes "socket_ok k h"
  shows "triple (moved h q writing b i c) (read_clock k) (\<lambda>t s. moved h q writing b i (Suc c) s \<and> t = hi_clock h s) E"
  using socket_okD(1) [OF assms, of _ _ c E]
  by (cases writing) (fastforce simp: moved_def triple_def split: prod.splits res.splits)+

lemma call_moved:
  assumes "socket_ok k h" "i < length b"
  shows "triple (moved h q writing b i c)
    (if writing then st_then (sk_write k (drop i b)) (\<lambda>n. st_return (Ok (b, n)))
     else st_then (sk_read k (length b - i)) (\<lambda>bs. st_return (Ok (overwrite i bs b, length bs))))
    (\<lambda>(b', n) s. moved h q writing b' (i + n) c s \<and> length b' = length b) (\<lambda>_. moved h q writing b i c)"
    (is "triple _ _ _ ?E")
proof (cases writing)
  case True
  have "triple (\<lambda>s. at_history h (take i q) [] c s \<and> b = q) (sk_write k (drop i b)) (\<lambda>n s. moved h q writing b (i + n) c s) ?E"
    by (rule triple_pure, rule triple_weaken [OF socket_okD(3) [OF assms(1)]])
      (use assms(2) True in \<open>auto simp: moved_def take_add\<close>)
  then show ?thesis using True assms(2)
    by (simp, intro triple_then) (erule triple_pre, auto simp: moved_def intro: triple_return)
next
  case False
  have "triple (\<lambda>s. at_history h q (take i b) c s \<and> prefix (take i b) (hi_peer h q)) (sk_read k (length b - i))
      (\<lambda>bs s. moved h q writing (overwrite i bs b) (i + length bs) c s \<and> length (overwrite i bs b) = length b) ?E"
    by (rule triple_pure, rule triple_weaken [OF socket_okD(4) [OF assms(1)]])
      (use assms(2) False in \<open>auto simp: moved_def overwrite_def\<close>)
  then show ?thesis using False assms(2)
    by (simp, intro triple_then) (erule triple_pre, auto simp: moved_def intro: triple_return)
qed

lemma transfer_once_triple:
  assumes "socket_ok k h" "i < length b"
  shows "triple (moved h q writing b i c) (transfer_once k deadline writing b i)
    (\<lambda>(b', i') s. moved h q writing b' i' c s \<and> length b' = length b) (\<lambda>_ _. True)"
proof -
  have "triple (moved h q writing b i c) (st_then (wait_ready k deadline writing) (\<lambda>_. st_return (Ok (b, i))))
    (\<lambda>(b', i') s. moved h q writing b' i' c s \<and> length b' = length b) (\<lambda>_ _. True)"
    by (rule triple_then [OF wait_moved [OF assms(1)]]) (auto intro: triple_return)
  then show ?thesis
    unfolding transfer_once_def
    by (intro triple_match [OF call_moved [OF assms]] triple_if)
      (auto intro: triple_return split: prod.splits)
qed

text \<open>A transfer ends: it fails, or it has moved the whole buffer.\<close>

definition ended :: "'k history \<Rightarrow> bytes \<Rightarrow> bool \<Rightarrow> nat \<Rightarrow> nat \<Rightarrow> (io_failure, bytes) res \<Rightarrow> 'k \<Rightarrow> bool" where
  "ended h q writing n c r s = (case r of Ok b \<Rightarrow> length b = n \<and> moved h q writing b n c s | Err _ \<Rightarrow> True | Panic \<Rightarrow> False)"

lemma ended_mono: "ended h q writing n c r s \<Longrightarrow> c' \<le> c \<Longrightarrow> ended h q writing n c' r s"
  by (auto simp: ended_def intro: moved_mono split: res.splits)

lemma transfer_round_triple:
  assumes "socket_ok k h" "i < length b"
  shows "triple (moved h q writing b i c)
    (st_then (transfer_once k deadline writing b i) (\<lambda>x. st_then (read_clock k) (\<lambda>now.
       if deadline \<le> now then st_return (Err TimedOut) else st_return (Ok x))))
    (\<lambda>(b', i') s. moved h q writing b' i' (Suc c) s \<and> length b' = length b \<and> c < deadline) (\<lambda>_ _. True)"
proof (rule triple_then [OF transfer_once_triple [OF assms]])
  fix x
  show "triple (case x of (b', i') \<Rightarrow> \<lambda>s. moved h q writing b' i' c s \<and> length b' = length b)
      (st_then (read_clock k) (\<lambda>now. if deadline \<le> now then st_return (Err TimedOut) else st_return (Ok x)))
      (\<lambda>(b', i') s. moved h q writing b' i' (Suc c) s \<and> length b' = length b \<and> c < deadline) (\<lambda>_ _. True)"
    by (cases x, simp, rule triple_pure, rule triple_then [OF clock_moved [OF assms(1)]])
      (auto intro!: triple_if triple_return dest: moved_clock)
qed

lemma transfer_buffer_ends:
  assumes "socket_ok k h" "moved h q writing b i c s"
  shows "\<exists>r s'. transfer_buffer k deadline writing b i s = Some (r, s') \<and> ended h q writing (length b) c r s'"
  using assms(2)
proof (induction "deadline - c" arbitrary: c b i s rule: less_induct)
  case less
  show ?case
  proof (cases "i < length b")
    case True
    let ?m = "st_then (transfer_once k deadline writing b i) (\<lambda>x. st_then (read_clock k) (\<lambda>now.
      if deadline \<le> now then st_return (Err TimedOut) else st_return (Ok x)))"
    note t = transfer_round_triple [OF assms(1) True, of q writing c deadline]
    obtain r t where m: "?m s = (r, t)" by fastforce
    show ?thesis
    proof (cases r)
      case (Ok x)
      obtain b' i' where x: "x = (b', i')" by fastforce
      with tripleD(2) [OF t less.prems] m Ok have n: "moved h q writing b' i' (Suc c) t" "length b' = length b" "c < deadline" by fastforce+
      from n(3) have "deadline - Suc c < deadline - c" by simp
      from less.hyps [OF this n(1)] obtain r' s' where e: "transfer_buffer k deadline writing b' i' t = Some (r', s')"
        "ended h q writing (length b') (Suc c) r' s'" by blast
      from ended_mono [OF e(2), of c] show ?thesis
        using True m Ok x n(2) e(1) by (subst transfer_buffer.simps) simp
    next
      case (Err e)
      then show ?thesis using True m by (subst transfer_buffer.simps) (simp add: ended_def)
    next
      case Panic
      then show ?thesis using tripleD(1) [OF t less.prems] m by simp
    qed
  next
    case False
    then have "i = length b" using less.prems by (simp add: moved_def)
    then show ?thesis using less.prems by (subst transfer_buffer.simps) (simp add: ended_def)
  qed
qed

lemma nss_transfer_ends:
  assumes "socket_ok k h"
  shows "\<exists>r s'. nss_transfer k q s = Some (r, s') \<and>
    (case r of Ok response \<Rightarrow> length response = RESPONSE_LEN \<and> prefix response (hi_peer h q) | Err _ \<Rightarrow> True | Panic \<Rightarrow> False)"
proof -
  let ?m = "st_then (read_clock k) (\<lambda>now. st_then (st_map_err io_errno (sk_open k)) (\<lambda>_. st_return (Ok (now + LOOKUP_TIMEOUT))))"
  have t: "triple (\<lambda>s. True) ?m (\<lambda>_. at_history h [] [] 0) (\<lambda>_ _. True)"
  proof (rule triple_then)
    show "triple (\<lambda>s. True) (read_clock k) (\<lambda>_ s. 0 \<le> hi_clock h s) (\<lambda>_ _. True)"
      by (simp add: triple_def read_clock_def split: prod.splits)
    show "triple (\<lambda>s. 0 \<le> hi_clock h s) (st_then (st_map_err io_errno (sk_open k)) (\<lambda>_. st_return (Ok (now + LOOKUP_TIMEOUT))))
        (\<lambda>_. at_history h [] [] 0) (\<lambda>_ _. True)" for now
      by (rule triple_then, rule triple_map_err, rule socket_okD(2) [OF assms]) (rule triple_return, assumption)
  qed
  obtain r t where m: "?m s = (r, t)" by fastforce
  show ?thesis
  proof (cases r)
    case (Ok deadline)
    with tripleD(2) [OF t TrueI] m have "moved h q True q 0 0 t" by (simp add: moved_def)
    from transfer_buffer_ends [OF assms this, of deadline] obtain r1 t1 where
      w: "transfer_buffer k deadline True q 0 t = Some (r1, t1)" "ended h q True (length q) 0 r1 t1" by blast
    show ?thesis
    proof (cases r1)
      case (Ok b)
      with w(2) have "moved h q False (replicate RESPONSE_LEN 0) 0 0 t1" by (auto simp: ended_def moved_def)
      from transfer_buffer_ends [OF assms this, of deadline] obtain r2 t2 where
        r: "transfer_buffer k deadline False (replicate RESPONSE_LEN 0) 0 t1 = Some (r2, t2)" "ended h q False RESPONSE_LEN 0 r2 t2" by auto
      then show ?thesis using m w(1) \<open>r = _\<close> Ok
        by (auto simp: nss_transfer_def ended_def moved_def at_history_def split: res.splits)
    qed (use m w \<open>r = _\<close> in \<open>auto simp: nss_transfer_def ended_def\<close>)
  next
    case (Err e)
    then show ?thesis using m by (simp add: nss_transfer_def)
  next
    case Panic
    then show ?thesis using tripleD(1) [OF t TrueI, of s] m by simp
  qed
qed

end
