(* ===== verification/Nss_Resolve.thy ===== *)
theory Nss_Resolve
  imports Dns_Service Nss_Stream
begin

text \<open>
  The name-service module (\<open>crates/net/nss-drv/src/safe.rs\<close>): resolution through the local socket and the layout of
  the answer in the caller's buffer. Error numbers are those of Linux.
\<close>

section \<open>Resolution\<close>

abbreviation AF_INET :: int where "AF_INET \<equiv> 2"
abbreviation AF_INET6 :: int where "AF_INET6 \<equiv> 10"
abbreviation ERANGE :: int where "ERANGE \<equiv> 34"
abbreviation EAFNOSUPPORT :: int where "EAFNOSUPPORT \<equiv> 97"

record failure =
  nf_status :: int
  nf_errno :: int
  nf_herrno :: int

definition INVALID :: failure where "INVALID = \<lparr>nf_status = -1, nf_errno = EINVAL, nf_herrno = 3\<rparr>"
definition INTERNAL :: failure where "INTERNAL = \<lparr>nf_status = -1, nf_errno = EIO, nf_herrno = 3\<rparr>"
definition RANGE :: failure where "RANGE = \<lparr>nf_status = -2, nf_errno = ERANGE, nf_herrno = 2\<rparr>"

record host =
  ho_name :: bytes
  ho_addresses :: "ip_addr list"
  ho_family :: int

definition is_ipv4 :: "ip_addr \<Rightarrow> bool" where
  "is_ipv4 ip = (case ip of V4 _ \<Rightarrow> True | V6 _ \<Rightarrow> False)"

text \<open>What becomes of the outcome of a lookup.\<close>

definition resolution :: "bytes \<Rightarrow> int \<Rightarrow> (io_failure, u8 + ip_addr list) res \<Rightarrow> (failure, host) res" where
  "resolution name family found =
     (case found of
        Panic \<Rightarrow> Panic
      | Err TimedOut \<Rightarrow> Err \<lparr>nf_status = -2, nf_errno = EAGAIN, nf_herrno = 2\<rparr>
      | Err (OtherFailure n) \<Rightarrow> Err (INTERNAL\<lparr>nf_errno := (case n of None \<Rightarrow> EIO | Some n \<Rightarrow> n)\<rparr>)
      | Ok (Inl status) \<Rightarrow>
          if status = NOT_FOUND then Err \<lparr>nf_status = 0, nf_errno = 0, nf_herrno = 1\<rparr>
          else if status = TEMPORARY then Err \<lparr>nf_status = -2, nf_errno = EAGAIN, nf_herrno = 2\<rparr>
          else Err INTERNAL
      | Ok (Inr ips) \<Rightarrow>
          let ips = filter (\<lambda>ip. is_ipv4 ip = (family = AF_INET)) ips in
          if ips = [] then Err \<lparr>nf_status = 0, nf_errno = 0, nf_herrno = 4\<rparr>
          else Ok \<lparr>ho_name = name, ho_addresses = ips, ho_family = family\<rparr>)"

definition resolve :: "'k stream_kernel \<Rightarrow> bytes \<Rightarrow> int \<Rightarrow> 'k \<Rightarrow> ((failure, host) res \<times> 'k) option" where
  "resolve k name family s =
     (if family \<noteq> AF_INET \<and> family \<noteq> AF_INET6 then Some (Err \<lparr>nf_status = -1, nf_errno = EAFNOSUPPORT, nf_herrno = 4\<rparr>, s)
      else if (case dns_request name of Ok _ \<Rightarrow> False | _ \<Rightarrow> True) then Some (Err INVALID, s)
      else map_option (\<lambda>(found, s). (resolution name family found, s)) (lookup k name s))"

section \<open>Layout in the caller's buffer\<close>

record nss_layout =
  nl_name :: nat
  nl_aliases :: nat
  nl_list :: nat
  nl_addresses :: "nat list"
  nl_family :: int
  nl_address_length :: int

text \<open>A buffer at an address; \<open>None\<close> is an uninitialised byte. An alignment is a power of two, so that clearing the low
  bits of an address rounds it down to a multiple.\<close>

record nss_buffer =
  nb_base :: nat
  nb_bytes :: "u8 option list"
  nb_used :: nat

definition buffer_reserve :: "nat \<Rightarrow> nat \<Rightarrow> (nss_buffer, unit, nat) op" where
  "buffer_reserve len alignment b =
     (case Option.bind (checked_add (nb_base b) (nb_used b)) (\<lambda>x. Option.bind (checked_add x (alignment - 1)) (\<lambda>x.
           Option.bind (checked_sub (x - x mod alignment) (nb_base b)) (\<lambda>offset. Option.bind (checked_add offset len) (\<lambda>stop.
             if offset \<le> stop \<and> stop \<le> length (nb_bytes b) then Some (offset, stop) else None)))) of
        None \<Rightarrow> (Err (), b)
      | Some (offset, stop) \<Rightarrow> (Ok offset, b\<lparr>nb_used := stop\<rparr>))"

definition buffer_copy :: "bytes \<Rightarrow> (nss_buffer, unit, nat) op" where
  "buffer_copy bs = st_then (buffer_reserve (length bs) 1) (\<lambda>offset b.
     (Ok offset, b\<lparr>nb_bytes := overwrite offset (map Some bs) (nb_bytes b)\<rparr>))"

fun copy_addresses :: "ip_addr list \<Rightarrow> (nss_buffer, unit, nat list) op" where
  "copy_addresses [] = st_return (Ok [])"
| "copy_addresses (ip # ips) = st_then (buffer_copy (octets ip)) (\<lambda>i. st_then (copy_addresses ips) (\<lambda>is. st_return (Ok (i # is))))"

definition POINTER :: nat where "POINTER = 8"

definition pack :: "host \<Rightarrow> (nss_buffer, failure, nss_layout) op" where
  "pack host = st_map_err (\<lambda>_. RANGE) (
     st_then (buffer_copy (ho_name host @ [0])) (\<lambda>name.
     st_then (buffer_reserve POINTER POINTER) (\<lambda>aliases.
     st_then (st_return (ok_or (checked_mul (length (ho_addresses host) + 1) POINTER) ())) (\<lambda>size.
     st_then (buffer_reserve size POINTER) (\<lambda>list.
     st_then (copy_addresses (ho_addresses host)) (\<lambda>addresses.
       st_return (Ok \<lparr>nl_name = name, nl_aliases = aliases, nl_list = list, nl_addresses = addresses,
         nl_family = ho_family host, nl_address_length = (if ho_family host = AF_INET then 4 else 16)\<rparr>)))))))"

section \<open>Where things are placed\<close>

lemma reserve_Ok:
  assumes "buffer_reserve len a b = (Ok off, b')" "0 < a"
  shows "nb_used b \<le> off \<and> off + len \<le> length (nb_bytes b) \<and> b' = b\<lparr>nb_used := off + len\<rparr> \<and> (nb_base b + off) mod a = 0"
proof -
  define x where "x = nb_base b + nb_used b + (a - 1)"
  define y where "y = x - x mod a"
  have r: "nb_base b \<le> y" "off = y - nb_base b" "off + len \<le> length (nb_bytes b)" "b' = b\<lparr>nb_used := off + len\<rparr>"
    using assms(1) by (auto simp: x_def y_def buffer_reserve_def bind_eq_Some_conv checked_add_def checked_sub_def
        split: option.splits if_splits)
  have "x mod a < a" by (rule mod_less_divisor [OF assms(2)])
  then have "nb_base b + nb_used b \<le> y" unfolding x_def y_def by linarith
  moreover have "y mod a = 0" using minus_mod_eq_mult_div [of x a] by (simp add: y_def)
  moreover have "nb_base b + off = y" using r by simp
  ultimately show ?thesis using r by simp
qed

text \<open>A region of the buffer: where it starts and how long it is. Regions in order do not overlap.\<close>

fun in_order :: "nat \<Rightarrow> (nat \<times> nat) list \<Rightarrow> nat \<Rightarrow> bool" where
  "in_order low [] high \<longleftrightarrow> low \<le> high"
| "in_order low ((start, len) # rs) high \<longleftrightarrow> low \<le> start \<and> in_order (start + len) rs high"

lemma in_order_mono: "in_order low rs high \<Longrightarrow> high \<le> high' \<Longrightarrow> in_order low rs high'"
  by (induction low rs high rule: in_order.induct) auto

lemma copy_Ok:
  assumes "buffer_copy bs b = (Ok off, b')"
  shows "nb_used b \<le> off \<and> off + length bs \<le> length (nb_bytes b) \<and> nb_used b' = off + length bs \<and> nb_base b' = nb_base b \<and>
    nb_bytes b' = overwrite off (map Some bs) (nb_bytes b)"
  using assms reserve_Ok [of "length bs" 1 b off] by (auto simp: buffer_copy_def st_then_eq_Ok)

lemma take_overwrite:
  "n \<le> off \<Longrightarrow> off + length ys \<le> length xs \<Longrightarrow> take n (overwrite off ys xs) = take n xs"
  "off + length ys \<le> length xs \<Longrightarrow> take (length ys) (drop off (overwrite off ys xs)) = ys"
  by (simp_all add: overwrite_def)

lemma copy_addresses_Ok:
  assumes "copy_addresses ips b = (Ok is, b')" "nb_used b \<le> length (nb_bytes b)"
  shows "in_order (nb_used b) (zip is (map (length \<circ> octets) ips)) (length (nb_bytes b)) \<and>
    length (nb_bytes b') = length (nb_bytes b) \<and> take (nb_used b) (nb_bytes b') = take (nb_used b) (nb_bytes b) \<and>
    list_all2 (\<lambda>i ip. take (length (octets ip)) (drop i (nb_bytes b')) = map Some (octets ip)) is ips"
  using assms
proof (induction ips arbitrary: b "is")
  case (Cons ip ips)
  then obtain i js c where c: "buffer_copy (octets ip) b = (Ok i, c)" "copy_addresses ips c = (Ok js, b')" "is = i # js"
    by (auto simp: st_then_eq_Ok st_return_def)
  note f = copy_Ok [OF c(1)]
  have l: "length (nb_bytes c) = length (nb_bytes b)" using f by simp
  note h = Cons.IH [OF c(2)]
  have u: "nb_used c = i + length (octets ip)" using f by simp
  have "take (nb_used b) (nb_bytes b') = take (nb_used b) (take (nb_used c) (nb_bytes b'))" using f by (simp add: min_def)
  also have "\<dots> = take (nb_used b) (nb_bytes c)" using h f l by (simp add: min_def)
  also have "\<dots> = take (nb_used b) (nb_bytes b)" using f by (simp add: take_overwrite)
  finally have t: "take (nb_used b) (nb_bytes b') = take (nb_used b) (nb_bytes b)" .
  have "take (length (octets ip)) (drop i (nb_bytes b')) = drop i (take (nb_used c) (nb_bytes b'))" using u by (simp add: take_drop add.commute)
  also have "\<dots> = drop i (take (nb_used c) (nb_bytes c))" using h f l by simp
  also have "\<dots> = map Some (octets ip)"
    using f take_overwrite(2) [of i "map Some (octets ip)" "nb_bytes b"] u by (simp add: take_drop add.commute)
  finally show ?case using h t f l c(3) by simp
qed (simp add: st_return_def)

text \<open>The regions of a layout: name, alias list, address list, addresses.\<close>

definition regions :: "host \<Rightarrow> nss_layout \<Rightarrow> (nat \<times> nat) list" where
  "regions host l = (nl_name l, length (ho_name host) + 1) # (nl_aliases l, POINTER) #
     (nl_list l, (length (ho_addresses host) + 1) * POINTER) # zip (nl_addresses l) (map (length \<circ> octets) (ho_addresses host))"

lemma pack_Ok:
  assumes "pack host b = (Ok l, b')" "nb_used b = 0"
  shows "in_order 0 (regions host l) (length (nb_bytes b)) \<and> length (nl_addresses l) = length (ho_addresses host) \<and>
    (nb_base b + nl_aliases l) mod POINTER = 0 \<and> (nb_base b + nl_list l) mod POINTER = 0 \<and>
    list_all2 (\<lambda>i ip. take (length (octets ip)) (drop i (nb_bytes b')) = map Some (octets ip)) (nl_addresses l) (ho_addresses host) \<and>
    take (length (ho_name host) + 1) (drop (nl_name l) (nb_bytes b')) = map Some (ho_name host @ [0])"
proof -
  obtain name aliases list addresses c1 c2 c3 where
    c: "buffer_copy (ho_name host @ [0]) b = (Ok name, c1)" "buffer_reserve POINTER POINTER c1 = (Ok aliases, c2)"
      "buffer_reserve ((length (ho_addresses host) + 1) * POINTER) POINTER c2 = (Ok list, c3)"
      "copy_addresses (ho_addresses host) c3 = (Ok addresses, b')"
    and l: "nl_name l = name" "nl_aliases l = aliases" "nl_list l = list" "nl_addresses l = addresses"
    using assms(1)
    by (auto simp: pack_def st_map_err_def st_match_def st_then_eq_Ok st_return_def checked_mul_def split: prod.splits res.splits if_splits)
  note f = copy_Ok [OF c(1)] and g = reserve_Ok [OF c(2)] and h = reserve_Ok [OF c(3)]
  have a: "nb_used c3 \<le> length (nb_bytes c3)" using h by (simp add: POINTER_def)
  note k = copy_addresses_Ok [OF c(4) a]
  have bytes: "nb_bytes c3 = nb_bytes c1" "length (nb_bytes c1) = length (nb_bytes b)" "nb_base c2 = nb_base b" "nb_base c1 = nb_base b"
    using f g h by (auto simp: POINTER_def)
  have "take (length (ho_name host) + 1) (drop name (nb_bytes b')) = take (length (ho_name host) + 1) (drop name (take (nb_used c3) (nb_bytes b')))"
    using f g h by (simp add: take_drop min_def POINTER_def)
  also have "\<dots> = take (length (ho_name host) + 1) (drop name (nb_bytes c1))"
    using k f g h bytes by (simp add: take_drop min_def POINTER_def)
  also have "\<dots> = map Some (ho_name host @ [0])"
    using f take_overwrite(2) [of name "map Some (ho_name host @ [0])" "nb_bytes b"] by simp
  finally have "take (length (ho_name host) + 1) (drop name (nb_bytes b')) = map Some (ho_name host @ [0])" .
  then show ?thesis
    using f g h k bytes assms(2) by (auto simp: regions_def l POINTER_def list_all2_lengthD)
qed

section \<open>From the service to the caller\<close>

definition record_typed :: "'n rr \<Rightarrow> bool" where
  "record_typed r = (case rr_data r of RdA ip \<Rightarrow> length ip = 4 | RdAAAA ip \<Rightarrow> length ip = 16 | _ \<Rightarrow> True)"

definition sound_address :: "'n \<Rightarrow> u16 \<Rightarrow> 'n dns_message \<Rightarrow> ip_addr \<Rightarrow> bool" where
  "sound_address name kind reply ip \<longleftrightarrow> dm_response_code reply = NoError \<and>
     (\<exists>r\<in>set (dm_answers reply). aliased (dm_answers reply) name (rr_name r) \<and> address_record kind ip r)"

lemma family_addresses_sound: "ip \<in> set (family_addresses name kind reply) \<Longrightarrow> sound_address name kind reply ip"
  using follow_aliases_sound [OF _ same]
  by (fastforce simp: family_addresses_def answer_addresses_def sound_address_def split: if_splits)

lemma sound_address_kind:
  "sound_address name kind reply ip \<Longrightarrow> is_ipv4 ip = (kind = TYPE_A) \<and> (kind = TYPE_A \<or> kind = TYPE_AAAA)"
  "sound_address name kind reply ip \<Longrightarrow> list_all record_typed (dm_answers reply) \<Longrightarrow> ip_typed ip"
  by (cases ip; fastforce simp: sound_address_def address_record_def is_ipv4_def record_typed_def list_all_iff)+

definition served_addresses :: "'n \<Rightarrow> 'n dns_message \<Rightarrow> 'n dns_message \<Rightarrow> ip_addr list" where
  "served_addresses name a aaaa = take MAX_ADDRESSES (family_addresses name TYPE_A a @ family_addresses name TYPE_AAAA aaaa)"

lemma served_addresses_sound:
  "ip \<in> set (served_addresses name a aaaa) \<Longrightarrow> sound_address name TYPE_A a ip \<or> sound_address name TYPE_AAAA aaaa ip"
  by (auto simp: served_addresses_def dest!: in_set_takeD intro: family_addresses_sound)

lemma length_served: "length (served_addresses name a aaaa) \<le> MAX_ADDRESSES"
  by (simp add: served_addresses_def)

text \<open>What the service says about two replies, before it is encoded.\<close>

definition service_answer :: "'n \<Rightarrow> 'n dns_message \<Rightarrow> 'n dns_message \<Rightarrow> u8 + ip_addr list" where
  "service_answer name a aaaa =
     (if served_addresses name a aaaa \<noteq> [] then Inr (served_addresses name a aaaa)
      else Inl (if is_temporary a \<or> is_temporary aaaa then TEMPORARY else NOT_FOUND))"

lemma nss_response_encodes: "response_encode (service_answer name a aaaa) = Ok (nss_response name a aaaa)"
proof -
  have "nss_response name a aaaa = dns_response (if served_addresses name a aaaa \<noteq> [] then OK
      else if is_temporary a \<or> is_temporary aaaa then TEMPORARY else NOT_FOUND) (served_addresses name a aaaa)"
    unfolding nss_response_def Let_def served_addresses_def by (rule refl)
  then show ?thesis by (simp add: service_answer_def response_encode_def)
qed

lemma service_answer_ok:
  assumes "list_all record_typed (dm_answers a)" "list_all record_typed (dm_answers aaaa)"
  shows "response_ok (service_answer name a aaaa)"
proof -
  have "ip_typed ip" if "ip \<in> set (served_addresses name a aaaa)" for ip
    using served_addresses_sound [OF that] by (elim disjE) (erule sound_address_kind(2), rule assms)+
  then show ?thesis
    using length_served [of name a aaaa]
    by (simp add: service_answer_def response_ok_def list_all_iff OK_def TEMPORARY_def NOT_FOUND_def UNAVAILABLE_def)
qed

lemma nss_response_decodes:
  assumes "list_all record_typed (dm_answers a)" "list_all record_typed (dm_answers aaaa)"
  shows "length (nss_response name a aaaa) = RESPONSE_LEN" "dns_addresses (nss_response name a aaaa) = Ok (service_answer name a aaaa)"
proof -
  note e = service_answer_ok [OF assms, of name] nss_response_encodes [of name a aaaa]
  show l: "length (nss_response name a aaaa) = RESPONSE_LEN" by (rule length_dns_response [OF e])
  show "dns_addresses (nss_response name a aaaa) = Ok (service_answer name a aaaa)"
    using resolver_response.dec_enc [OF e] l by simp
qed

lemma wanted_sound:
  assumes "ip \<in> set (filter (\<lambda>ip. is_ipv4 ip = (family = AF_INET)) (served_addresses name a aaaa))"
  shows "if family = AF_INET then sound_address name TYPE_A a ip else sound_address name TYPE_AAAA aaaa ip"
proof -
  have ip: "is_ipv4 ip = (family = AF_INET)" "ip \<in> set (served_addresses name a aaaa)" using assms by simp_all
  from served_addresses_sound [OF ip(2)] show ?thesis
  proof
    assume s: "sound_address name TYPE_A a ip"
    then show ?thesis using sound_address_kind(1) [OF s] ip(1) by simp
  next
    assume s: "sound_address name TYPE_AAAA aaaa ip"
    then show ?thesis using sound_address_kind(1) [OF s] ip(1) by simp
  qed
qed

lemma resolution_served:
  "resolution n family (Ok (service_answer name a aaaa)) =
    (let ips = filter (\<lambda>ip. is_ipv4 ip = (family = AF_INET)) (served_addresses name a aaaa)
     in if served_addresses name a aaaa = [] then
          (if is_temporary a \<or> is_temporary aaaa then Err \<lparr>nf_status = -2, nf_errno = EAGAIN, nf_herrno = 2\<rparr>
           else Err \<lparr>nf_status = 0, nf_errno = 0, nf_herrno = 1\<rparr>)
        else if ips = [] then Err \<lparr>nf_status = 0, nf_errno = 0, nf_herrno = 4\<rparr>
        else Ok \<lparr>ho_name = n, ho_addresses = ips, ho_family = family\<rparr>)"
  by (auto simp: resolution_def service_answer_def Let_def NOT_FOUND_def TEMPORARY_def)

text \<open>A lookup of the service's answer ends: it fails on the socket, or finds what the service sent.\<close>

lemma resolve_served:
  assumes "socket_ok k h" "dns_request n = Ok q" "family = AF_INET \<or> family = AF_INET6"
    "list_all record_typed (dm_answers a)" "list_all record_typed (dm_answers aaaa)"
    "hi_peer h q = nss_response name a aaaa"
  shows "\<exists>s'. (\<exists>e. nss_transfer k q s = Some (Err e, s') \<and> resolve k n family s = Some (resolution n family (Err e), s')) \<or>
    resolve k n family s = Some (resolution n family (Ok (service_answer name a aaaa)), s')"
proof -
  from nss_transfer_ends [OF assms(1), of q s] obtain r s' where t: "nss_transfer k q s = Some (r, s')"
    "case r of Ok response \<Rightarrow> length response = RESPONSE_LEN \<and> prefix response (hi_peer h q) | Err _ \<Rightarrow> True | Panic \<Rightarrow> False" by blast
  have f: "\<not> (family \<noteq> AF_INET \<and> family \<noteq> AF_INET6)" using assms(3) by blast
  show ?thesis
  proof (cases r)
    case (Ok response)
    with t(2) have "response = nss_response name a aaaa"
      using nss_response_decodes(1) [OF assms(4,5), of name] by (auto simp: assms(6) prefix_def)
    then show ?thesis
      using assms(2) f t(1) Ok nss_response_decodes(2) [OF assms(4,5), of name] by (auto simp: resolve_def lookup_def)
  qed (use assms(2) f t in \<open>auto simp: resolve_def lookup_def\<close>)
qed

text \<open>What a caller may rely on: every address of a host comes from a record of the wanted type at the queried name or one of
  its aliases, and where it is put in a buffer.\<close>

definition host_sound :: "'n \<Rightarrow> 'n dns_message \<Rightarrow> 'n dns_message \<Rightarrow> int \<Rightarrow> host \<Rightarrow> bool" where
  "host_sound name a aaaa family host \<longleftrightarrow>
     ho_addresses host \<noteq> [] \<and> length (ho_addresses host) \<le> MAX_ADDRESSES \<and> ho_family host = family \<and>
     list_all (\<lambda>ip. if family = AF_INET then sound_address name TYPE_A a ip else sound_address name TYPE_AAAA aaaa ip)
       (ho_addresses host)"


text \<open>A socket that takes a whole request at once and then delivers the answer of a service that knows one name.\<close>

definition example_peer :: "bytes \<Rightarrow> bytes" where
  "example_peer w = (if length w = REQUEST_LEN then nss_response () example_answer example_answer else [])"

definition example_stream :: "(bytes \<times> bytes \<times> nat) stream_kernel" where
  "example_stream = \<lparr>
     sk_now = (\<lambda>(w, r, t). (Suc t, (w, r, Suc t))),
     sk_open = (\<lambda>(w, r, t). (Ok (), ([], [], t))),
     sk_write = (\<lambda>bs (w, r, t). (Ok (length bs), (w @ bs, r, t))),
     sk_read = (\<lambda>n (w, r, t). let bs = take n (drop (length r) (example_peer w)) in (Ok bs, (w, r @ bs, t))),
     sk_poll = (\<lambda>_ _ s. (Ok 1, s))\<rparr>"

definition example_history :: "(bytes \<times> bytes \<times> nat) history" where
  "example_history = \<lparr>hi_written = fst, hi_received = fst \<circ> snd, hi_clock = snd \<circ> snd, hi_peer = example_peer\<rparr>"

lemma example_socket_ok: "socket_ok example_stream example_history"
proof -
  have "r @ take n (drop (length r) p) = take (length r + n) p" if "prefix r p" for r p :: bytes and n
    using that by (auto simp: prefix_def)
  then show ?thesis
    by (auto simp: socket_ok_def example_stream_def example_history_def triple_def at_history_def read_clock_def Let_def take_is_prefix)
qed

lemma example_transfer:
  assumes "length q = REQUEST_LEN"
  shows "\<exists>s'. nss_transfer example_stream q ([], [], 0) = Some (Ok (nss_response () example_answer example_answer), s')"
proof -
  have t: "list_all record_typed (dm_answers example_answer)" by (simp add: example_answer_def record_typed_def)
  note l = nss_response_decodes(1) [OF t t, of "()"]
  have w: "transfer_buffer example_stream 5000000001 True q 0 ([], [], 1) = Some (Ok q, (q, [], 2))"
    by (subst transfer_buffer.simps) (simp add: transfer_once_def example_stream_def st_defs assms REQUEST_LEN_def
        read_clock_def transfer_buffer.simps [of _ _ _ q 264])
  let ?p = "nss_response () example_answer example_answer"
  have r: "transfer_buffer example_stream 5000000001 False (replicate RESPONSE_LEN 0) 0 (q, [], 2) = Some (Ok ?p, (q, ?p, 3))"
    by (subst transfer_buffer.simps) (simp add: transfer_once_def example_stream_def st_defs assms l example_peer_def overwrite_def
        RESPONSE_LEN_def MAX_ADDRESSES_def Let_def read_clock_def transfer_buffer.simps [of _ _ _ ?p])
  show ?thesis using w r by (simp add: nss_transfer_def st_defs read_clock_def example_stream_def LOOKUP_TIMEOUT_def)
qed


end
