(* ===== verification/Spec2Isabelle.thy ===== *)
theory Spec2Isabelle
  imports
    Drv_Prelude
    Hardware_Api
    Deterministic_Backend
    Backend_Guarantees
    Dma_Pool
    Driver_Runtime
    Srng_Guarantees
    Wfdma_Ring
    Wlan_Control_Guarantees
    Supervisor_Wire
    Wifi_Control_Guarantees
    Nss_Resolve
begin

text \<open>
  \<^bold>\<open>Verification of the drv workspace: user-space drivers and the services around them.\<close>

  \<^bold>\<open>The program.\<close> A driver process reaches its device only through capabilities: register windows, DMA buffers and
  interrupts that a backend issues and a reset revokes (\<open>crates/platform/hardware-api\<close>,
  \<open>crates/platform/hardware-backends\<close>). On top of them are pools of DMA segments (\<open>crates/platform/dma-pool\<close>),
  device-neutral state machines (\<open>crates/platform/driver-runtime\<close>) and the rings and images of two Wi-Fi chips
  (\<open>crates/wifi/drivers\<close>). The Wi-Fi process runs a control service (\<open>crates/wifi/wifi-control-service\<close>) that speaks
  to a policy process in packets (\<open>crates/wifi/wlan-control-wire\<close>) and announces Ethernet devices to the network
  supervisor (\<open>crates/wifi/wifi-supervisor-wire\<close>). Applications resolve names through a module of the C library
  (\<open>crates/net/nss-drv\<close>) that asks a caching forwarder (\<open>crates/net/dns-service\<close>) over a local socket
  (\<open>crates/net/dns-wire\<close>).

  \<^bold>\<open>Conventions.\<close>
  \<^item> Fixed-width integers are words; \<open>usize\<close> is a natural number with the bound of 64 bits written where the code checks it.
    Arithmetic that is unchecked in the source panics in the model when it would overflow, as in a build with overflow checks.
  \<^item> A fallible function returns \<open>Ok\<close>, \<open>Err\<close> or \<open>Panic\<close>; a method that changes its object is an operation from a state to
    such a result and the next state. The combinators are in \<open>Drv_Prelude\<close> and \<open>Op_Hoare\<close>.
  \<^item> A loop over data is a structural recursion. A loop bounded by a constant in the source carries that constant: 48 steps of
    the PCIe capability search, 16 steps of an alias chain. The two loops that run until the environment lets them end
    (\<open>run_to_terminal\<close>, \<open>transfer_buffer\<close>) are partial functions that are \<open>None\<close> if they do not end, and that they end is proved.
  \<^item> What the source does not define is a parameter with named hypotheses, each shown satisfiable by a concrete instance: the
    kernel (\<open>kernel_ok\<close>, \<open>socket_ok\<close>), the Wi-Fi runtime (\<open>runtime_ok\<close>), the publisher of a transmit ring, the DNS message
    library (\<open>hickory_ok\<close>) and the upstream transport. The simulated runtime is part of the source and is modelled.
  \<^item> States may carry history fields that no operation reads (\<open>cs_history\<close>, \<open>cs_sent\<close> of the control service); they name past
    messages in the theorems.

  \<^bold>\<open>Theories, and what their lemmas show.\<close>

  \<^descr> \<open>Drv_Prelude\<close>, \<open>Op_Hoare\<close>: results, operations, slices, byte order, UTF-8, the interface \<open>wire_codec\<close> of canonical
    packet formats, and a program logic for operations (no panic, one postcondition for success and one for errors).
  \<^descr> \<open>Hardware_Api\<close> (\<open>hardware-api/src/lib.rs\<close>): the backend trait as a record of operations, register windows and
    their sub-windows, DMA buffers with splitting and transfers, interrupts, reset. The interface \<open>hw_backend\<close> states what a
    backend promises; what drivers may rely on is proved once inside it.
  \<^descr> \<open>Deterministic_Backend\<close> (\<open>hardware-backends/src/lib.rs\<close>): the deterministic backend with its edu device, fault
    injection and resource probe; the invariant of its address arena; the interpretation of \<open>hw_backend\<close>; reachable states.
  \<^descr> \<open>Backend_Guarantees\<close>: C1 register access stays in its window, C2 a reset revokes every handle, C3 and C4
    allocations are fresh, zeroed, aligned, and leave nothing behind when they fail, C5 and C6 round trips and splitting, C7 allocations
    never overlap, C8 device writes are confined, C9 and C10 the hand-over of streaming buffers, C11 the edu sequence ends.
  \<^descr> \<open>Dma_Pool\<close> (\<open>dma-pool/src/lib.rs\<close>): pools, segments and the step relation of a pool with its clients, over any backend
    with the interface \<open>pool_backend\<close>. C12 segments never overlap and the free list is bounded, C13 how a page is
    carved, C14 a segment of which only a part was given to the device is nevertheless reused.
  \<^descr> \<open>Driver_Runtime\<close> (\<open>driver-runtime/src/lib.rs\<close>): C15 when containment is required, C16 the interrupt life cycle, the
    selection of an interrupt, C18 completion counts and deadlines, C19 transcripts.
  \<^descr> \<open>Srng\<close>, \<open>Srng_Guarantees\<close> (\<open>ath11k-hal/src/srng.rs\<close>): scatter/gather rings with set-up, indices and registers. The
    interface \<open>bounded_fifo\<close> is interpreted for both directions: C20 and C21 rings are bounded queues under every
    interleaving with the hardware, C22 the free count is exact, C23 reaping never hands out an entry the hardware owns, C24
    set-up.
  \<^descr> \<open>Mt76_Core\<close> (\<open>mt76-core/src/lib.rs\<close>): C25 the PCIe capability search, C26 and C27 patch and firmware images, C28
    descriptors.
  \<^descr> \<open>Wfdma_Ring\<close> (\<open>mt7921-core/src/lib.rs\<close>, \<open>WfdmaRing\<close>): C29 the transmit ring under every schedule.
  \<^descr> \<open>Wlan_Fidl\<close>, \<open>Wlan_Control_Wire\<close>, \<open>Wlan_Control_Fields\<close>, \<open>Wlan_Control_Guarantees\<close> (the FIDL bindings and
    \<open>wlan-control-wire/src/lib.rs\<close>): every encoder and decoder, composed from codecs with the interface \<open>field_codec\<close>. C30
    the packet decoder accepts exactly the encodings of acceptable packets, C31 a session accepts increasing request numbers.
  \<^descr> \<open>Supervisor_Wire\<close> (\<open>wifi-supervisor-wire/src/lib.rs\<close>): C32 lifecycle messages are canonical.
  \<^descr> \<open>Wifi_Control_Service\<close>, \<open>Wifi_Control_Invariant\<close>, \<open>Simulated_Wifi_Runtime\<close>, \<open>Wifi_Control_Guarantees\<close>
    (\<open>wifi-control-service/src/lib.rs\<close>): endpoints, queues, dispatch of commands, driving of the runtime and the outer
    loop. The interface \<open>control_service\<close> holds the lemmas for every kernel and runtime with their contracts and is
    interpreted on the simulated runtime. C33 bounded queues and no panic, C34 the policy stream is a session, C35 one reply
    per request, C36 the supervisor stream, C37 the loop ends after a hang-up. A turn of the loop queues at most 66 packets, so that
    many request numbers are kept in reserve.
  \<^descr> \<open>Dns_Wire\<close> (\<open>dns-wire/src/lib.rs\<close>): C38 requests and responses are canonical, as two interpretations of
    \<open>wire_codec\<close>.
  \<^descr> \<open>Dns_Cache\<close> (\<open>dns-service/src/cache.rs\<close>): C39 the cache stays within its budgets and serves only messages that were
    stored under the key and have not expired, with reduced times to live.
  \<^descr> \<open>Dns_Service\<close> (\<open>dns-service/src/forward.rs\<close>, \<open>ingress.rs\<close>): C17 an exchange returns a reply to its request; alias
    chains lead only to records of the same reply.
  \<^descr> \<open>Nss_Stream\<close>, \<open>Nss_Resolve\<close> (\<open>nss-drv/src/safe.rs\<close>): the exchange over the socket ends;
    C40 from the service's replies to the buffer of the caller.

  \<^bold>\<open>Not modelled.\<close>
  \<^item> In the parts above: reference counts of shared allocations and asynchronous waiting for interrupts in
    \<open>hardware-api\<close>; FIDL types that no policy packet carries; forwarding methods and accessors of the control service; the
    listeners, semaphores and task scheduling of \<open>dns-service/src/ingress.rs\<close>, its size-limited encoder and its configuration
    parser; the C entry point of \<open>nss-drv\<close>. The HTTPS transport of \<open>dns-service\<close> is a parameter.
  \<^item> The Linux backends (\<open>linux_vfio.rs\<close>, \<open>pci_control.rs\<close>, \<open>userspace-vfio\<close>), sandboxes and process supervision: they
    are sequences of system calls whose meaning is the kernel's. What drivers rely on is the contract \<open>hw_backend\<close>.
  \<^item> Firmware command sequences and register programming of the chips beyond rings, descriptors and images (\<open>ath11k-ce\<close>,
    \<open>ath11k-dp\<close>, \<open>ath11k-wmi\<close>, \<open>ath11k-qmi\<close>, \<open>ath11k-core\<close>, the remainder of \<open>mt7921-core\<close>, the production client and the
    adapters): what they must achieve is fixed by firmware that is not part of the source.
  \<^item> The hosts of ported third-party stacks (\<open>wlan-softmac-host\<close>, \<open>wlancfg-service\<close>, \<open>network-service\<close>,
    \<open>netstack3-port-spike\<close>, Bluetooth, audio) and the programs under \<open>lab\<close>.
\<close>

end
